(* ===== verification/Prelude.thy ===== *)
theory Prelude
  imports Main "HOL-Library.Word" "HOL-Library.Monad_Syntax"
begin

unbundle bit_operations_syntax

text \<open>
  Shared base of the development: the C integer types as words, arrays whose
  out-of-range accesses are failures, and the generic facts about lists and
  words the components use.

  Every operation of the model that can leave the defined behaviour of C has a
  result in \<open>'a option\<close>: \<open>None\<close> says that execution does not get past this point
  (a \<open>NULL\<close> or dangling dereference, an index outside an allocation, an
  uncaught C++ exception, or uthash's \<open>exit(-1)\<close> when \<open>malloc\<close> fails).  Error
  codes are ordinary results and never \<open>None\<close>.
\<close>

section \<open>C integers and pointers\<close>

type_synonym u8 = "8 word"
type_synonym u16 = "16 word"
type_synonym u32 = "32 word"
type_synonym u64 = "64 word"
type_synonym i32 = "32 word"
type_synonym i64 = "64 word"

type_synonym addr = nat
type_synonym ptr = "nat option"

abbreviation NULL :: ptr where "NULL \<equiv> None"

named_theorems run_simps "unfolding rules for executions of the model"
named_theorems heap_simps "rewrite rules for loads, stores, allocation and free"

section \<open>Arrays\<close>

definition arr_get :: "'a list \<Rightarrow> nat \<Rightarrow> 'a option" where
  "arr_get xs i = (if i < length xs then Some (xs ! i) else None)"

definition arr_set :: "'a list \<Rightarrow> nat \<Rightarrow> 'a \<Rightarrow> 'a list option" where
  "arr_set xs i v = (if i < length xs then Some (xs[i := v]) else None)"

lemma arr_get_in [simp]: "i < length xs \<Longrightarrow> arr_get xs i = Some (xs ! i)"
  by (simp add: arr_get_def)

lemma arr_get_out [simp]: "length xs \<le> i \<Longrightarrow> arr_get xs i = None"
  by (simp add: arr_get_def)

lemma arr_set_in [simp]: "i < length xs \<Longrightarrow> arr_set xs i v = Some (xs[i := v])"
  by (simp add: arr_set_def)

lemma arr_set_out [simp]: "length xs \<le> i \<Longrightarrow> arr_set xs i v = None"
  by (simp add: arr_set_def)

lemma arr_get_eq_Some: "arr_get xs i = Some v \<longleftrightarrow> i < length xs \<and> v = xs ! i"
  by (auto simp: arr_get_def)

lemma arr_set_eq_Some: "arr_set xs i v = Some ys \<longleftrightarrow> i < length xs \<and> ys = xs[i := v]"
  by (auto simp: arr_set_def)

section \<open>Option monad\<close>

lemma bind_Some_iff: "Option.bind m f = Some y \<longleftrightarrow> (\<exists>x. m = Some x \<and> f x = Some y)"
  by (cases m) auto

lemma bind_cong_Some: "m = Some x \<Longrightarrow> Option.bind m f = f x"
  by simp

section \<open>Words\<close>

lemma unat_Suc_less: "unat (x :: 'a::len word) + 1 < 2 ^ LENGTH('a) \<Longrightarrow> unat (x + 1) = unat x + 1"
  by (simp add: unat_word_ariths)

lemma of_nat_Suc_word: "(of_nat (Suc n) :: 'a::len word) = of_nat n + 1"
  by simp

lemma unat_of_nat_lt: "n < 2 ^ LENGTH('a) \<Longrightarrow> unat (of_nat n :: 'a::len word) = n"
  by (simp add: unat_of_nat)

lemma unat_two_power:
  assumes "k < LENGTH('a)"
  shows "unat ((2 :: 'a::len word) ^ k) = 2 ^ k"
proof -
  have "(2 :: 'a word) ^ k = of_nat (2 ^ k)" by simp
  also have "unat \<dots> = 2 ^ k" using assms by (intro unat_of_nat_lt) simp
  finally show ?thesis .
qed

lemma and_mask_mod:
  fixes x :: "'a::len word"
  shows "unat (x AND (2 ^ k - 1)) = unat x mod 2 ^ k"
proof -
  have "x AND (2 ^ k - 1) = take_bit k x"
    by (simp add: take_bit_eq_mask mask_eq_exp_minus_1)
  then have "unat (x AND (2 ^ k - 1)) = take_bit k (unat x)"
    by (simp only: unsigned_take_bit_eq)
  then show ?thesis by (simp only: take_bit_eq_mod)
qed

lemma and_mask_less: "unat (x AND (2 ^ k - 1)) < 2 ^ k"
  for x :: "'a::len word"
  by (simp add: and_mask_mod)

section \<open>Lists\<close>

definition hdp :: "'a list \<Rightarrow> 'a option" where
  "hdp xs = (case xs of [] \<Rightarrow> None | x # _ \<Rightarrow> Some x)"

definition lastp :: "'a option \<Rightarrow> 'a list \<Rightarrow> 'a option" where
  "lastp p xs = (if xs = [] then p else Some (last xs))"

lemma hdp_simps [simp]:
  "hdp [] = None"
  "hdp (x # xs) = Some x"
  by (simp_all add: hdp_def)

lemma lastp_simps [simp]:
  "lastp p [] = p"
  "lastp p (x # xs) = lastp (Some x) xs"
  by (simp_all add: lastp_def)

lemma lastp_append [simp]: "lastp p (xs @ ys) = lastp (lastp p xs) ys"
  by (induction xs arbitrary: p) auto

lemma hdp_append: "hdp (xs @ ys) = (if xs = [] then hdp ys else hdp xs)"
  by (cases xs) auto

lemma hdp_None_iff [simp]: "hdp xs = None \<longleftrightarrow> xs = []"
  by (cases xs) auto

lemma hdp_SomeD: "hdp xs = Some a \<Longrightarrow> a \<in> set xs"
  by (cases xs) auto

lemma lastp_in: "lastp None xs = Some a \<Longrightarrow> a \<in> set xs"
  by (auto simp: lastp_def split: if_splits)

lemma lastp_Some_not_None [simp]: "lastp (Some a) xs \<noteq> None"
  by (simp add: lastp_def)

lemma lastp_None_iff [simp]: "lastp None xs = None \<longleftrightarrow> xs = []"
  by (simp add: lastp_def)

lemma find_snoc:
  "List.find P (xs @ [x]) = (case List.find P xs of None \<Rightarrow> if P x then Some x else None | Some y \<Rightarrow> Some y)"
  by (induction xs) auto

lemma find_remove1_key:
  assumes "distinct xs" and "inj_on f (set xs)" and "a \<in> set xs"
  shows "List.find (\<lambda>b. f b = k) (remove1 a xs) = (if k = f a then None else List.find (\<lambda>b. f b = k) xs)"
  using assms
proof (induction xs)
  case (Cons x xs)
  show ?case
  proof (cases "x = a")
    case True
    with Cons.prems have "f a \<notin> f ` set xs" by (auto simp: inj_on_def)
    with True show ?thesis by (auto simp: find_None_iff image_iff)
  next
    case False
    with Cons.prems have "f x \<noteq> f a" "a \<in> set xs" by (auto simp: inj_on_def)
    with False Cons show ?thesis by (auto simp: inj_on_insert)
  qed
qed simp

lemma map_of_filter_key:
  "map_of (filter (\<lambda>(k', v). k' \<noteq> k) al) = (map_of al)(k := None)"
  by (induction al) (auto simp: fun_eq_iff)

end
