(* ===== verification/CHeap.thy ===== *)
theory CHeap
  imports Prelude
begin

text \<open>
  The C heap, one typed heap per kind of object.  A heap maps addresses to the
  objects allocated there, hands out addresses in increasing order and never
  reuses one, so that an access through a dangling pointer is a failure of the
  model instead of an access to an unrelated object.  \<open>grants n\<close> says whether
  the \<open>n\<close>-th request to the allocator succeeds: \<open>malloc\<close>, \<open>calloc\<close> and \<open>new\<close> may
  fail at any call, and no property assumes more about the allocator than it
  states.
\<close>

record 'a heap =
  cells :: "nat \<rightharpoonup> 'a"
  brk :: nat
  grants :: "nat \<Rightarrow> bool"

definition empty_heap :: "(nat \<Rightarrow> bool) \<Rightarrow> 'a heap" where
  "empty_heap g = \<lparr>cells = Map.empty, brk = 0, grants = g\<rparr>"

definition h_load :: "ptr \<Rightarrow> 'a heap \<Rightarrow> 'a option" where
  "h_load p h = do { a \<leftarrow> p; cells h a }"

definition h_update :: "ptr \<Rightarrow> ('a \<Rightarrow> 'a) \<Rightarrow> 'a heap \<Rightarrow> 'a heap option" where
  "h_update p f h = do {
     a \<leftarrow> p;
     v \<leftarrow> cells h a;
     Some (h\<lparr>cells := (cells h)(a \<mapsto> f v)\<rparr>) }"

text \<open>\<open>malloc\<close>/\<open>calloc\<close>: \<open>NULL\<close> when the request is refused.\<close>

definition h_alloc :: "'a \<Rightarrow> 'a heap \<Rightarrow> ptr \<times> 'a heap" where
  "h_alloc v h =
     (if grants h (brk h)
      then (Some (brk h), h\<lparr>cells := (cells h)(brk h \<mapsto> v), brk := Suc (brk h)\<rparr>)
      else (NULL, h\<lparr>brk := Suc (brk h)\<rparr>))"

text \<open>A request for raw storage that is kept inside another object (a bucket array).\<close>

definition h_request :: "'a heap \<Rightarrow> bool \<times> 'a heap" where
  "h_request h = (grants h (brk h), h\<lparr>brk := Suc (brk h)\<rparr>)"

text \<open>\<open>free\<close>/\<open>delete\<close>: a no-op on \<open>NULL\<close>, a failure on anything not allocated.\<close>

definition h_free :: "ptr \<Rightarrow> 'a heap \<Rightarrow> 'a heap option" where
  "h_free p h = (case p of
      None \<Rightarrow> Some h
    | Some a \<Rightarrow> if cells h a = None then None else Some (h\<lparr>cells := (cells h)(a := None)\<rparr>))"

text \<open>Addresses below \<open>brk\<close> are the only ones allocated so far.\<close>

definition heap_wf :: "'a heap \<Rightarrow> bool" where
  "heap_wf h \<longleftrightarrow> (\<forall>a. brk h \<le> a \<longrightarrow> cells h a = None)"

lemma h_load_simps [simp]:
  "h_load None h = None"
  "h_load (Some a) h = cells h a"
  by (simp_all add: h_load_def)

lemma h_update_simps [simp]:
  "h_update None f h = None"
  "cells h a = Some v \<Longrightarrow> h_update (Some a) f h = Some (h\<lparr>cells := (cells h)(a \<mapsto> f v)\<rparr>)"
  "cells h a = None \<Longrightarrow> h_update (Some a) f h = None"
  by (simp_all add: h_update_def)

lemma h_free_simps [simp]:
  "h_free None h = Some h"
  "cells h a = Some v \<Longrightarrow> h_free (Some a) h = Some (h\<lparr>cells := (cells h)(a := None)\<rparr>)"
  "cells h a = None \<Longrightarrow> h_free (Some a) h = None"
  by (simp_all add: h_free_def)

lemma h_alloc_granted:
  "grants h (brk h) \<Longrightarrow>
     h_alloc v h = (Some (brk h), h\<lparr>cells := (cells h)(brk h \<mapsto> v), brk := Suc (brk h)\<rparr>)"
  by (simp add: h_alloc_def)

lemma h_alloc_refused:
  "\<not> grants h (brk h) \<Longrightarrow> h_alloc v h = (NULL, h\<lparr>brk := Suc (brk h)\<rparr>)"
  by (simp add: h_alloc_def)

lemma heap_wf_empty [simp]: "heap_wf (empty_heap g)"
  by (simp add: heap_wf_def empty_heap_def)

lemma heap_wf_fresh [simp]: "heap_wf h \<Longrightarrow> cells h (brk h) = None"
  by (simp add: heap_wf_def)

lemma heap_wf_less: "heap_wf h \<Longrightarrow> cells h a = Some v \<Longrightarrow> a < brk h"
  unfolding heap_wf_def by (metis not_le_imp_less option.distinct(1))

lemma heap_wf_update: "heap_wf h \<Longrightarrow> h_update p f h = Some h' \<Longrightarrow> heap_wf h'"
  by (auto simp: heap_wf_def h_update_def bind_Some_iff)

lemma heap_wf_alloc: "heap_wf h \<Longrightarrow> heap_wf (snd (h_alloc v h))"
  by (auto simp: heap_wf_def h_alloc_def)

lemma heap_wf_request: "heap_wf h \<Longrightarrow> heap_wf (snd (h_request h))"
  by (auto simp: heap_wf_def h_request_def)

lemma heap_wf_free: "heap_wf h \<Longrightarrow> h_free p h = Some h' \<Longrightarrow> heap_wf h'"
  by (auto simp: heap_wf_def h_free_def split: option.splits if_splits)

lemmas heap_wf_intros = heap_wf_update heap_wf_alloc heap_wf_request heap_wf_free

end
