(* ===== verification/Common.thy ===== *)
theory Common
  imports CHeap
begin

text \<open>
  \<open>include/cachercise/cachercise-common.h\<close>: the return codes, the kinds of an
  I/O request and the cache identifiers.  A return code is a constructor of
  \<open>cachercise_return_t\<close>; on the wire and where C converts it to an integer it
  is \<open>ret_code\<close> of that constructor, the value the C enumeration gives it.
\<close>

section \<open>Return codes\<close>

datatype cachercise_return_t =
    CACHERCISE_SUCCESS
  | CACHERCISE_ERR_ALLOCATION
  | CACHERCISE_ERR_INVALID_ARGS
  | CACHERCISE_ERR_INVALID_PROVIDER
  | CACHERCISE_ERR_INVALID_CACHE
  | CACHERCISE_ERR_INVALID_BACKEND
  | CACHERCISE_ERR_INVALID_CONFIG
  | CACHERCISE_ERR_INVALID_TOKEN
  | CACHERCISE_ERR_FROM_MERCURY
  | CACHERCISE_ERR_FROM_ARGOBOTS
  | CACHERCISE_ERR_OP_UNSUPPORTED
  | CACHERCISE_ERR_OP_FORBIDDEN
  | CACHERCISE_ERR_OTHER

definition all_ret :: "cachercise_return_t list" where
  "all_ret =
     [CACHERCISE_SUCCESS, CACHERCISE_ERR_ALLOCATION, CACHERCISE_ERR_INVALID_ARGS,
      CACHERCISE_ERR_INVALID_PROVIDER, CACHERCISE_ERR_INVALID_CACHE,
      CACHERCISE_ERR_INVALID_BACKEND, CACHERCISE_ERR_INVALID_CONFIG,
      CACHERCISE_ERR_INVALID_TOKEN, CACHERCISE_ERR_FROM_MERCURY,
      CACHERCISE_ERR_FROM_ARGOBOTS, CACHERCISE_ERR_OP_UNSUPPORTED,
      CACHERCISE_ERR_OP_FORBIDDEN, CACHERCISE_ERR_OTHER]"

fun ret_index :: "cachercise_return_t \<Rightarrow> nat" where
  "ret_index CACHERCISE_SUCCESS = 0"
| "ret_index CACHERCISE_ERR_ALLOCATION = 1"
| "ret_index CACHERCISE_ERR_INVALID_ARGS = 2"
| "ret_index CACHERCISE_ERR_INVALID_PROVIDER = 3"
| "ret_index CACHERCISE_ERR_INVALID_CACHE = 4"
| "ret_index CACHERCISE_ERR_INVALID_BACKEND = 5"
| "ret_index CACHERCISE_ERR_INVALID_CONFIG = 6"
| "ret_index CACHERCISE_ERR_INVALID_TOKEN = 7"
| "ret_index CACHERCISE_ERR_FROM_MERCURY = 8"
| "ret_index CACHERCISE_ERR_FROM_ARGOBOTS = 9"
| "ret_index CACHERCISE_ERR_OP_UNSUPPORTED = 10"
| "ret_index CACHERCISE_ERR_OP_FORBIDDEN = 11"
| "ret_index CACHERCISE_ERR_OTHER = 12"

definition ret_code :: "cachercise_return_t \<Rightarrow> i32" where
  "ret_code r = of_nat (ret_index r)"

text \<open>The enumerator with a given value, if there is one.\<close>

definition ret_of_code :: "i32 \<Rightarrow> cachercise_return_t option" where
  "ret_of_code c = arr_get all_ret (unat c)"

lemma all_ret_index: "all_ret ! ret_index r = r" "ret_index r < length all_ret"
  by (cases r; simp add: all_ret_def)+

lemma unat_ret_code [simp]: "unat (ret_code r) = ret_index r"
  using all_ret_index(2) [of r]
  by (simp add: ret_code_def all_ret_def unat_of_nat)

lemma ret_of_code_ret_code [simp]: "ret_of_code (ret_code r) = Some r"
  using all_ret_index [of r] by (simp add: ret_of_code_def)

lemma ret_code_inject [simp]: "ret_code r = ret_code s \<longleftrightarrow> r = s"
  by (metis option.inject ret_of_code_ret_code)

lemma ret_code_SUCCESS [simp]: "ret_code CACHERCISE_SUCCESS = 0"
  by (simp add: ret_code_def)

lemma ret_code_eq_0 [simp]: "ret_code r = 0 \<longleftrightarrow> r = CACHERCISE_SUCCESS"
  using ret_code_inject [of r CACHERCISE_SUCCESS] by simp

text \<open>C compares enumerators by value; the order of the type is that of the values.\<close>

instantiation cachercise_return_t :: linorder
begin

definition less_eq_cachercise_return_t :: "cachercise_return_t \<Rightarrow> cachercise_return_t \<Rightarrow> bool" where
  "less_eq_cachercise_return_t r s \<longleftrightarrow> ret_index r \<le> ret_index s"

definition less_cachercise_return_t :: "cachercise_return_t \<Rightarrow> cachercise_return_t \<Rightarrow> bool" where
  "less_cachercise_return_t r s \<longleftrightarrow> ret_index r < ret_index s"

instance
proof
  fix r s :: cachercise_return_t
  show "r \<le> s \<Longrightarrow> s \<le> r \<Longrightarrow> r = s"
    by (metis all_ret_index(1) le_antisym less_eq_cachercise_return_t_def)
qed (auto simp: less_eq_cachercise_return_t_def less_cachercise_return_t_def)

end

section \<open>Kinds of I/O\<close>

definition CACHERCISE_WRITE :: i32 where "CACHERCISE_WRITE = 0"
definition CACHERCISE_READ :: i32 where "CACHERCISE_READ = 1"

section \<open>Cache identifiers\<close>

text \<open>
  \<open>cachercise_cache_id_t\<close> is a struct of one \<open>uuid_t\<close>, that is, 16 bytes.  The
  16 bytes are one 128-bit word here; \<open>uuid_bytes\<close> is the byte array in memory
  order, which is what \<open>memcmp\<close>, \<open>memcpy\<close> and the hash function read.
\<close>

type_synonym cachercise_cache_id_t = "128 word"

definition uuid_bytes :: "cachercise_cache_id_t \<Rightarrow> u8 list" where
  "uuid_bytes w = map (\<lambda>i. ucast (drop_bit (8 * i) w)) [0..<16]"

definition uuid_of_bytes :: "u8 list \<Rightarrow> cachercise_cache_id_t" where
  "uuid_of_bytes bs = foldr (\<lambda>b w. push_bit 8 w OR ucast b) bs 0"

lemma length_uuid_bytes [simp]: "length (uuid_bytes w) = 16"
  by (simp add: uuid_bytes_def)

lemma uuid_bytes_inject [simp]: "uuid_bytes v = uuid_bytes w \<longleftrightarrow> v = w"
proof
  assume eq: "uuid_bytes v = uuid_bytes w"
  have byte: "(ucast (drop_bit (8 * i) v) :: u8) = ucast (drop_bit (8 * i) w)" if "i < 16" for i
    using arg_cong [OF eq, of "\<lambda>bs. bs ! i"] that by (simp add: uuid_bytes_def)
  show "v = w"
  proof (rule bit_word_eqI)
    fix n :: nat
    assume n: "n < LENGTH(128)"
    then have "n div 8 < 16" by simp
    from byte [OF this]
    have "bit (ucast (drop_bit (8 * (n div 8)) v) :: u8) (n mod 8) =
          bit (ucast (drop_bit (8 * (n div 8)) w) :: u8) (n mod 8)" by simp
    then show "bit v n \<longleftrightarrow> bit w n"
      by (simp add: bit_ucast_iff bit_drop_bit_eq)
  qed
qed simp

end
