(* ===== verification/Uthash.thy ===== *)
theory Uthash
  imports Common
begin

text \<open>
  \<open>src/uthash.h\<close> as the provider uses it: the hash of \<open>cachercise_cache\<close> structs
  keyed by their 16-byte \<open>id\<close>.  The model is at the level of the pointers the
  macros manipulate: every struct lives at an address of \<open>elts\<close>, carries a
  \<open>UT_hash_handle\<close> with the links of the application-order list
  (\<open>app_prev\<close>/\<open>app_next\<close>, in C \<open>prev\<close>/\<open>next\<close>) and of its bucket chain
  (\<open>hh_prev\<close>/\<open>hh_next\<close>), and points to its \<open>UT_hash_table\<close>, an object of \<open>tbls\<close>.

  \<open>hho\<close>, the constant distance between a struct and its handle, is not stored:
  the address of a struct also stands for the address of its handle, so
  \<open>ELMT_FROM_HH\<close> and \<open>HH_FROM_ELMT\<close> are the identity.  The build defines none
  of \<open>HASH_BLOOM\<close>, \<open>HASH_NONFATAL_OOM\<close>, \<open>HASH_FUNCTION\<close>, \<open>HASH_DEBUG\<close>, so the
  default branches of the conditional macros are the ones modelled.

  A macro that assigns to its \<open>head\<close> argument returns the new head.
\<close>

section \<open>The structs\<close>

record UT_hash_bucket =
  hh_head :: ptr
  count :: u32
  expand_mult :: u32

record UT_hash_table =
  buckets :: "UT_hash_bucket list"
  num_buckets :: u32
  log2_num_buckets :: u32
  num_items :: u32
  tail :: ptr
  ideal_chain_maxlen :: u32
  nonideal_items :: u32
  ineff_expands :: u32
  noexpand :: u32
  signature :: u32

record UT_hash_handle =
  tbl :: ptr
  app_prev :: ptr
  app_next :: ptr
  hh_prev :: ptr
  hh_next :: ptr
  key :: ptr
  keylen :: u32
  hashv :: u32

text \<open>
  A \<open>cachercise_cache\<close>: \<open>body\<close> stands for its members \<open>fn\<close> and \<open>ctx\<close>, which the
  hash never reads.  \<open>key\<close> of a handle is the address of the struct whose \<open>id\<close>
  member it points to.
\<close>

record 'b cache_elt =
  body :: 'b
  cid :: cachercise_cache_id_t
  hh :: UT_hash_handle

record 'b umem =
  elts :: "'b cache_elt heap"
  tbls :: "UT_hash_table heap"

definition zero_bucket :: UT_hash_bucket where
  "zero_bucket = \<lparr>hh_head = NULL, count = 0, expand_mult = 0\<rparr>"

definition zero_table :: UT_hash_table where
  "zero_table = \<lparr>buckets = [], num_buckets = 0, log2_num_buckets = 0, num_items = 0,
     tail = NULL, ideal_chain_maxlen = 0, nonideal_items = 0, ineff_expands = 0,
     noexpand = 0, signature = 0\<rparr>"

definition zero_handle :: UT_hash_handle where
  "zero_handle = \<lparr>tbl = NULL, app_prev = NULL, app_next = NULL, hh_prev = NULL,
     hh_next = NULL, key = NULL, keylen = 0, hashv = 0\<rparr>"

definition HASH_INITIAL_NUM_BUCKETS :: u32 where "HASH_INITIAL_NUM_BUCKETS = 32"
definition HASH_INITIAL_NUM_BUCKETS_LOG2 :: u32 where "HASH_INITIAL_NUM_BUCKETS_LOG2 = 5"
definition HASH_BKT_CAPACITY_THRESH :: u32 where "HASH_BKT_CAPACITY_THRESH = 10"
definition HASH_SIGNATURE :: u32 where "HASH_SIGNATURE = 0xa0111fe1"

section \<open>Jenkins' hash\<close>

definition HASH_JEN_MIX :: "u32 \<times> u32 \<times> u32 \<Rightarrow> u32 \<times> u32 \<times> u32" where
  "HASH_JEN_MIX = (\<lambda>(a, b, c).
     let a = a - b; a = a - c; a = a XOR drop_bit 13 c;
         b = b - c; b = b - a; b = b XOR push_bit 8 a;
         c = c - a; c = c - b; c = c XOR drop_bit 13 b;
         a = a - b; a = a - c; a = a XOR drop_bit 12 c;
         b = b - c; b = b - a; b = b XOR push_bit 16 a;
         c = c - a; c = c - b; c = c XOR drop_bit 5 b;
         a = a - b; a = a - c; a = a XOR drop_bit 3 c;
         b = b - c; b = b - a; b = b XOR push_bit 10 a;
         c = c - a; c = c - b; c = c XOR drop_bit 15 b
     in (a, b, c))"

text \<open>Byte \<open>n\<close> of the key, shifted left by \<open>s\<close> as an \<open>unsigned\<close>; 0 where the \<open>switch\<close> skips it.\<close>

definition jen_byte :: "u8 list \<Rightarrow> nat \<Rightarrow> nat \<Rightarrow> u32" where
  "jen_byte bs n s = (if n < length bs then push_bit s (ucast (bs ! n)) else 0)"

definition jen_word :: "u8 list \<Rightarrow> nat \<Rightarrow> u32" where
  "jen_word bs n = jen_byte bs n 0 + jen_byte bs (n + 1) 8
                 + jen_byte bs (n + 2) 16 + jen_byte bs (n + 3) 24"

text \<open>The \<open>while (_hj_k >= 12U)\<close> loop: the triple \<open>(_hj_i, _hj_j, hashv)\<close> and the rest of the key.\<close>

function jen_loop :: "u32 \<times> u32 \<times> u32 \<Rightarrow> u8 list \<Rightarrow> (u32 \<times> u32 \<times> u32) \<times> u8 list" where
  "jen_loop (i, j, h) bs =
     (if 12 \<le> length bs
      then jen_loop (HASH_JEN_MIX (i + jen_word bs 0, j + jen_word bs 4, h + jen_word bs 8))
             (drop 12 bs)
      else ((i, j, h), bs))"
  by pat_completeness auto
termination
  by (relation "measure (\<lambda>(_, bs). length bs)") auto

text \<open>
  The \<open>switch\<close> over the remaining bytes falls through from the highest one, so
  every remaining byte is added; bytes 8 to 10 enter \<open>hashv\<close> at bits 8 to 31.
  \<open>keylen\<close> is the length of the byte list.
\<close>

definition HASH_JEN :: "u8 list \<Rightarrow> u32" where
  "HASH_JEN bs =
     (let ((i, j, h), r) = jen_loop (0x9e3779b9, 0x9e3779b9, 0xfeedbeef) bs;
          h = h + of_nat (length bs);
          h = h + jen_byte r 10 24 + jen_byte r 9 16 + jen_byte r 8 8;
          j = j + jen_byte r 7 24 + jen_byte r 6 16 + jen_byte r 5 8 + jen_byte r 4 0;
          i = i + jen_byte r 3 24 + jen_byte r 2 16 + jen_byte r 1 8 + jen_byte r 0 0;
          (i, j, h) = HASH_JEN_MIX (i, j, h)
      in h)"

definition HASH_VALUE :: "u8 list \<Rightarrow> u32" where
  "HASH_VALUE keyptr = HASH_JEN keyptr"

definition HASH_TO_BKT :: "u32 \<Rightarrow> u32 \<Rightarrow> u32" where
  "HASH_TO_BKT hv num_bkts = (hv AND (num_bkts - 1))"

section \<open>Reading and writing the structs\<close>

definition elt_upd :: "ptr \<Rightarrow> (UT_hash_handle \<Rightarrow> UT_hash_handle) \<Rightarrow> 'b umem \<Rightarrow> 'b umem option" where
  "elt_upd p f m = do {
     es \<leftarrow> h_update p (\<lambda>e. e\<lparr>hh := f (hh e)\<rparr>) (elts m);
     Some (m\<lparr>elts := es\<rparr>) }"

definition tbl_upd :: "ptr \<Rightarrow> (UT_hash_table \<Rightarrow> UT_hash_table) \<Rightarrow> 'b umem \<Rightarrow> 'b umem option" where
  "tbl_upd p f m = do {
     ts \<leftarrow> h_update p f (tbls m);
     Some (m\<lparr>tbls := ts\<rparr>) }"

text \<open>\<open>(head)->hh.tbl\<close> and the table it points to.\<close>

definition tblp :: "ptr \<Rightarrow> 'b umem \<Rightarrow> ptr option" where
  "tblp p m = do { e \<leftarrow> h_load p (elts m); Some (tbl (hh e)) }"

definition the_tbl :: "ptr \<Rightarrow> 'b umem \<Rightarrow> UT_hash_table option" where
  "the_tbl p m = do { t \<leftarrow> tblp p m; h_load t (tbls m) }"

section \<open>HASH_FIND\<close>

text \<open>\<open>memcmp (out->hh.key, keyptr, n) == 0\<close>, a failure when \<open>n\<close> leaves either array.\<close>

definition HASH_KEYCMP_eq :: "ptr \<Rightarrow> u8 list \<Rightarrow> u32 \<Rightarrow> 'b umem \<Rightarrow> bool option" where
  "HASH_KEYCMP_eq kp keyptr n m = do {
     e \<leftarrow> h_load kp (elts m);
     if unat n \<le> 16 \<and> unat n \<le> length keyptr
     then Some (take (unat n) (uuid_bytes (cid e)) = take (unat n) keyptr)
     else None }"

partial_function (option) HASH_FIND_IN_BKT_loop ::
  "ptr \<Rightarrow> u8 list \<Rightarrow> u32 \<Rightarrow> u32 \<Rightarrow> 'b umem \<Rightarrow> ptr option" where
  "HASH_FIND_IN_BKT_loop out keyptr klen hv m =
     (case out of
        None \<Rightarrow> Some NULL
      | Some a \<Rightarrow> do {
          e \<leftarrow> h_load (Some a) (elts m);
          eq \<leftarrow> (if hashv (hh e) = hv \<and> keylen (hh e) = klen
                 then HASH_KEYCMP_eq (key (hh e)) keyptr klen m
                 else Some False);
          if eq then Some out
          else HASH_FIND_IN_BKT_loop (hh_next (hh e)) keyptr klen hv m })"

definition HASH_FIND_IN_BKT ::
  "UT_hash_bucket \<Rightarrow> u8 list \<Rightarrow> u32 \<Rightarrow> u32 \<Rightarrow> 'b umem \<Rightarrow> ptr option" where
  "HASH_FIND_IN_BKT b keyptr klen hv m = HASH_FIND_IN_BKT_loop (hh_head b) keyptr klen hv m"

definition HASH_FIND_BYHASHVALUE ::
  "ptr \<Rightarrow> u8 list \<Rightarrow> u32 \<Rightarrow> u32 \<Rightarrow> 'b umem \<Rightarrow> ptr option" where
  "HASH_FIND_BYHASHVALUE head keyptr klen hv m =
     (if head = NULL then Some NULL
      else do {
        t \<leftarrow> the_tbl head m;
        b \<leftarrow> arr_get (buckets t) (unat (HASH_TO_BKT hv (num_buckets t)));
        HASH_FIND_IN_BKT b keyptr klen hv m })"

definition HASH_FIND :: "ptr \<Rightarrow> u8 list \<Rightarrow> u32 \<Rightarrow> 'b umem \<Rightarrow> ptr option" where
  "HASH_FIND head keyptr klen m =
     (if head = NULL then Some NULL
      else HASH_FIND_BYHASHVALUE head keyptr klen (HASH_VALUE keyptr) m)"

section \<open>HASH_EXPAND_BUCKETS\<close>

text \<open>
  The inner \<open>while\<close>: move the chain that starts at \<open>thh\<close> into the new bucket
  array \<open>nb\<close>, front insertion, counting the items beyond the ideal length.
\<close>

partial_function (option) HASH_EXPAND_chain ::
  "ptr \<Rightarrow> UT_hash_table \<Rightarrow> UT_hash_bucket list \<Rightarrow> 'b umem
    \<Rightarrow> (UT_hash_table \<times> UT_hash_bucket list \<times> 'b umem) option" where
  "HASH_EXPAND_chain thh t nb m =
     (case thh of
        None \<Rightarrow> Some (t, nb, m)
      | Some a \<Rightarrow> do {
          e \<leftarrow> h_load (Some a) (elts m);
          let nxt = hh_next (hh e);
          let i = unat (HASH_TO_BKT (hashv (hh e)) (num_buckets t * 2));
          b \<leftarrow> arr_get nb i;
          let b = b\<lparr>count := count b + 1\<rparr>;
          let (t, b) =
            (if ideal_chain_maxlen t < count b
             then (t\<lparr>nonideal_items := nonideal_items t + 1\<rparr>,
                   if expand_mult b * ideal_chain_maxlen t < count b
                   then b\<lparr>expand_mult := expand_mult b + 1\<rparr> else b)
             else (t, b));
          m \<leftarrow> elt_upd (Some a) (\<lambda>x. x\<lparr>hh_prev := NULL, hh_next := hh_head b\<rparr>) m;
          m \<leftarrow> (if hh_head b = NULL then Some m
                else elt_upd (hh_head b) (\<lambda>x. x\<lparr>hh_prev := Some a\<rparr>) m);
          HASH_EXPAND_chain nxt t (nb[i := b\<lparr>hh_head := Some a\<rparr>]) m })"

text \<open>The outer \<open>for\<close> over the old buckets.\<close>

fun HASH_EXPAND_loop ::
  "UT_hash_bucket list \<Rightarrow> UT_hash_table \<Rightarrow> UT_hash_bucket list \<Rightarrow> 'b umem
    \<Rightarrow> (UT_hash_table \<times> UT_hash_bucket list \<times> 'b umem) option" where
  "HASH_EXPAND_loop [] t nb m = Some (t, nb, m)"
| "HASH_EXPAND_loop (b # bs) t nb m = do {
     (t, nb, m) \<leftarrow> HASH_EXPAND_chain (hh_head b) t nb m;
     HASH_EXPAND_loop bs t nb m }"

definition ideal_maxlen :: "UT_hash_table \<Rightarrow> u32" where
  "ideal_maxlen t =
     drop_bit (unat (log2_num_buckets t + 1)) (num_items t)
     + (if num_items t AND (num_buckets t * 2 - 1) \<noteq> 0 then 1 else 0)"

text \<open>
  The statements after the loops.  The old bucket array is freed and replaced;
  the loop bound \<open>(tbl)->num_buckets\<close> is the length of the old array.
\<close>

definition HASH_EXPAND_finish :: "UT_hash_table \<Rightarrow> UT_hash_bucket list \<Rightarrow> UT_hash_table" where
  "HASH_EXPAND_finish t nb =
     (let t = t\<lparr>num_buckets := num_buckets t * 2, log2_num_buckets := log2_num_buckets t + 1,
                buckets := nb\<rparr>;
          t = t\<lparr>ineff_expands :=
                  (if drop_bit 1 (num_items t) < nonideal_items t then ineff_expands t + 1 else 0)\<rparr>
      in if 1 < ineff_expands t then t\<lparr>noexpand := 1\<rparr> else t)"

definition HASH_EXPAND_BUCKETS :: "ptr \<Rightarrow> 'b umem \<Rightarrow> 'b umem option" where
  "HASH_EXPAND_BUCKETS tp m = do {
     t \<leftarrow> h_load tp (tbls m);
     let (ok, ts) = h_request (tbls m);
     let m = m\<lparr>tbls := ts\<rparr>;
     if \<not> ok \<or> length (buckets t) < unat (num_buckets t) then None
     else do {
       let t = t\<lparr>ideal_chain_maxlen := ideal_maxlen t, nonideal_items := 0\<rparr>;
       (t, nb, m) \<leftarrow> HASH_EXPAND_loop (take (unat (num_buckets t)) (buckets t)) t
                       (replicate (2 * unat (num_buckets t)) zero_bucket) m;
       tbl_upd tp (\<lambda>_. HASH_EXPAND_finish t nb) m } }"

section \<open>HASH_ADD\<close>

definition HASH_MAKE_TABLE :: "ptr \<Rightarrow> 'b umem \<Rightarrow> 'b umem option" where
  "HASH_MAKE_TABLE head m = do {
     let (tp, ts) = h_alloc (zero_table\<lparr>tail := head,
                               num_buckets := HASH_INITIAL_NUM_BUCKETS,
                               log2_num_buckets := HASH_INITIAL_NUM_BUCKETS_LOG2,
                               signature := HASH_SIGNATURE\<rparr>) (tbls m);
     m \<leftarrow> elt_upd head (\<lambda>x. x\<lparr>tbl := tp\<rparr>) (m\<lparr>tbls := ts\<rparr>);
     if tp = NULL then None
     else do {
       let (ok, ts) = h_request (tbls m);
       let m = m\<lparr>tbls := ts\<rparr>;
       if \<not> ok then None
       else tbl_upd tp (\<lambda>t. t\<lparr>buckets := replicate (unat HASH_INITIAL_NUM_BUCKETS) zero_bucket\<rparr>) m } }"

definition HASH_APPEND_LIST :: "ptr \<Rightarrow> ptr \<Rightarrow> 'b umem \<Rightarrow> 'b umem option" where
  "HASH_APPEND_LIST head add m = do {
     m \<leftarrow> elt_upd add (\<lambda>x. x\<lparr>app_next := NULL\<rparr>) m;
     t \<leftarrow> the_tbl head m;
     m \<leftarrow> elt_upd add (\<lambda>x. x\<lparr>app_prev := tail t\<rparr>) m;
     t \<leftarrow> the_tbl head m;
     m \<leftarrow> elt_upd (tail t) (\<lambda>x. x\<lparr>app_next := add\<rparr>) m;
     tp \<leftarrow> tblp head m;
     tbl_upd tp (\<lambda>t. t\<lparr>tail := add\<rparr>) m }"

definition HASH_ADD_TO_BKT :: "ptr \<Rightarrow> nat \<Rightarrow> ptr \<Rightarrow> 'b umem \<Rightarrow> 'b umem option" where
  "HASH_ADD_TO_BKT tp i addhh m = do {
     t \<leftarrow> h_load tp (tbls m);
     b \<leftarrow> arr_get (buckets t) i;
     let b = b\<lparr>count := count b + 1\<rparr>;
     m \<leftarrow> elt_upd addhh (\<lambda>x. x\<lparr>hh_next := hh_head b, hh_prev := NULL\<rparr>) m;
     m \<leftarrow> (if hh_head b = NULL then Some m
           else elt_upd (hh_head b) (\<lambda>x. x\<lparr>hh_prev := addhh\<rparr>) m);
     let b = b\<lparr>hh_head := addhh\<rparr>;
     m \<leftarrow> tbl_upd tp (\<lambda>t. t\<lparr>buckets := (buckets t)[i := b]\<rparr>) m;
     ap \<leftarrow> tblp addhh m;
     at \<leftarrow> h_load ap (tbls m);
     if (expand_mult b + 1) * HASH_BKT_CAPACITY_THRESH \<le> count b \<and> noexpand at = 0
     then HASH_EXPAND_BUCKETS ap m
     else Some m }"

definition HASH_ADD_TO_TABLE :: "ptr \<Rightarrow> u32 \<Rightarrow> ptr \<Rightarrow> 'b umem \<Rightarrow> 'b umem option" where
  "HASH_ADD_TO_TABLE head hv add m = do {
     tp \<leftarrow> tblp head m;
     m \<leftarrow> tbl_upd tp (\<lambda>t. t\<lparr>num_items := num_items t + 1\<rparr>) m;
     t \<leftarrow> the_tbl head m;
     HASH_ADD_TO_BKT tp (unat (HASH_TO_BKT hv (num_buckets t))) add m }"

definition HASH_ADD_KEYPTR_BYHASHVALUE ::
  "ptr \<Rightarrow> ptr \<Rightarrow> u32 \<Rightarrow> u32 \<Rightarrow> ptr \<Rightarrow> 'b umem \<Rightarrow> (ptr \<times> 'b umem) option" where
  "HASH_ADD_KEYPTR_BYHASHVALUE head keyptr klen hv add m = do {
     m \<leftarrow> elt_upd add (\<lambda>x. x\<lparr>hashv := hv, key := keyptr, keylen := klen\<rparr>) m;
     (head, m) \<leftarrow>
       (if head = NULL
        then do {
          m \<leftarrow> elt_upd add (\<lambda>x. x\<lparr>app_next := NULL, app_prev := NULL\<rparr>) m;
          m \<leftarrow> HASH_MAKE_TABLE add m;
          Some (add, m) }
        else do {
          tp \<leftarrow> tblp head m;
          m \<leftarrow> elt_upd add (\<lambda>x. x\<lparr>tbl := tp\<rparr>) m;
          m \<leftarrow> HASH_APPEND_LIST head add m;
          Some (head, m) });
     m \<leftarrow> HASH_ADD_TO_TABLE head hv add m;
     Some (head, m) }"

text \<open>\<open>HASH_ADD(hh, head, id, sizeof(cachercise_cache_id_t), add)\<close>.\<close>

definition HASH_ADD :: "ptr \<Rightarrow> u32 \<Rightarrow> ptr \<Rightarrow> 'b umem \<Rightarrow> (ptr \<times> 'b umem) option" where
  "HASH_ADD head klen add m = do {
     e \<leftarrow> h_load add (elts m);
     if unat klen \<le> 16
     then HASH_ADD_KEYPTR_BYHASHVALUE head add klen
            (HASH_VALUE (take (unat klen) (uuid_bytes (cid e)))) add m
     else None }"

section \<open>HASH_DEL\<close>

definition HASH_DEL_IN_BKT :: "ptr \<Rightarrow> nat \<Rightarrow> ptr \<Rightarrow> 'b umem \<Rightarrow> 'b umem option" where
  "HASH_DEL_IN_BKT tp i delhh m = do {
     t \<leftarrow> h_load tp (tbls m);
     b \<leftarrow> arr_get (buckets t) i;
     d \<leftarrow> h_load delhh (elts m);
     let b = b\<lparr>count := count b - 1\<rparr>;
     let b = (if hh_head b = delhh then b\<lparr>hh_head := hh_next (hh d)\<rparr> else b);
     m \<leftarrow> tbl_upd tp (\<lambda>t. t\<lparr>buckets := (buckets t)[i := b]\<rparr>) m;
     m \<leftarrow> (if hh_prev (hh d) = NULL then Some m
           else elt_upd (hh_prev (hh d)) (\<lambda>x. x\<lparr>hh_next := hh_next (hh d)\<rparr>) m);
     d \<leftarrow> h_load delhh (elts m);
     if hh_next (hh d) = NULL then Some m
     else elt_upd (hh_next (hh d)) (\<lambda>x. x\<lparr>hh_prev := hh_prev (hh d)\<rparr>) m }"

definition HASH_DELETE_HH :: "ptr \<Rightarrow> ptr \<Rightarrow> 'b umem \<Rightarrow> (ptr \<times> 'b umem) option" where
  "HASH_DELETE_HH head del m = do {
     d \<leftarrow> h_load del (elts m);
     if app_prev (hh d) = NULL \<and> app_next (hh d) = NULL
     then do {
       tp \<leftarrow> tblp head m;
       t \<leftarrow> h_load tp (tbls m);
       ts \<leftarrow> h_free tp (tbls m);
       Some (NULL, m\<lparr>tbls := ts\<rparr>) }
     else do {
       t \<leftarrow> the_tbl head m;
       m \<leftarrow> (if del = tail t
             then do { tp \<leftarrow> tblp head m; tbl_upd tp (\<lambda>t. t\<lparr>tail := app_prev (hh d)\<rparr>) m }
             else Some m);
       (head, m) \<leftarrow>
         (if app_prev (hh d) \<noteq> NULL
          then do {
            m \<leftarrow> elt_upd (app_prev (hh d)) (\<lambda>x. x\<lparr>app_next := app_next (hh d)\<rparr>) m;
            Some (head, m) }
          else Some (app_next (hh d), m));
       m \<leftarrow> (if app_next (hh d) \<noteq> NULL
             then elt_upd (app_next (hh d)) (\<lambda>x. x\<lparr>app_prev := app_prev (hh d)\<rparr>) m
             else Some m);
       t \<leftarrow> the_tbl head m;
       tp \<leftarrow> tblp head m;
       m \<leftarrow> HASH_DEL_IN_BKT tp (unat (HASH_TO_BKT (hashv (hh d)) (num_buckets t))) del m;
       m \<leftarrow> tbl_upd tp (\<lambda>t. t\<lparr>num_items := num_items t - 1\<rparr>) m;
       Some (head, m) } }"

definition HASH_DEL :: "ptr \<Rightarrow> ptr \<Rightarrow> 'b umem \<Rightarrow> (ptr \<times> 'b umem) option" where
  "HASH_DEL head delptr m = HASH_DELETE_HH head delptr m"

section \<open>HASH_ITER\<close>

text \<open>
  The \<open>for\<close> loop of \<open>HASH_ITER\<close> over a state \<open>s\<close> that holds the memory \<open>mem_of s\<close>:
  \<open>tmp\<close> is read before the body runs, so the body may delete and free \<open>el\<close>.
\<close>

definition iter_next :: "ptr \<Rightarrow> 'b umem \<Rightarrow> ptr option" where
  "iter_next tmp m =
     (if tmp = NULL then Some NULL
      else do { e \<leftarrow> h_load tmp (elts m); Some (app_next (hh e)) })"

partial_function (option) HASH_ITER_loop ::
  "(addr \<Rightarrow> 's \<Rightarrow> 's option) \<Rightarrow> ('s \<Rightarrow> 'b umem) \<Rightarrow> ptr \<Rightarrow> ptr \<Rightarrow> 's \<Rightarrow> 's option" where
  "HASH_ITER_loop loop_body mem_of el tmp s =
     (case el of
        None \<Rightarrow> Some s
      | Some a \<Rightarrow> do {
          s \<leftarrow> loop_body a s;
          tmp' \<leftarrow> iter_next tmp (mem_of s);
          HASH_ITER_loop loop_body mem_of tmp tmp' s })"

definition HASH_ITER :: "(addr \<Rightarrow> 's \<Rightarrow> 's option) \<Rightarrow> ('s \<Rightarrow> 'b umem) \<Rightarrow> ptr \<Rightarrow> 's \<Rightarrow> 's option" where
  "HASH_ITER loop_body mem_of head s = do {
     tmp \<leftarrow> iter_next head (mem_of s);
     HASH_ITER_loop loop_body mem_of head tmp s }"

end
