(* ===== verification/Dll.thy ===== *)
theory Dll
  imports CHeap
begin

text \<open>
  Doubly linked lists over two pointer functions \<open>nx\<close> and \<open>pv\<close>: uthash keeps two of
  them in every handle, the application-order list and the bucket chain.  The
  lemmas say what the three link surgeries of the macros do to the list: front
  insertion, append at the tail and removal of an inner node.
\<close>

fun dll :: "(addr \<Rightarrow> ptr) \<Rightarrow> (addr \<Rightarrow> ptr) \<Rightarrow> ptr \<Rightarrow> addr list \<Rightarrow> bool" where
  "dll nx pv p [] = True"
| "dll nx pv p (x # xs) = (pv x = p \<and> nx x = hdp xs \<and> dll nx pv (Some x) xs)"

lemma dll_cong:
  assumes "\<And>a. a \<in> set xs \<Longrightarrow> nx a = nx' a" and "\<And>a. a \<in> set xs \<Longrightarrow> pv a = pv' a"
  shows "dll nx pv p xs = dll nx' pv' p xs"
  using assms by (induction xs arbitrary: p) auto

lemma dll_cons_front:
  assumes "dll nx pv None xs" and "a \<notin> set xs" and "distinct xs"
    and "nx' a = hdp xs" and "pv' a = None"
    and "\<And>b. b \<in> set xs \<Longrightarrow> nx' b = nx b"
    and "\<And>b. b \<in> set xs \<Longrightarrow> pv' b = (if Some b = hdp xs then Some a else pv b)"
  shows "dll nx' pv' None (a # xs)"
proof (cases xs)
  case Nil
  with assms show ?thesis by simp
next
  case (Cons y ys)
  have "dll nx pv (Some y) ys" using assms(1) Cons by simp
  moreover have "dll nx pv (Some y) ys = dll nx' pv' (Some y) ys"
    using Cons assms(3,6,7) by (intro dll_cong) auto
  ultimately have "dll nx' pv' (Some a) xs"
    using assms(1,6,7) Cons by simp
  then show ?thesis using assms(4,5) by simp
qed

lemma dll_append_node:
  assumes "dll nx pv p xs" and "a \<notin> set xs" and "distinct xs"
    and "nx' a = None" and "pv' a = lastp p xs"
    and "\<And>b. b \<in> set xs \<Longrightarrow> pv' b = pv b"
    and "\<And>b. b \<in> set xs \<Longrightarrow> nx' b = (if Some b = lastp p xs then Some a else nx b)"
  shows "dll nx' pv' p (xs @ [a])"
  using assms
proof (induction xs arbitrary: p)
  case Nil
  then show ?case by simp
next
  case (Cons y ys)
  have "dll nx' pv' (Some y) (ys @ [a])"
    using Cons.prems by (intro Cons.IH) auto
  moreover have "nx' y = hdp (ys @ [a])"
    using Cons.prems by (cases ys) (auto simp: lastp_def)
  ultimately show ?case using Cons.prems(1,6) by simp
qed

lemma dll_next_prev:
  assumes "dll nx pv p (as @ x # bs)"
  shows "pv x = lastp p as" and "nx x = hdp bs"
  using assms by (induction as arbitrary: p) auto

lemma dll_remove:
  assumes "dll nx pv p (as @ x # bs)" and "distinct (as @ x # bs)"
    and "\<And>b. b \<in> set as \<union> set bs \<Longrightarrow> nx' b = (if as \<noteq> [] \<and> b = last as then hdp bs else nx b)"
    and "\<And>b. b \<in> set as \<union> set bs \<Longrightarrow> pv' b = (if Some b = hdp bs then lastp p as else pv b)"
  shows "dll nx' pv' p (as @ bs)"
  using assms
proof (induction as arbitrary: p)
  case Nil
  show ?case
  proof (cases bs)
    case Nil
    then show ?thesis by simp
  next
    case (Cons y ys)
    have "dll nx pv (Some y) ys = dll nx' pv' (Some y) ys"
      using Cons Nil.prems by (intro dll_cong) auto
    then show ?thesis using Cons Nil.prems by simp
  qed
next
  case (Cons y ys)
  have "dll nx' pv' (Some y) (ys @ bs)"
    using Cons.prems by (intro Cons.IH) (auto split: if_splits)
  moreover have "nx' y = hdp (ys @ bs)"
    using Cons.prems by (cases ys) auto
  moreover have "pv' y = p"
    using Cons.prems hdp_SomeD [of bs y] by auto
  ultimately show ?case by simp
qed

lemma dll_prev_None_iff:
  assumes "dll nx pv None xs" and "a \<in> set xs" and "distinct xs"
  shows "pv a = None \<longleftrightarrow> Some a = hdp xs"
proof -
  from assms(2) obtain as bs where xs: "xs = as @ a # bs" by (auto dest: split_list)
  with assms(1) have "pv a = lastp None as" by (simp add: dll_next_prev)
  then show ?thesis using xs assms(3) by (cases as) auto
qed

lemma dll_next_None_iff:
  assumes "dll nx pv p xs" and "a \<in> set xs" and "distinct xs"
  shows "nx a = None \<longleftrightarrow> a = last xs"
proof -
  from assms(2) obtain as bs where xs: "xs = as @ a # bs" by (auto dest: split_list)
  with assms(1) have "nx a = hdp bs" by (simp add: dll_next_prev)
  then show ?thesis using xs assms(3) by (cases bs) auto
qed

lemma dll_next_in:
  assumes "dll nx pv p xs" and "a \<in> set xs" and "nx a = Some b"
  shows "b \<in> set xs"
proof -
  from assms(2) obtain as bs where xs: "xs = as @ a # bs" by (auto dest: split_list)
  with assms(1,3) have "hdp bs = Some b" by (simp add: dll_next_prev)
  then show ?thesis using xs by (auto dest: hdp_SomeD)
qed

end
