(* ===== verification/Uthash_Mem.thy ===== *)
theory Uthash_Mem
  imports Uthash Dll
begin

text \<open>
  Access to the hash's memory by address: \<open>live\<close> (allocated), \<open>hnd\<close> (the handle),
  \<open>cidf\<close> and \<open>bodyf\<close> (the rest of the struct), and the two kinds of write the
  macros perform, \<open>set_hh\<close> and \<open>set_tbl\<close>, with the rewrite rules that turn the
  monadic reads and writes into them.
\<close>

definition live :: "'b umem \<Rightarrow> addr \<Rightarrow> bool" where
  "live m a \<longleftrightarrow> cells (elts m) a \<noteq> None"

definition hnd :: "'b umem \<Rightarrow> addr \<Rightarrow> UT_hash_handle" where
  "hnd m a = (case cells (elts m) a of None \<Rightarrow> zero_handle | Some e \<Rightarrow> hh e)"

definition cidf :: "'b umem \<Rightarrow> addr \<Rightarrow> cachercise_cache_id_t" where
  "cidf m a = cid (the (cells (elts m) a))"

definition bodyf :: "'b umem \<Rightarrow> addr \<Rightarrow> 'b" where
  "bodyf m a = body (the (cells (elts m) a))"

definition set_hh :: "addr \<Rightarrow> UT_hash_handle \<Rightarrow> 'b umem \<Rightarrow> 'b umem" where
  "set_hh a h m = m\<lparr>elts := (elts m)\<lparr>cells := (cells (elts m))
      (a := map_option (\<lambda>e. e\<lparr>hh := h\<rparr>) (cells (elts m) a))\<rparr>\<rparr>"

definition set_tbl :: "addr \<Rightarrow> UT_hash_table \<Rightarrow> 'b umem \<Rightarrow> 'b umem" where
  "set_tbl tp t m = m\<lparr>tbls := (tbls m)\<lparr>cells := (cells (tbls m))(tp \<mapsto> t)\<rparr>\<rparr>"

abbreviation tblf :: "'b umem \<Rightarrow> addr \<Rightarrow> UT_hash_table option" where
  "tblf m \<equiv> cells (tbls m)"

lemma liveE:
  assumes "live m a"
  obtains e where "cells (elts m) a = Some e" "hnd m a = hh e" "cidf m a = cid e" "bodyf m a = body e"
  using assms by (auto simp: live_def hnd_def cidf_def bodyf_def)

lemma load_elt:
  "live m a \<Longrightarrow> h_load (Some a) (elts m) = Some \<lparr>body = bodyf m a, cid = cidf m a, hh = hnd m a\<rparr>"
  by (auto simp: live_def hnd_def cidf_def bodyf_def)

lemma elt_upd_live:
  "live m a \<Longrightarrow> elt_upd (Some a) f m = Some (set_hh a (f (hnd m a)) m)"
  by (auto simp: live_def hnd_def elt_upd_def set_hh_def)

lemma tbl_upd_Some:
  "tblf m tp = Some t \<Longrightarrow> tbl_upd (Some tp) f m = Some (set_tbl tp (f t) m)"
  by (simp add: tbl_upd_def set_tbl_def)

lemma tblp_live: "live m a \<Longrightarrow> tblp (Some a) m = Some (tbl (hnd m a))"
  by (simp add: tblp_def load_elt del: h_load_simps)

lemma the_tbl_live:
  "live m a \<Longrightarrow> tbl (hnd m a) = Some tp \<Longrightarrow> the_tbl (Some a) m = tblf m tp"
  by (simp add: the_tbl_def tblp_live)

lemma iter_next_live:
  "iter_next None m = Some NULL"
  "live m a \<Longrightarrow> iter_next (Some a) m = Some (app_next (hnd m a))"
  by (simp_all add: iter_next_def load_elt del: h_load_simps)

lemma set_hh_simps [simp]:
  "live (set_hh a h m) b = live m b"
  "live m a \<Longrightarrow> hnd (set_hh a h m) b = (if b = a then h else hnd m b)"
  "cidf (set_hh a h m) b = cidf m b"
  "bodyf (set_hh a h m) b = bodyf m b"
  "tbls (set_hh a h m) = tbls m"
  "brk (elts (set_hh a h m)) = brk (elts m)"
  "grants (elts (set_hh a h m)) = grants (elts m)"
  by (cases "cells (elts m) a"; auto simp: live_def hnd_def cidf_def bodyf_def set_hh_def)+

lemma set_tbl_simps [simp]:
  "live (set_tbl tp t m) b = live m b"
  "hnd (set_tbl tp t m) b = hnd m b"
  "cidf (set_tbl tp t m) b = cidf m b"
  "bodyf (set_tbl tp t m) b = bodyf m b"
  "elts (set_tbl tp t m) = elts m"
  "tblf (set_tbl tp t m) = (tblf m)(tp \<mapsto> t)"
  "brk (tbls (set_tbl tp t m)) = brk (tbls m)"
  "grants (tbls (set_tbl tp t m)) = grants (tbls m)"
  by (auto simp: live_def hnd_def cidf_def bodyf_def set_tbl_def)

lemma tbls_upd_simps [simp]:
  "live (m\<lparr>tbls := ts\<rparr>) b = live m b"
  "hnd (m\<lparr>tbls := ts\<rparr>) b = hnd m b"
  "cidf (m\<lparr>tbls := ts\<rparr>) b = cidf m b"
  "bodyf (m\<lparr>tbls := ts\<rparr>) b = bodyf m b"
  by (auto simp: live_def hnd_def cidf_def bodyf_def)

lemma load_elt_if:
  "h_load (Some a) (elts m) =
     (if live m a then Some \<lparr>body = bodyf m a, cid = cidf m a, hh = hnd m a\<rparr> else None)"
  by (auto simp: live_def hnd_def cidf_def bodyf_def)

lemma elt_upd_if:
  "elt_upd (Some a) f m = (if live m a then Some (set_hh a (f (hnd m a)) m) else None)"
  by (auto simp: live_def hnd_def elt_upd_def set_hh_def h_update_def)

lemma tbl_upd_case:
  "tbl_upd (Some tp) f m =
     (case tblf m tp of None \<Rightarrow> None | Some t \<Rightarrow> Some (set_tbl tp (f t) m))"
  by (auto simp: tbl_upd_def set_tbl_def h_update_def split: option.splits)

lemma tblp_if: "tblp (Some a) m = (if live m a then Some (tbl (hnd m a)) else None)"
  by (simp add: tblp_def load_elt_if del: h_load_simps)

lemma the_tbl_if:
  "the_tbl (Some a) m = (if live m a then h_load (tbl (hnd m a)) (tbls m) else None)"
  by (simp add: the_tbl_def tblp_if)

lemma set_hh_set_hh [simp]: "set_hh a h (set_hh a h' m) = set_hh a h m"
  by (cases "cells (elts m) a"; simp add: set_hh_def)

lemma set_hh_tbls [simp]: "set_hh a h (m\<lparr>tbls := ts\<rparr>) = (set_hh a h m)\<lparr>tbls := ts\<rparr>"
  by (simp add: set_hh_def)

lemma set_hh_set_tbl [simp]: "set_hh a h (set_tbl tp t m) = set_tbl tp t (set_hh a h m)"
  by (simp add: set_hh_def set_tbl_def)

lemma set_tbl_set_tbl [simp]: "set_tbl tp t (set_tbl tp t' m) = set_tbl tp t m"
  by (simp add: set_tbl_def)

lemma load_tbl: "h_load (Some tp) (tbls m) = tblf m tp"
  by simp

lemmas mem_simps = load_tbl load_elt_if elt_upd_if tbl_upd_case tblp_if the_tbl_if

section \<open>Frames\<close>

text \<open>Two memories hold the same structs but for their handles.\<close>

definition same_ids :: "'b umem \<Rightarrow> 'b umem \<Rightarrow> bool" where
  "same_ids m m' \<longleftrightarrow>
     (\<forall>a. live m' a = live m a \<and> cidf m' a = cidf m a \<and> bodyf m' a = bodyf m a) \<and>
     brk (elts m') = brk (elts m) \<and> grants (elts m') = grants (elts m)"

text \<open>The handle without its bucket links, which is what bucket expansion keeps.\<close>

definition unlinked :: "UT_hash_handle \<Rightarrow> UT_hash_handle" where
  "unlinked h = h\<lparr>hh_prev := NULL, hh_next := NULL\<rparr>"

lemma unlinked_upd [simp]:
  "unlinked (h\<lparr>hh_prev := p\<rparr>) = unlinked h"
  "unlinked (h\<lparr>hh_next := p\<rparr>) = unlinked h"
  by (simp_all add: unlinked_def)

lemma unlinked_eqD:
  assumes "unlinked h = unlinked h'"
  shows "tbl h = tbl h'" "app_prev h = app_prev h'" "app_next h = app_next h'"
    "key h = key h'" "keylen h = keylen h'" "hashv h = hashv h'"
  using assms by (cases h; cases h'; simp add: unlinked_def)+

lemma same_ids_refl [simp]: "same_ids m m"
  by (simp add: same_ids_def)

lemma same_ids_trans [trans]: "same_ids m1 m2 \<Longrightarrow> same_ids m2 m3 \<Longrightarrow> same_ids m1 m3"
  by (simp add: same_ids_def)

lemma same_ids_set [simp]:
  "same_ids m (set_hh a h m') = same_ids m m'"
  "same_ids m (set_tbl tp t m') = same_ids m m'"
  "same_ids m (m'\<lparr>tbls := ts\<rparr>) = same_ids m m'"
  by (simp_all add: same_ids_def)

lemma same_idsD:
  assumes "same_ids m m'"
  shows "live m' a = live m a" "cidf m' a = cidf m a" "bodyf m' a = bodyf m a"
  using assms by (simp_all add: same_ids_def)

lemma same_ids_cells:
  assumes "same_ids m m'"
  shows "cells (elts m') a = None \<longleftrightarrow> cells (elts m) a = None"
  using same_idsD(1) [OF assms, of a] unfolding live_def by blast

lemma same_ids_heap_wf:
  assumes "same_ids m m'"
  shows "heap_wf (elts m') = heap_wf (elts m)"
  unfolding heap_wf_def using assms same_ids_cells [OF assms] by (simp add: same_ids_def)

end
