(* ===== verification/Uthash_Inv.thy ===== *)
theory Uthash_Inv
  imports Uthash_Mem
begin

text \<open>
  The representation invariant of the hash and the correctness of \<open>HASH_FIND\<close> and
  \<open>HASH_ITER\<close> under it.  \<open>hash_ok head m xs\<close>: the structs at the addresses \<open>xs\<close>,
  in this order, are the hash whose head pointer is \<open>head\<close>.
\<close>

section \<open>Invariant\<close>

definition chain_ok :: "'b umem \<Rightarrow> UT_hash_bucket \<Rightarrow> addr list \<Rightarrow> bool" where
  "chain_ok m b c \<longleftrightarrow>
     hh_head b = hdp c \<and> distinct c \<and> count b = of_nat (length c) \<and>
     dll (\<lambda>a. hh_next (hnd m a)) (\<lambda>a. hh_prev (hnd m a)) None c"

definition bidx :: "u32 \<Rightarrow> 'b umem \<Rightarrow> addr \<Rightarrow> nat" where
  "bidx n m a = unat (HASH_TO_BKT (hashv (hnd m a)) n)"

definition chains_ok :: "'b umem \<Rightarrow> u32 \<Rightarrow> UT_hash_bucket list \<Rightarrow> addr set \<Rightarrow> addr list list \<Rightarrow> bool" where
  "chains_ok m n bs X cs \<longleftrightarrow>
     length cs = length bs \<and>
     (\<forall>i < length bs. chain_ok m (bs ! i) (cs ! i) \<and> set (cs ! i) = {a \<in> X. bidx n m a = i})"

definition table_geom :: "UT_hash_table \<Rightarrow> bool" where
  "table_geom t \<longleftrightarrow> unat (log2_num_buckets t) \<le> 31
     \<and> num_buckets t = 2 ^ unat (log2_num_buckets t)
     \<and> length (buckets t) = 2 ^ unat (log2_num_buckets t)"

definition handle_ok :: "'b umem \<Rightarrow> addr \<Rightarrow> addr \<Rightarrow> bool" where
  "handle_ok m tp a \<longleftrightarrow> live m a \<and> tbl (hnd m a) = Some tp \<and> key (hnd m a) = Some a
     \<and> keylen (hnd m a) = 16 \<and> hashv (hnd m a) = HASH_VALUE (uuid_bytes (cidf m a))"

definition app_ok :: "'b umem \<Rightarrow> addr list \<Rightarrow> bool" where
  "app_ok m xs \<longleftrightarrow> dll (\<lambda>a. app_next (hnd m a)) (\<lambda>a. app_prev (hnd m a)) None xs"

definition table_ok :: "'b umem \<Rightarrow> addr list \<Rightarrow> UT_hash_table \<Rightarrow> bool" where
  "table_ok m xs t \<longleftrightarrow> table_geom t \<and> tail t = lastp None xs \<and> num_items t = of_nat (length xs)
     \<and> (\<exists>cs. chains_ok m (num_buckets t) (buckets t) (set xs) cs)"

definition hash_ok :: "ptr \<Rightarrow> 'b umem \<Rightarrow> addr list \<Rightarrow> bool" where
  "hash_ok head m xs \<longleftrightarrow>
     head = hdp xs \<and> distinct xs \<and> inj_on (cidf m) (set xs) \<and> (\<forall>a \<in> set xs. live m a) \<and>
     length xs < 2 ^ 32 \<and> heap_wf (tbls m) \<and>
     (xs \<noteq> [] \<longrightarrow> (\<exists>tp t. tblf m tp = Some t \<and> (\<forall>a \<in> set xs. handle_ok m tp a)
        \<and> app_ok m xs \<and> table_ok m xs t))"

text \<open>The ordered contents: keys with the address of their struct.\<close>

definition entries :: "'b umem \<Rightarrow> addr list \<Rightarrow> (cachercise_cache_id_t \<times> addr) list" where
  "entries m xs = map (\<lambda>a. (cidf m a, a)) xs"

lemma hash_okD:
  assumes "hash_ok head m xs"
  shows "head = hdp xs" "distinct xs" "inj_on (cidf m) (set xs)" "length xs < 2 ^ 32"
    "heap_wf (tbls m)" "\<And>a. a \<in> set xs \<Longrightarrow> live m a"
  using assms by (simp_all add: hash_ok_def)

lemma hash_ok_tblE:
  assumes "hash_ok head m xs" and "xs \<noteq> []"
  obtains tp t cs where "tblf m tp = Some t" "\<And>a. a \<in> set xs \<Longrightarrow> handle_ok m tp a"
    "app_ok m xs" "table_geom t" "tail t = Some (last xs)" "num_items t = of_nat (length xs)"
    "chains_ok m (num_buckets t) (buckets t) (set xs) cs"
proof -
  from assms obtain tp t where t: "tblf m tp = Some t" "\<forall>a \<in> set xs. handle_ok m tp a"
    "app_ok m xs" "table_ok m xs t" unfolding hash_ok_def by blast
  from t(4) obtain cs where "chains_ok m (num_buckets t) (buckets t) (set xs) cs"
    unfolding table_ok_def by blast
  with t assms(2) show thesis
    by (intro that [of tp t cs]) (simp_all add: table_ok_def lastp_def)
qed

lemma hash_okI:
  assumes "head = hdp xs" "distinct xs" "inj_on (cidf m) (set xs)" "length xs < 2 ^ 32"
    "heap_wf (tbls m)" "tblf m tp = Some t" "\<And>a. a \<in> set xs \<Longrightarrow> handle_ok m tp a"
    "app_ok m xs" "table_ok m xs t"
  shows "hash_ok head m xs"
  using assms unfolding hash_ok_def by (auto simp: handle_ok_def)

lemma hash_ok_empty: "heap_wf (tbls m) \<Longrightarrow> hash_ok None m []"
  by (simp add: hash_ok_def)

section \<open>Frames\<close>

lemma chain_ok_cong:
  assumes "\<And>a. a \<in> set c \<Longrightarrow> hh_next (hnd m' a) = hh_next (hnd m a)"
    and "\<And>a. a \<in> set c \<Longrightarrow> hh_prev (hnd m' a) = hh_prev (hnd m a)"
  shows "chain_ok m' b c = chain_ok m b c"
proof -
  have "dll (\<lambda>a. hh_next (hnd m' a)) (\<lambda>a. hh_prev (hnd m' a)) None c
      = dll (\<lambda>a. hh_next (hnd m a)) (\<lambda>a. hh_prev (hnd m a)) None c"
    using assms by (intro dll_cong)
  then show ?thesis by (simp add: chain_ok_def)
qed

lemma app_ok_cong:
  assumes "\<And>a. a \<in> set xs \<Longrightarrow> app_next (hnd m' a) = app_next (hnd m a)"
    and "\<And>a. a \<in> set xs \<Longrightarrow> app_prev (hnd m' a) = app_prev (hnd m a)"
  shows "app_ok m' xs = app_ok m xs"
  unfolding app_ok_def using assms by (intro dll_cong)

lemma hash_ok_frame:
  assumes ok: "hash_ok head m xs" and tb: "tbls m' = tbls m"
    and fr: "\<And>a. a \<in> set xs \<Longrightarrow> live m' a \<and> hnd m' a = hnd m a \<and> cidf m' a = cidf m a"
  shows "hash_ok head m' xs"
proof (cases "xs = []")
  case True
  with ok tb show ?thesis by (simp add: hash_ok_def)
next
  case False
  from ok False obtain tp t cs where t: "tblf m tp = Some t" "\<And>a. a \<in> set xs \<Longrightarrow> handle_ok m tp a"
    "app_ok m xs" "table_geom t" "tail t = Some (last xs)" "num_items t = of_nat (length xs)"
    "chains_ok m (num_buckets t) (buckets t) (set xs) cs" by (rule hash_ok_tblE) blast
  have h: "handle_ok m' tp a" if "a \<in> set xs" for a
    using t(2) [OF that] fr [OF that] by (simp add: handle_ok_def)
  have app: "app_ok m' xs"
    using t(3) fr app_ok_cong [of xs m' m] by simp
  have sub: "set (cs ! i) \<subseteq> set xs" if "i < length (buckets t)" for i
    using t(7) that by (auto simp: chains_ok_def)
  have "chain_ok m' (buckets t ! i) (cs ! i)" if i: "i < length (buckets t)" for i
  proof -
    have "chain_ok m' (buckets t ! i) (cs ! i) = chain_ok m (buckets t ! i) (cs ! i)"
      using sub [OF i] fr by (intro chain_ok_cong) (auto simp: subset_iff)
    then show ?thesis using t(7) i by (simp add: chains_ok_def)
  qed
  moreover have "{a \<in> set xs. bidx n m' a = i} = {a \<in> set xs. bidx n m a = i}" for n i
    using fr by (auto simp: bidx_def)
  ultimately have "chains_ok m' (num_buckets t) (buckets t) (set xs) cs"
    using t(7) by (simp add: chains_ok_def)
  then have "table_ok m' xs t" using t(4-6) False by (auto simp: table_ok_def lastp_def)
  moreover have "inj_on (cidf m') (set xs)"
    using hash_okD(3) [OF ok] fr by (simp add: inj_on_def)
  ultimately show ?thesis
    using hash_okD [OF ok] fr h app t(1) tb by (intro hash_okI [of _ _ _ tp t]) auto
qed

section \<open>HASH_TO_BKT\<close>

lemma bidx_less:
  assumes "table_geom t"
  shows "unat (HASH_TO_BKT hv (num_buckets t)) < length (buckets t)"
  using assms by (simp add: table_geom_def HASH_TO_BKT_def and_mask_less)

lemma HASH_TO_BKT_mod: "unat (HASH_TO_BKT hv (2 ^ k)) = unat hv mod 2 ^ k"
  by (simp add: HASH_TO_BKT_def and_mask_mod)

section \<open>HASH_FIND\<close>

lemma HASH_KEYCMP_live:
  "live m a \<Longrightarrow> HASH_KEYCMP_eq (Some a) (uuid_bytes k) 16 m = Some (cidf m a = k)"
  by (auto simp: HASH_KEYCMP_eq_def load_elt simp del: h_load_simps)

lemma find_loop:
  assumes "dll (\<lambda>a. hh_next (hnd m a)) pv p c"
    and "\<And>a. a \<in> set c \<Longrightarrow> handle_ok m tp a"
  shows "HASH_FIND_IN_BKT_loop (hdp c) (uuid_bytes k) 16 (HASH_VALUE (uuid_bytes k)) m
           = Some (List.find (\<lambda>a. cidf m a = k) c)"
  using assms
proof (induction c arbitrary: p)
  case Nil
  then show ?case by (simp add: HASH_FIND_IN_BKT_loop.simps)
next
  case (Cons a c)
  then have a: "live m a" "key (hnd m a) = Some a" "keylen (hnd m a) = 16"
    "hashv (hnd m a) = HASH_VALUE (uuid_bytes (cidf m a))" "hh_next (hnd m a) = hdp c"
    by (auto simp: handle_ok_def)
  have IH: "HASH_FIND_IN_BKT_loop (hdp c) (uuid_bytes k) 16 (HASH_VALUE (uuid_bytes k)) m
           = Some (List.find (\<lambda>a. cidf m a = k) c)"
    using Cons.prems by (intro Cons.IH) auto
  show ?case
  proof (cases "cidf m a = k")
    case True
    then show ?thesis using a
      by (subst HASH_FIND_IN_BKT_loop.simps)
        (simp add: load_elt HASH_KEYCMP_live del: h_load_simps)
  next
    case False
    then show ?thesis using a IH
      by (subst HASH_FIND_IN_BKT_loop.simps)
        (auto simp: load_elt HASH_KEYCMP_live simp del: h_load_simps)
  qed
qed

lemma find_unique:
  assumes "distinct xs" and "inj_on (cidf m) (set xs)"
    and "a \<in> set xs" and "cidf m a = k" and "set c \<subseteq> set xs" and "a \<in> set c"
  shows "List.find (\<lambda>b. cidf m b = k) c = Some a"
proof -
  obtain b where b: "List.find (\<lambda>b. cidf m b = k) c = Some b"
    using assms(4,6) by (cases "List.find (\<lambda>b. cidf m b = k) c") (auto simp: find_None_iff)
  then have "b \<in> set c" "cidf m b = k" by (auto simp: find_Some_iff)
  with assms have "b = a" by (auto simp: inj_on_def)
  with b show ?thesis by simp
qed

lemma map_of_entries:
  "map_of (entries m xs) k = List.find (\<lambda>a. cidf m a = k) xs"
  by (induction xs) (auto simp: entries_def)

lemma map_of_entries_Some:
  assumes "inj_on (cidf m) (set xs)"
  shows "map_of (entries m xs) k = Some a \<longleftrightarrow> a \<in> set xs \<and> cidf m a = k"
proof
  assume "map_of (entries m xs) k = Some a"
  then show "a \<in> set xs \<and> cidf m a = k" by (auto simp: map_of_entries find_Some_iff)
next
  assume a: "a \<in> set xs \<and> cidf m a = k"
  then obtain b where b: "map_of (entries m xs) k = Some b"
    by (cases "map_of (entries m xs) k") (auto simp: map_of_entries find_None_iff)
  then have "b \<in> set xs" "cidf m b = k" by (auto simp: map_of_entries find_Some_iff)
  with a assms have "b = a" by (auto simp: inj_on_def)
  with b show "map_of (entries m xs) k = Some a" by simp
qed

lemma map_of_entries_None:
  "map_of (entries m xs) k = None \<longleftrightarrow> k \<notin> cidf m ` set xs"
  by (auto simp: map_of_entries find_None_iff)

lemma HASH_FIND_ok:
  assumes ok: "hash_ok head m xs"
  shows "HASH_FIND head (uuid_bytes k) 16 m = Some (map_of (entries m xs) k)"
proof (cases "xs = []")
  case True
  then show ?thesis using hash_okD(1) [OF ok] by (simp add: HASH_FIND_def entries_def)
next
  case False
  from ok False obtain tp t cs where t: "tblf m tp = Some t" "\<And>a. a \<in> set xs \<Longrightarrow> handle_ok m tp a"
    "app_ok m xs" "table_geom t" "tail t = Some (last xs)" "num_items t = of_nat (length xs)"
    "chains_ok m (num_buckets t) (buckets t) (set xs) cs" by (rule hash_ok_tblE) blast
  from False obtain x where x: "head = Some x" "x \<in> set xs"
    using hash_okD(1) [OF ok] by (cases xs) auto
  let ?hv = "HASH_VALUE (uuid_bytes k)"
  let ?i = "unat (HASH_TO_BKT ?hv (num_buckets t))"
  let ?c = "cs ! ?i"
  have i: "?i < length (buckets t)" by (rule bidx_less [OF t(4)])
  then have c: "hh_head (buckets t ! ?i) = hdp ?c"
    "dll (\<lambda>a. hh_next (hnd m a)) (\<lambda>a. hh_prev (hnd m a)) None ?c"
    "set ?c = {a \<in> set xs. bidx (num_buckets t) m a = ?i}"
    using t(7) by (auto simp: chains_ok_def chain_ok_def)
  have tb: "the_tbl head m = Some t"
    using t(1) t(2) [OF x(2)] x(1) by (simp add: the_tbl_live handle_ok_def)
  have "HASH_FIND head (uuid_bytes k) 16 m
      = HASH_FIND_IN_BKT_loop (hdp ?c) (uuid_bytes k) 16 ?hv m"
    using x(1) tb i c(1) by (simp add: HASH_FIND_def HASH_FIND_BYHASHVALUE_def HASH_FIND_IN_BKT_def)
  also have "\<dots> = Some (List.find (\<lambda>a. cidf m a = k) ?c)"
    using c(3) t(2) by (intro find_loop [OF c(2)]) auto
  also have "List.find (\<lambda>a. cidf m a = k) ?c = map_of (entries m xs) k"
  proof (cases "map_of (entries m xs) k")
    case None
    then have "k \<notin> cidf m ` set xs" by (rule map_of_entries_None [THEN iffD1])
    moreover have "set ?c \<subseteq> set xs" using c(3) by blast
    ultimately have "List.find (\<lambda>a. cidf m a = k) ?c = None"
      unfolding find_None_iff by blast
    with None show ?thesis by simp
  next
    case (Some a)
    then have a: "a \<in> set xs" "cidf m a = k"
      using hash_okD(3) [OF ok] by (auto simp: map_of_entries_Some)
    then have "a \<in> set ?c" using t(2) [OF a(1)] c(3) by (simp add: bidx_def handle_ok_def)
    with a c(3) show ?thesis
      using Some find_unique [OF hash_okD(2,3) [OF ok] a, of ?c] by auto
  qed
  finally show ?thesis .
qed

end
