(* ===== verification/Uthash_Expand.thy ===== *)
theory Uthash_Expand
  imports Uthash_Inv
begin

text \<open>
  Correctness of bucket expansion.  \<open>HASH_EXPAND_chain\<close> moves the nodes of an old
  chain to the front of their new buckets, and \<open>HASH_EXPAND_BUCKETS\<close> turns a
  table that is a partition of the items by \<open>hashv mod 2 ^ k\<close> into one by
  \<open>hashv mod 2 ^ (k + 1)\<close>, for any hash values and any counters.
\<close>

section \<open>Front insertion into a chain\<close>

definition link_front :: "addr \<Rightarrow> ptr \<Rightarrow> 'b umem \<Rightarrow> 'b umem" where
  "link_front a p m =
     (let m1 = set_hh a ((hnd m a)\<lparr>hh_prev := NULL, hh_next := p\<rparr>) m
      in case p of None \<Rightarrow> m1 | Some y \<Rightarrow> set_hh y ((hnd m1 y)\<lparr>hh_prev := Some a\<rparr>) m1)"

lemma link_front_frame:
  assumes "live m a" and "\<And>y. p = Some y \<Longrightarrow> live m y"
  shows "same_ids m (link_front a p m)"
    and "tbls (link_front a p m) = tbls m"
    and "unlinked (hnd (link_front a p m) x) = unlinked (hnd m x)"
    and "x \<noteq> a \<Longrightarrow> p \<noteq> Some x \<Longrightarrow> hnd (link_front a p m) x = hnd m x"
    and "x \<noteq> a \<Longrightarrow> hh_next (hnd (link_front a p m) x) = hh_next (hnd m x)"
  using assms by (auto simp: link_front_def Let_def split: option.splits)

lemma chain_ok_push:
  assumes c: "chain_ok m b c" and a: "a \<notin> set c" "live m a" and l: "\<And>y. y \<in> set c \<Longrightarrow> live m y"
    and b': "hh_head b' = Some a" "count b' = count b + 1"
  shows "chain_ok (link_front a (hh_head b) m) b' (a # c)"
proof -
  let ?m = "link_front a (hh_head b) m"
  have hd: "hh_head b = hdp c" and d: "distinct c"
    and dl: "dll (\<lambda>x. hh_next (hnd m x)) (\<lambda>x. hh_prev (hnd m x)) None c"
    and n: "count b = of_nat (length c)"
    using c by (auto simp: chain_ok_def)
  have lv: "live m y" if "hh_head b = Some y" for y
    using that hd l by (auto dest: hdp_SomeD)
  have "dll (\<lambda>x. hh_next (hnd ?m x)) (\<lambda>x. hh_prev (hnd ?m x)) None (a # c)"
  proof (rule dll_cons_front [OF dl a(1) d])
    show "hh_next (hnd ?m a) = hdp c" "hh_prev (hnd ?m a) = None"
      using a l hd hdp_SomeD [of c]
      by (auto simp: link_front_def Let_def split: option.splits)
  next
    fix x assume x: "x \<in> set c"
    then have xa: "x \<noteq> a" using a(1) by auto
    show "hh_next (hnd ?m x) = hh_next (hnd m x)"
      by (rule link_front_frame(5)) (use a(2) lv xa in auto)
    show "hh_prev (hnd ?m x) = (if Some x = hdp c then Some a else hh_prev (hnd m x))"
      using xa a(2) l hd hdp_SomeD [of c]
      by (auto simp: link_front_def Let_def split: option.splits)
  qed
  then show ?thesis using d a(1) b' n by (simp add: chain_ok_def)
qed

section \<open>Moving one chain\<close>

text \<open>A bucket array \<open>nb\<close> for \<open>n\<close> buckets, with its chains \<open>ncs\<close>.\<close>

definition new_ok :: "u32 \<Rightarrow> 'b umem \<Rightarrow> UT_hash_bucket list \<Rightarrow> addr list list \<Rightarrow> bool" where
  "new_ok n m nb ncs \<longleftrightarrow> length ncs = length nb \<and>
     (\<forall>j < length nb. chain_ok m (nb ! j) (ncs ! j) \<and>
        (\<forall>x \<in> set (ncs ! j). bidx n m x = j \<and> live m x))"

text \<open>What moving nodes of \<open>X\<close> into the new buckets leaves alone.\<close>

definition moved :: "addr set \<Rightarrow> 'b umem \<Rightarrow> 'b umem \<Rightarrow> bool" where
  "moved X m m' \<longleftrightarrow> same_ids m m' \<and> tbls m' = tbls m
     \<and> (\<forall>x. unlinked (hnd m' x) = unlinked (hnd m x))
     \<and> (\<forall>x. x \<notin> X \<longrightarrow> hnd m' x = hnd m x)"

lemma moved_refl [simp]: "moved X m m"
  by (simp add: moved_def)

lemma moved_trans: "moved X m1 m2 \<Longrightarrow> moved Y m2 m3 \<Longrightarrow> X \<union> Y \<subseteq> Z \<Longrightarrow> moved Z m1 m3"
  unfolding moved_def by (fastforce intro: same_ids_trans)

lemma moved_bidx: "moved X m m' \<Longrightarrow> bidx n m' x = bidx n m x"
  unfolding moved_def bidx_def by (metis unlinked_eqD(6))

lemma moved_live: "moved X m m' \<Longrightarrow> live m' x = live m x"
  by (simp add: moved_def same_idsD)

lemma new_ok_push:
  assumes ok: "new_ok n m nb ncs" and a: "live m a" "bidx n m a < length nb"
    "\<And>j. j < length nb \<Longrightarrow> a \<notin> set (ncs ! j)"
    and i: "i = bidx n m a"
    and b': "hh_head b' = Some a" "count b' = count (nb ! i) + 1"
  shows "new_ok n (link_front a (hh_head (nb ! i)) m) (nb[i := b']) (ncs[i := a # ncs ! i])"
    and "moved (insert a (set (ncs ! i))) m (link_front a (hh_head (nb ! i)) m)"
proof -
  let ?m = "link_front a (hh_head (nb ! i)) m"
  have len: "length ncs = length nb" and il: "i < length nb"
    and ch: "\<And>j. j < length nb \<Longrightarrow> chain_ok m (nb ! j) (ncs ! j)"
    and mem: "\<And>j x. j < length nb \<Longrightarrow> x \<in> set (ncs ! j) \<Longrightarrow> bidx n m x = j \<and> live m x"
    using ok a(2) i by (auto simp: new_ok_def)
  have hd: "hh_head (nb ! i) = hdp (ncs ! i)" using ch [OF il] by (simp add: chain_ok_def)
  have lv: "\<And>y. hh_head (nb ! i) = Some y \<Longrightarrow> live m y"
    using hd mem [OF il] by (auto dest: hdp_SomeD)
  note fr = link_front_frame [OF a(1) lv]
  show mv: "moved (insert a (set (ncs ! i))) m ?m"
    unfolding moved_def using fr(1-3) hd by (auto intro!: fr(4) dest: hdp_SomeD)
  have push: "chain_ok ?m b' (a # ncs ! i)"
    using ch [OF il] a mem [OF il] b' il by (intro chain_ok_push) auto
  have other: "chain_ok ?m (nb ! j) (ncs ! j)" if j: "j < length nb" "j \<noteq> i" for j
  proof -
    have "hnd ?m x = hnd m x" if x: "x \<in> set (ncs ! j)" for x
    proof (rule fr(4))
      show "x \<noteq> a" using a(3) [OF j(1)] x by blast
      show "hh_head (nb ! i) \<noteq> Some x"
        using hd mem [OF il] mem [OF j(1) x] j(2) by (metis hdp_SomeD)
    qed
    then have "chain_ok ?m (nb ! j) (ncs ! j) = chain_ok m (nb ! j) (ncs ! j)"
      by (intro chain_ok_cong) auto
    then show ?thesis using ch [OF j(1)] by simp
  qed
  show "new_ok n ?m (nb[i := b']) (ncs[i := a # ncs ! i])"
    unfolding new_ok_def
    using len il push other mem i a(1) moved_bidx [OF mv] moved_live [OF mv]
    by (auto simp: nth_list_update)
qed

lemma expand_chain:
  assumes "dll (\<lambda>x. hh_next (hnd m x)) pv p c" and "distinct c"
    and "\<And>x. x \<in> set c \<Longrightarrow> live m x \<and> bidx (num_buckets t * 2) m x < length nb"
    and "new_ok (num_buckets t * 2) m nb ncs"
    and "\<And>j. j < length nb \<Longrightarrow> set c \<inter> set (ncs ! j) = {}"
  shows "\<exists>v nb' m' ncs'. HASH_EXPAND_chain (hdp c) t nb m = Some (t\<lparr>nonideal_items := v\<rparr>, nb', m')
     \<and> length nb' = length nb \<and> new_ok (num_buckets t * 2) m' nb' ncs'
     \<and> (\<forall>j < length nb. set (ncs' ! j) = set (ncs ! j) \<union> {x \<in> set c. bidx (num_buckets t * 2) m x = j})
     \<and> moved (set c \<union> \<Union> (set ` set ncs)) m m'"
  using assms
proof (induction c arbitrary: p t nb m ncs)
  case Nil
  have "HASH_EXPAND_chain (hdp []) t nb m = Some (t\<lparr>nonideal_items := nonideal_items t\<rparr>, nb, m)"
    by (simp add: HASH_EXPAND_chain.simps)
  with Nil.prems(4) show ?case by fastforce
next
  case (Cons a c)
  define n where "n = num_buckets t"
  define i where "i = bidx (n * 2) m a"
  define b where "b = (nb ! i)\<lparr>count := count (nb ! i) + 1\<rparr>"
  define big where "big \<longleftrightarrow> ideal_chain_maxlen t < count b"
  define t1 where "t1 = (if big then t\<lparr>nonideal_items := nonideal_items t + 1\<rparr> else t)"
  define b1 where "b1 = (if big \<and> expand_mult b * ideal_chain_maxlen t < count b
                         then b\<lparr>expand_mult := expand_mult b + 1\<rparr> else b)"
  let ?b' = "b1\<lparr>hh_head := Some a\<rparr>"
  let ?m1 = "link_front a (hh_head (nb ! i)) m"
  have a: "live m a" "i < length nb" and nxt: "hh_next (hnd m a) = hdp c"
    using Cons.prems(1,3) by (auto simp: i_def n_def)
  have len: "length ncs = length nb" using Cons.prems(4) by (simp add: new_ok_def)
  have b1: "hh_head b1 = hh_head (nb ! i)" "count b1 = count (nb ! i) + 1"
    by (simp_all add: b1_def b_def)
  have lv: "live m y" if "hh_head (nb ! i) = Some y" for y
    using that Cons.prems(4) a(2) by (auto simp: new_ok_def chain_ok_def dest: hdp_SomeD)
  note step = new_ok_push [OF Cons.prems(4) [folded n_def] a(1), of i ?b', folded i_def]
  have mv1: "moved (insert a (set (ncs ! i))) m ?m1"
    and ok1: "new_ok (n * 2) ?m1 (nb[i := ?b']) (ncs[i := a # ncs ! i])"
    using step a(2) Cons.prems(5) b1 by (auto simp: i_def)
  have fr: "hnd ?m1 x = hnd m x" if "x \<in> set c" for x
  proof -
    have "x \<noteq> a" "x \<notin> set (ncs ! i)" using that Cons.prems(2) Cons.prems(5) [OF a(2)] by auto
    then show ?thesis using mv1 by (simp add: moved_def)
  qed
  have t1: "num_buckets t1 = n" "\<exists>v. t1 = t\<lparr>nonideal_items := v\<rparr>"
    by (auto simp: t1_def n_def intro: exI [of _ "nonideal_items t"])
  have unf: "HASH_EXPAND_chain (hdp (a # c)) t nb m
      = HASH_EXPAND_chain (hdp c) t1 (nb[i := ?b']) ?m1"
    using a nxt lv
    by (subst HASH_EXPAND_chain.simps)
      (auto simp: load_elt elt_upd_live link_front_def Let_def b1_def t1_def big_def b_def
        i_def n_def bidx_def simp del: h_load_simps split: option.splits)
  have disj: "set c \<inter> set ((ncs[i := a # ncs ! i]) ! j) = {}" if "j < length nb" for j
    using Cons.prems(2,5) that len a(2) by (auto simp: nth_list_update)
  have dl: "dll (\<lambda>x. hh_next (hnd ?m1 x)) pv (Some a) c"
    using Cons.prems(1) dll_cong [of c "\<lambda>x. hh_next (hnd ?m1 x)" "\<lambda>x. hh_next (hnd m x)" pv pv "Some a"] fr
    by simp
  have "\<exists>v nb' m' ncs'. HASH_EXPAND_chain (hdp c) t1 (nb[i := ?b']) ?m1
        = Some (t1\<lparr>nonideal_items := v\<rparr>, nb', m')
     \<and> length nb' = length (nb[i := ?b']) \<and> new_ok (num_buckets t1 * 2) m' nb' ncs'
     \<and> (\<forall>j < length (nb[i := ?b']). set (ncs' ! j)
          = set ((ncs[i := a # ncs ! i]) ! j) \<union> {x \<in> set c. bidx (num_buckets t1 * 2) ?m1 x = j})
     \<and> moved (set c \<union> \<Union> (set ` set (ncs[i := a # ncs ! i]))) ?m1 m'"
    using Cons.prems(2,3) ok1 disj moved_live [OF mv1] moved_bidx [OF mv1]
    by (intro Cons.IH [OF dl]) (auto simp: t1(1) n_def)
  then obtain v nb' m' ncs' where r: "HASH_EXPAND_chain (hdp c) t1 (nb[i := ?b']) ?m1
        = Some (t1\<lparr>nonideal_items := v\<rparr>, nb', m')"
    "length nb' = length nb" "new_ok (n * 2) m' nb' ncs'"
    "\<forall>j < length nb. set (ncs' ! j)
        = set ((ncs[i := a # ncs ! i]) ! j) \<union> {x \<in> set c. bidx (n * 2) ?m1 x = j}"
    "moved (set c \<union> \<Union> (set ` set (ncs[i := a # ncs ! i]))) ?m1 m'"
    by (auto simp: t1(1))
  have sub: "\<Union> (set ` set (ncs[i := a # ncs ! i])) \<subseteq> insert a (\<Union> (set ` set ncs))"
    using set_update_subset_insert [of ncs i "a # ncs ! i"] nth_mem [of i ncs] a(2) len by fastforce
  have "moved (set (a # c) \<union> \<Union> (set ` set ncs)) m m'"
    using sub nth_mem [of i ncs] a(2) len by (intro moved_trans [OF mv1 r(5)]) fastforce
  moreover have "set (ncs' ! j) = set (ncs ! j) \<union> {x \<in> set (a # c). bidx (n * 2) m x = j}"
    if "j < length nb" for j
    using r(4) that a(2) len moved_bidx [OF mv1] by (auto simp: nth_list_update i_def)
  moreover have "HASH_EXPAND_chain (hdp (a # c)) t nb m = Some (t\<lparr>nonideal_items := v\<rparr>, nb', m')"
    using unf r(1) t1(2) by auto
  ultimately show ?case using r(2,3) unfolding n_def by blast
qed

section \<open>The loop over the old buckets\<close>

text \<open>
  \<open>ocs\<close> are the chains of the old buckets \<open>obs\<close> still to be moved, disjoint from
  each other and from the chains already built.
\<close>

fun disjoint_lists :: "'a list list \<Rightarrow> bool" where
  "disjoint_lists [] = True"
| "disjoint_lists (c # cs) = (set c \<inter> \<Union> (set ` set cs) = {} \<and> disjoint_lists cs)"

lemma expand_loop:
  assumes "list_all2 (chain_ok m) obs ocs" and "disjoint_lists ocs"
    and "\<forall>x \<in> \<Union> (set ` set ocs). live m x \<and> bidx (num_buckets t * 2) m x < length nb"
    and "new_ok (num_buckets t * 2) m nb ncs"
    and "\<forall>j < length nb. \<Union> (set ` set ocs) \<inter> set (ncs ! j) = {}"
  shows "\<exists>v nb' m' ncs'. HASH_EXPAND_loop obs t nb m = Some (t\<lparr>nonideal_items := v\<rparr>, nb', m')
     \<and> length nb' = length nb \<and> new_ok (num_buckets t * 2) m' nb' ncs'
     \<and> (\<forall>j < length nb. set (ncs' ! j) = set (ncs ! j)
          \<union> {x \<in> \<Union> (set ` set ocs). bidx (num_buckets t * 2) m x = j})
     \<and> moved UNIV m m'"
  using assms
proof (induction obs arbitrary: ocs t nb m ncs)
  case Nil
  have "HASH_EXPAND_loop [] t nb m = Some (t\<lparr>nonideal_items := nonideal_items t\<rparr>, nb, m)" by simp
  with Nil.prems(1,4) show ?case by fastforce
next
  case (Cons b obs)
  from Cons.prems(1) obtain c ocs' where ocs: "ocs = c # ocs'" "chain_ok m b c"
    "list_all2 (chain_ok m) obs ocs'" by (auto simp: list_all2_Cons1)
  define n where "n = num_buckets t"
  from ocs(2) have c: "hh_head b = hdp c" "distinct c"
    "dll (\<lambda>x. hh_next (hnd m x)) (\<lambda>x. hh_prev (hnd m x)) None c" by (auto simp: chain_ok_def)
  have len: "length ncs = length nb" using Cons.prems(4) by (simp add: new_ok_def)
  have h1: "live m x \<and> bidx (num_buckets t * 2) m x < length nb" if "x \<in> set c" for x
    using that Cons.prems(3) ocs(1) by auto
  have h2: "set c \<inter> set (ncs ! j) = {}" if "j < length nb" for j
    using that Cons.prems(5) ocs(1) by auto
  obtain v nb1 m1 ncs1 where r: "HASH_EXPAND_chain (hdp c) t nb m
        = Some (t\<lparr>nonideal_items := v\<rparr>, nb1, m1)"
    "length nb1 = length nb" "new_ok (n * 2) m1 nb1 ncs1"
    "\<And>j. j < length nb \<Longrightarrow> set (ncs1 ! j) = set (ncs ! j) \<union> {x \<in> set c. bidx (n * 2) m x = j}"
    "moved (set c \<union> \<Union> (set ` set ncs)) m m1"
    using expand_chain [OF c(3,2) h1 Cons.prems(4) h2] unfolding n_def by auto
  let ?t1 = "t\<lparr>nonideal_items := v\<rparr>"
  have sep: "hnd m1 x = hnd m x" if d: "d \<in> set ocs'" and x: "x \<in> set d" for d x
  proof -
    have "x \<notin> set c" using d x Cons.prems(2) ocs(1) by auto
    moreover have "x \<notin> \<Union> (set ` set ncs)"
      using d x Cons.prems(5) ocs(1) len by (fastforce simp: in_set_conv_nth [of _ ncs])
    ultimately show ?thesis using r(5) by (simp add: moved_def)
  qed
  have all2: "list_all2 (chain_ok m1) obs ocs'"
  proof (rule list.rel_mono_strong [OF ocs(3)])
    fix b' d assume "d \<in> set ocs'" and ok: "chain_ok m b' d"
    then have "chain_ok m1 b' d = chain_ok m b' d"
      using sep by (intro chain_ok_cong) auto
    with ok show "chain_ok m1 b' d" by simp
  qed
  have disj: "\<Union> (set ` set ocs') \<inter> set (ncs1 ! j) = {}" if "j < length nb" for j
  proof -
    have "\<Union> (set ` set ocs') \<inter> set (ncs ! j) = {}" using Cons.prems(5) ocs(1) that by auto
    moreover have "\<Union> (set ` set ocs') \<inter> set c = {}" using Cons.prems(2) ocs(1) by auto
    ultimately show ?thesis using r(4) [OF that] by auto
  qed
  have d1: "disjoint_lists ocs'" using Cons.prems(2) ocs(1) by simp
  have h3: "\<forall>x \<in> \<Union> (set ` set ocs'). live m1 x \<and> bidx (num_buckets ?t1 * 2) m1 x < length nb1"
    using Cons.prems(3) ocs(1) r(2) moved_live [OF r(5)] moved_bidx [OF r(5)] by auto
  have ok1: "new_ok (num_buckets ?t1 * 2) m1 nb1 ncs1" using r(3) n_def by simp
  have disj1: "\<forall>j < length nb1. \<Union> (set ` set ocs') \<inter> set (ncs1 ! j) = {}"
    using disj r(2) by simp
  obtain v' nb' m' ncs' where s: "HASH_EXPAND_loop obs ?t1 nb1 m1
        = Some (?t1\<lparr>nonideal_items := v'\<rparr>, nb', m')"
    "length nb' = length nb1" "new_ok (n * 2) m' nb' ncs'"
    "\<And>j. j < length nb1 \<Longrightarrow> set (ncs' ! j) = set (ncs1 ! j)
        \<union> {x \<in> \<Union> (set ` set ocs'). bidx (n * 2) m1 x = j}"
    "moved UNIV m1 m'"
    using Cons.IH [OF all2 d1 h3 ok1 disj1] unfolding n_def by auto
  have "moved UNIV m m'" by (rule moved_trans [OF r(5) s(5)]) simp
  moreover have "set (ncs' ! j) = set (ncs ! j) \<union> {x \<in> \<Union> (set ` set ocs). bidx (n * 2) m x = j}"
    if "j < length nb" for j
    using that r(2,4) s(4) moved_bidx [OF r(5)] ocs(1) by auto
  moreover have "HASH_EXPAND_loop (b # obs) t nb m = Some (t\<lparr>nonideal_items := v'\<rparr>, nb', m')"
    using r(1) s(1) c(1) by simp
  ultimately show ?case using s(2,3) r(2) unfolding n_def by auto
qed

section \<open>HASH_EXPAND_BUCKETS\<close>

lemma disjoint_chains:
  assumes "\<And>i. i < length cs \<Longrightarrow> set (cs ! i) \<subseteq> {a. f a = (i :: nat)}"
  shows "disjoint_lists cs"
proof -
  have "disjoint_lists (drop k cs)" if "k \<le> length cs" for k
    using that
  proof (induction rule: inc_induct)
    case base
    show ?case by simp
  next
    case (step k)
    have "set (cs ! k) \<inter> set d = {}" if d: "d \<in> set (drop (Suc k) cs)" for d
    proof -
      from d obtain j where j: "k < j" "j < length cs" "d = cs ! j"
        by (auto simp: in_set_conv_nth) (metis add_Suc less_add_Suc1 less_diff_conv add.commute)
      then show ?thesis using assms [of k] assms [of j] by fastforce
    qed
    then show ?case using step by (auto simp: Cons_nth_drop_Suc [symmetric])
  qed
  from this [of 0] show ?thesis by simp
qed

lemma double_log2:
  assumes "unat (l :: u32) < 31"
  shows "unat (l + 1) = unat l + 1" "(2 :: u32) ^ unat l * 2 = 2 ^ unat (l + 1)"
    "unat ((2 :: u32) ^ unat l) = 2 ^ unat l"
proof -
  show l: "unat (l + 1) = unat l + 1"
    using assms by (intro unat_Suc_less) simp
  show "(2 :: u32) ^ unat l * 2 = 2 ^ unat (l + 1)"
    by (simp add: l)
  show "unat ((2 :: u32) ^ unat l) = 2 ^ unat l"
    using assms by (simp add: unat_two_power)
qed

text \<open>
  The fields an expansion sets besides the statistics, whatever the statistics
  (\<open>ideal_chain_maxlen\<close>, \<open>nonideal_items\<close>, \<open>ineff_expands\<close>, \<open>noexpand\<close>) come to.
\<close>

lemma expand_finish_fields:
  "num_buckets (HASH_EXPAND_finish t nb) = num_buckets t * 2"
  "log2_num_buckets (HASH_EXPAND_finish t nb) = log2_num_buckets t + 1"
  "buckets (HASH_EXPAND_finish t nb) = nb"
  "tail (HASH_EXPAND_finish t nb) = tail t"
  "num_items (HASH_EXPAND_finish t nb) = num_items t"
  by (simp_all add: HASH_EXPAND_finish_def Let_def)

lemma expand_buckets_ok:
  assumes t: "tblf m tp = Some t" "table_geom t" and l: "unat (log2_num_buckets t) < 31"
    and cs: "chains_ok m (num_buckets t) (buckets t) X cs"
    and X: "\<And>a. a \<in> X \<Longrightarrow> live m a"
    and g: "grants (tbls m) (brk (tbls m))"
  shows "\<exists>m' t' cs'. HASH_EXPAND_BUCKETS (Some tp) m = Some m'
     \<and> tblf m' = (tblf m)(tp \<mapsto> t') \<and> table_geom t' \<and> tail t' = tail t \<and> num_items t' = num_items t
     \<and> log2_num_buckets t' = log2_num_buckets t + 1
     \<and> chains_ok m' (num_buckets t') (buckets t') X cs'
     \<and> same_ids m m' \<and> (\<forall>x. unlinked (hnd m' x) = unlinked (hnd m x))
     \<and> grants (tbls m') = grants (tbls m) \<and> brk (tbls m') = Suc (brk (tbls m))"
proof -
  let ?ts = "(tbls m)\<lparr>brk := Suc (brk (tbls m))\<rparr>"
  let ?m = "m\<lparr>tbls := ?ts\<rparr>"
  define n where "n = num_buckets t"
  define k where "k = unat (log2_num_buckets t)"
  let ?t = "t\<lparr>ideal_chain_maxlen := ideal_maxlen t, nonideal_items := 0\<rparr>"
  let ?nb = "replicate (2 * unat n) zero_bucket"
  let ?ncs = "replicate (2 * unat n) ([] :: addr list)"
  have k: "unat n = 2 ^ k" "length (buckets t) = 2 ^ k" "n * 2 = 2 ^ Suc k" "unat (n * 2) = 2 ^ Suc k"
  proof -
    have g: "n = 2 ^ k" "length (buckets t) = 2 ^ k" and kl: "k < 31"
      using t(2) l by (simp_all add: table_geom_def n_def k_def)
    show "unat n = 2 ^ k" "length (buckets t) = 2 ^ k" using g kl by (simp_all add: unat_two_power)
    have "n * 2 = 2 ^ Suc k" using g by simp
    moreover have "unat ((2 :: u32) ^ Suc k) = 2 ^ Suc k" using kl by (intro unat_two_power) simp
    ultimately show "n * 2 = 2 ^ Suc k" "unat (n * 2) = 2 ^ Suc k" by simp_all
  qed
  have ch: "length cs = 2 ^ k" "\<And>i. i < 2 ^ k \<Longrightarrow> chain_ok m (buckets t ! i) (cs ! i)"
    "\<And>i. i < 2 ^ k \<Longrightarrow> set (cs ! i) = {a \<in> X. bidx n m a = i}"
    using cs k(2) by (simp_all add: chains_ok_def n_def)
  have U: "\<Union> (set ` set cs) = X"
  proof
    show "\<Union> (set ` set cs) \<subseteq> X" using ch(1,3) by (fastforce simp: in_set_conv_nth)
    show "X \<subseteq> \<Union> (set ` set cs)"
    proof
      fix a assume a: "a \<in> X"
      let ?i = "bidx n m a"
      have "?i < 2 ^ k"
        using bidx_less [OF t(2)] k(2) by (simp add: bidx_def n_def)
      then have "a \<in> set (cs ! ?i)" "cs ! ?i \<in> set cs" using a ch by auto
      then show "a \<in> \<Union> (set ` set cs)" by blast
    qed
  qed
  have chm: "chain_ok ?m b c = chain_ok m b c" and bm: "bidx j ?m x = bidx j m x" for b c j x
    by (simp_all add: chain_ok_def bidx_def)
  have p1: "list_all2 (chain_ok ?m) (buckets t) cs"
    using ch k(2) by (simp add: list_all2_conv_all_nth chm)
  have p2: "disjoint_lists cs" using ch by (intro disjoint_chains [of cs "bidx n m"]) auto
  have p3: "\<forall>x \<in> \<Union> (set ` set cs). live ?m x \<and> bidx (num_buckets ?t * 2) ?m x < length ?nb"
  proof
    fix x assume x: "x \<in> \<Union> (set ` set cs)"
    have "bidx (n * 2) m x = unat (hashv (hnd m x)) mod 2 ^ Suc k"
      unfolding bidx_def k(3) by (rule HASH_TO_BKT_mod)
    then show "live ?m x \<and> bidx (num_buckets ?t * 2) ?m x < length ?nb"
      using x U X k(1) by (auto simp: bm n_def)
  qed
  have p4: "new_ok (num_buckets ?t * 2) ?m ?nb ?ncs"
    by (simp add: new_ok_def chain_ok_def zero_bucket_def)
  have p5: "\<forall>j < length ?nb. \<Union> (set ` set cs) \<inter> set (?ncs ! j) = {}" by simp
  obtain v nb' m' ncs' where r: "HASH_EXPAND_loop (buckets t) ?t ?nb ?m
        = Some (?t\<lparr>nonideal_items := v\<rparr>, nb', m')"
    "length nb' = 2 * unat n" "new_ok (n * 2) m' nb' ncs'"
    "\<And>j. j < 2 * unat n \<Longrightarrow> set (ncs' ! j) = {x \<in> X. bidx (n * 2) m x = j}"
    "moved UNIV ?m m'"
    using expand_loop [OF p1 p2 p3 p4 p5] unfolding U bm by (auto simp: n_def)
  define t' where "t' = HASH_EXPAND_finish (?t\<lparr>nonideal_items := v\<rparr>) nb'"
  let ?m' = "set_tbl tp t' m'"
  have tb': "tbls m' = ?ts" using r(5) by (simp add: moved_def)
  have run: "HASH_EXPAND_BUCKETS (Some tp) m = Some ?m'"
    using t(1) g r(1) k(1,2) tb'
    by (simp add: HASH_EXPAND_BUCKETS_def h_request_def n_def tbl_upd_Some t'_def Let_def)
  have t': "num_buckets t' = n * 2" "log2_num_buckets t' = log2_num_buckets t + 1"
    "buckets t' = nb'" "tail t' = tail t" "num_items t' = num_items t"
    by (simp_all add: t'_def expand_finish_fields n_def)
  have geom: "table_geom t'"
    using t' k r(2) double_log2(1) [OF l] l by (simp add: table_geom_def k_def [symmetric])
  have "chains_ok ?m' (n * 2) nb' X ncs'"
    using r(2-4) moved_bidx [OF r(5)] by (auto simp: chains_ok_def new_ok_def bm chain_ok_def bidx_def)
  moreover have "same_ids m ?m'" "\<forall>x. unlinked (hnd ?m' x) = unlinked (hnd m x)"
    using r(5) by (simp_all add: moved_def same_ids_def)
  ultimately show ?thesis using run geom t' tb' by (intro exI [of _ ?m'] exI [of _ t'] exI [of _ ncs']) simp
qed

end
