(* ===== verification/Uthash_Add.thy ===== *)
theory Uthash_Add
  imports Uthash_Expand
begin

text \<open>
  Correctness of \<open>HASH_ADD\<close>: it appends a struct with a new key at the end of the
  application order, builds the table for the first one, and expands the
  buckets when a chain gets too long.
\<close>

section \<open>Adding to a bucket\<close>

lemma unat_inc_le: "unat (n + 1 :: 'a :: len word) \<le> Suc (unat n)"
  by (simp add: unat_word_ariths mod_Suc_le_divisor)

lemma chain_ok_upd_simps [simp]:
  "chain_ok (set_tbl tp t m) b c = chain_ok m b c"
  "bidx n (set_tbl tp t m) a = bidx n m a"
  "new_ok n (set_tbl tp t m) nb ncs = new_ok n m nb ncs"
  "moved X m (set_tbl tp t m') = (moved X m (set_tbl tp t m'))"
  by (simp_all add: chain_ok_def bidx_def new_ok_def)

lemma hh_links_commute:
  "(h :: UT_hash_handle)\<lparr>hh_next := p, hh_prev := q\<rparr> = h\<lparr>hh_prev := q, hh_next := p\<rparr>"
  by simp

lemma new_ok_chains_ok:
  assumes "chains_ok m n bs X cs" and "\<And>a. a \<in> X \<Longrightarrow> live m a"
  shows "new_ok n m bs cs"
  using assms by (auto simp: chains_ok_def new_ok_def)

text \<open>What adding to or deleting from a bucket does to the memory around it.\<close>

definition bkt_frame :: "addr \<Rightarrow> 'b umem \<Rightarrow> 'b umem \<Rightarrow> UT_hash_table \<Rightarrow> bool" where
  "bkt_frame tp m m' t' \<longleftrightarrow> tblf m' = (tblf m)(tp \<mapsto> t') \<and> same_ids m m'
     \<and> (\<forall>x. unlinked (hnd m' x) = unlinked (hnd m x))
     \<and> grants (tbls m') = grants (tbls m) \<and> brk (tbls m) \<le> brk (tbls m')"

lemma bkt_frameD:
  assumes "bkt_frame tp m m' t'"
  shows "live m' x = live m x" "cidf m' x = cidf m x"
    "tbl (hnd m' x) = tbl (hnd m x)" "key (hnd m' x) = key (hnd m x)"
    "keylen (hnd m' x) = keylen (hnd m x)" "hashv (hnd m' x) = hashv (hnd m x)"
    "app_next (hnd m' x) = app_next (hnd m x)" "app_prev (hnd m' x) = app_prev (hnd m x)"
proof -
  have u: "unlinked (hnd m' x) = unlinked (hnd m x)" and i: "same_ids m m'"
    using assms by (simp_all add: bkt_frame_def)
  from unlinked_eqD [OF u] same_idsD [OF i] show "live m' x = live m x" "cidf m' x = cidf m x"
    "tbl (hnd m' x) = tbl (hnd m x)" "key (hnd m' x) = key (hnd m x)"
    "keylen (hnd m' x) = keylen (hnd m x)" "hashv (hnd m' x) = hashv (hnd m x)"
    "app_next (hnd m' x) = app_next (hnd m x)" "app_prev (hnd m' x) = app_prev (hnd m x)"
    by simp_all
qed

lemma add_to_bkt_ok:
  assumes t: "tblf m tp = Some t" "table_geom t" and l: "unat (log2_num_buckets t) < 31"
    and cs: "chains_ok m (num_buckets t) (buckets t) X cs"
    and X: "\<And>x. x \<in> X \<Longrightarrow> live m x" and a: "a \<notin> X" "live m a" "tbl (hnd m a) = Some tp"
    and i: "i = bidx (num_buckets t) m a" and g: "grants (tbls m) (brk (tbls m))"
  shows "\<exists>m' t' cs'. HASH_ADD_TO_BKT (Some tp) i (Some a) m = Some m' \<and> bkt_frame tp m m' t'
     \<and> table_geom t' \<and> tail t' = tail t \<and> num_items t' = num_items t
     \<and> unat (log2_num_buckets t') \<le> Suc (unat (log2_num_buckets t))
     \<and> chains_ok m' (num_buckets t') (buckets t') (insert a X) cs'"
proof -
  let ?b = "buckets t ! i"
  let ?b' = "?b\<lparr>count := count ?b + 1, hh_head := Some a\<rparr>"
  let ?t1 = "t\<lparr>buckets := (buckets t)[i := ?b']\<rparr>"
  let ?m1 = "set_tbl tp ?t1 (link_front a (hh_head ?b) m)"
  have il: "i < length (buckets t)" using bidx_less [OF t(2)] by (simp add: i bidx_def)
  have nok: "new_ok (num_buckets t) m (buckets t) cs" by (rule new_ok_chains_ok [OF cs X])
  have an: "a \<notin> set (cs ! j)" if "j < length (buckets t)" for j
    using cs that a(1) by (auto simp: chains_ok_def)
  have push: "new_ok (num_buckets t) (link_front a (hh_head ?b) m) ((buckets t)[i := ?b']) (cs[i := a # cs ! i])"
    and mv: "moved (insert a (set (cs ! i))) m (link_front a (hh_head ?b) m)"
    using new_ok_push [OF nok a(2) _ an i, of ?b'] il i by auto
  have lv: "live m y" if "hh_head ?b = Some y" for y
    using that cs X il by (auto simp: chains_ok_def chain_ok_def dest!: hdp_SomeD)
  note fr = link_front_frame [OF a(2) lv]
  have f1: "bkt_frame tp m ?m1 ?t1" using fr(1-3) by (simp add: bkt_frame_def)
  have g1: "table_geom ?t1" using t(2) by (simp add: table_geom_def)
  have len: "length cs = length (buckets t)" using cs by (simp add: chains_ok_def)
  have c1: "chains_ok ?m1 (num_buckets ?t1) (buckets ?t1) (insert a X) (cs[i := a # cs ! i])"
    unfolding chains_ok_def
  proof (intro conjI allI impI)
    fix j assume j: "j < length (buckets ?t1)"
    then show "chain_ok ?m1 (buckets ?t1 ! j) (cs[i := a # cs ! i] ! j)"
      using push by (simp add: new_ok_def)
    show "set (cs[i := a # cs ! i] ! j) = {x \<in> insert a X. bidx (num_buckets ?t1) ?m1 x = j}"
      using j cs il moved_bidx [OF mv] len by (auto simp: chains_ok_def nth_list_update i)
  qed (simp add: len)
  let ?big = "(expand_mult ?b' + 1) * HASH_BKT_CAPACITY_THRESH \<le> count ?b' \<and> noexpand ?t1 = 0"
  have tba: "tbl (hnd ?m1 a) = Some tp" "live ?m1 a" "tblf ?m1 tp = Some ?t1"
    using bkt_frameD [OF f1, of a] a by simp_all
  have run: "HASH_ADD_TO_BKT (Some tp) i (Some a) m =
      (if ?big then HASH_EXPAND_BUCKETS (Some tp) ?m1 else Some ?m1)"
  proof (cases "hh_head ?b")
    case None
    then show ?thesis using t(1) il a tba
      by (simp add: HASH_ADD_TO_BKT_def mem_simps link_front_def Let_def hh_links_commute
           del: h_load_simps(2))
  next
    case (Some y)
    then show ?thesis using t(1) il a lv tba
      by (simp add: HASH_ADD_TO_BKT_def mem_simps link_front_def Let_def hh_links_commute
           del: h_load_simps(2))
  qed
  show ?thesis
  proof (cases ?big)
    case False
    have "HASH_ADD_TO_BKT (Some tp) i (Some a) m = Some ?m1"
      unfolding run by (rule if_not_P [OF False])
    moreover have "tail ?t1 = tail t" "num_items ?t1 = num_items t"
      "unat (log2_num_buckets ?t1) \<le> Suc (unat (log2_num_buckets t))" by simp_all
    ultimately show ?thesis using f1 g1 c1 by blast
  next
    case True
    have X1: "live ?m1 x" if "x \<in> insert a X" for x
      using that X a(2) bkt_frameD(1) [OF f1, of x] by auto
    have gr: "grants (tbls ?m1) (brk (tbls ?m1))" using g fr(2) by simp
    obtain m' t' cs' where r: "HASH_EXPAND_BUCKETS (Some tp) ?m1 = Some m'"
      "tblf m' = (tblf ?m1)(tp \<mapsto> t')" "table_geom t'" "tail t' = tail t" "num_items t' = num_items t"
      "chains_ok m' (num_buckets t') (buckets t') (insert a X) cs'"
      "same_ids ?m1 m'" "\<forall>x. unlinked (hnd m' x) = unlinked (hnd ?m1 x)"
      "grants (tbls m') = grants (tbls ?m1)" "brk (tbls m') = Suc (brk (tbls ?m1))"
      "log2_num_buckets t' = log2_num_buckets t + 1"
      using expand_buckets_ok [OF tba(3) g1 _ c1 X1 gr] l by auto
    have "same_ids m m'" using f1 r(7) unfolding bkt_frame_def by (blast intro: same_ids_trans)
    then have "bkt_frame tp m m' t'"
      using f1 r(2,8-10) fr(2) unfolding bkt_frame_def by simp
    moreover have "HASH_ADD_TO_BKT (Some tp) i (Some a) m = Some m'"
      unfolding run r(1) [symmetric] by (rule if_P [OF True])
    moreover have "unat (log2_num_buckets t') \<le> Suc (unat (log2_num_buckets t))"
      unfolding r(11) by (rule unat_inc_le)
    ultimately show ?thesis using r(3-6) by blast
  qed
qed

section \<open>Adding to the table\<close>

lemma table_upd_simps [simp]:
  "table_geom (t\<lparr>num_items := n\<rparr>) = table_geom t"
  "table_geom (t\<lparr>tail := p\<rparr>) = table_geom t"
  by (simp_all add: table_geom_def)

lemma add_to_table_ok:
  assumes t: "tblf m tp = Some t" "table_geom t" and l: "unat (log2_num_buckets t) < 31"
    and cs: "chains_ok m (num_buckets t) (buckets t) X cs"
    and X: "\<And>x. x \<in> X \<Longrightarrow> live m x" and a: "a \<notin> X" "live m a" "tbl (hnd m a) = Some tp"
    and h: "live m h" "tbl (hnd m h) = Some tp"
    and g: "grants (tbls m) (brk (tbls m))"
  shows "\<exists>m' t' cs'. HASH_ADD_TO_TABLE (Some h) (hashv (hnd m a)) (Some a) m = Some m'
     \<and> bkt_frame tp m m' t' \<and> table_geom t' \<and> tail t' = tail t \<and> num_items t' = num_items t + 1
     \<and> unat (log2_num_buckets t') \<le> Suc (unat (log2_num_buckets t))
     \<and> chains_ok m' (num_buckets t') (buckets t') (insert a X) cs'"
proof -
  let ?t = "t\<lparr>num_items := num_items t + 1\<rparr>"
  let ?m = "set_tbl tp ?t m"
  let ?i = "bidx (num_buckets t) m a"
  have run: "HASH_ADD_TO_TABLE (Some h) (hashv (hnd m a)) (Some a) m
      = HASH_ADD_TO_BKT (Some tp) ?i (Some a) ?m"
    using t(1) h by (simp add: HASH_ADD_TO_TABLE_def mem_simps bidx_def del: h_load_simps(2))
  have "chains_ok ?m (num_buckets ?t) (buckets ?t) X cs"
    using cs by (simp add: chains_ok_def)
  then obtain m' t' cs' where r: "HASH_ADD_TO_BKT (Some tp) ?i (Some a) ?m = Some m'"
    "bkt_frame tp ?m m' t'" "table_geom t'" "tail t' = tail t" "num_items t' = num_items t + 1"
    "chains_ok m' (num_buckets t') (buckets t') (insert a X) cs'"
    "unat (log2_num_buckets t') \<le> Suc (unat (log2_num_buckets t))"
    using add_to_bkt_ok [of ?m tp ?t X cs a ?i] t l X a g by auto
  from r(2) have "bkt_frame tp m m' t'"
    by (simp add: bkt_frame_def same_ids_def)
  with run r show ?thesis by auto
qed

section \<open>HASH_ADD\<close>

text \<open>Requests to the allocator that an operation may still make all succeed.\<close>

definition no_oom :: "'a heap \<Rightarrow> bool" where
  "no_oom h \<longleftrightarrow> (\<forall>n \<ge> brk h. grants h n)"

text \<open>
  The base-2 logarithm of the number of buckets, that of the initial number when
  there is no table.
\<close>

definition log2_of :: "ptr \<Rightarrow> 'b umem \<Rightarrow> nat" where
  "log2_of head m = (case the_tbl head m of None \<Rightarrow> 5 | Some t \<Rightarrow> unat (log2_num_buckets t))"

lemma log2_of_NULL [simp]: "log2_of NULL m = 5"
  by (simp add: log2_of_def the_tbl_def tblp_def)

lemma no_oom_mono:
  "no_oom h \<Longrightarrow> grants h' = grants h \<Longrightarrow> brk h \<le> brk h' \<Longrightarrow> no_oom h'"
  by (simp add: no_oom_def)

text \<open>From the state after an insertion into the table to the invariant.\<close>

lemma hash_ok_after_bkt:
  assumes fr: "bkt_frame tp m m' t'" and ne: "xs \<noteq> []" and d: "distinct xs"
    and k: "inj_on (cidf m) (set xs)" and len: "length xs < 2 ^ 32"
    and wf: "heap_wf (tbls m')" and h: "\<And>x. x \<in> set xs \<Longrightarrow> handle_ok m tp x" and app: "app_ok m xs"
    and t': "table_geom t'" "tail t' = Some (last xs)" "num_items t' = of_nat (length xs)"
    and cs: "chains_ok m' (num_buckets t') (buckets t') (set xs) cs"
  shows "hash_ok (hdp xs) m' xs"
proof (rule hash_okI)
  note f = bkt_frameD [OF fr]
  show "inj_on (cidf m') (set xs)" using k f(2) by (simp add: inj_on_def)
  show "tblf m' tp = Some t'" using fr by (simp add: bkt_frame_def)
  show "handle_ok m' tp x" if "x \<in> set xs" for x
    using h [OF that] f by (simp add: handle_ok_def)
  show "app_ok m' xs" using app app_ok_cong [of xs m' m] f(7,8) by simp
  show "table_ok m' xs t'" using t' cs ne by (auto simp: table_ok_def lastp_def)
qed (use d len wf in auto)

lemma bkt_frame_wf:
  assumes "bkt_frame tp m m' t'" "heap_wf (tbls m)" "tblf m tp = Some t"
  shows "heap_wf (tbls m')"
proof -
  have "tp < brk (tbls m)" by (rule heap_wf_less [OF assms(2,3)])
  with assms(1,2) show ?thesis by (auto simp: heap_wf_def bkt_frame_def)
qed

lemma chains_ok_cong:
  assumes "\<And>a. a \<in> X \<Longrightarrow> hh_next (hnd m' a) = hh_next (hnd m a)"
    and "\<And>a. a \<in> X \<Longrightarrow> hh_prev (hnd m' a) = hh_prev (hnd m a)"
    and "\<And>a. a \<in> X \<Longrightarrow> hashv (hnd m' a) = hashv (hnd m a)"
    and ok: "chains_ok m n bs X cs"
  shows "chains_ok m' n bs X cs"
  unfolding chains_ok_def
proof (intro conjI allI impI)
  show "length cs = length bs" using ok by (simp add: chains_ok_def)
  fix i assume i: "i < length bs"
  have c: "chain_ok m (bs ! i) (cs ! i)" and s: "set (cs ! i) = {a \<in> X. bidx n m a = i}"
    using ok i by (auto simp: chains_ok_def)
  have "chain_ok m' (bs ! i) (cs ! i) = chain_ok m (bs ! i) (cs ! i)"
    using assms(1,2) s by (intro chain_ok_cong) auto
  with c show "chain_ok m' (bs ! i) (cs ! i)" by simp
  show "set (cs ! i) = {a \<in> X. bidx n m' a = i}"
    using s assms(3) by (auto simp: bidx_def)
qed

lemma empty_chains_ok: "chains_ok m n (replicate k zero_bucket) {} (replicate k [])"
  by (auto simp: chains_ok_def chain_ok_def zero_bucket_def)

text \<open>
  The last step of an insertion: the new node is linked between \<open>as\<close> and \<open>bs\<close>, its
  bucket is not.  \<open>HASH_ADD\<close> inserts at the end, the sorted insertion anywhere.
\<close>

lemma add_linked_at:
  assumes ok: "tblf m tp = Some t" "table_geom t" "unat (log2_num_buckets t) < 31"
    "chains_ok m (num_buckets t) (buckets t) (set as \<union> set bs) cs"
    and h: "\<And>x. x \<in> set (as @ a # bs) \<Longrightarrow> handle_ok m tp x" and app: "app_ok m (as @ a # bs)"
    and d: "distinct (as @ a # bs)" and k: "inj_on (cidf m) (set (as @ a # bs))"
    and len: "length as + length bs + 1 < 2 ^ 32" and wf: "heap_wf (tbls m)"
    and tl: "tail t = Some (last (as @ a # bs))" and ni: "num_items t = of_nat (length as + length bs)"
    and g: "no_oom (tbls m)" and p: "p = hdp (as @ a # bs)"
  shows "\<exists>m'. HASH_ADD_TO_TABLE p (hashv (hnd m a)) (Some a) m = Some m'
     \<and> hash_ok p m' (as @ a # bs) \<and> same_ids m m' \<and> no_oom (tbls m')
     \<and> log2_of p m' \<le> Suc (unat (log2_num_buckets t))"
proof -
  let ?X = "set as \<union> set bs"
  obtain y where y: "p = Some y" "y \<in> set (as @ a # bs)"
    using p by (cases as) auto
  have X: "live m x" if "x \<in> ?X" for x using that h by (auto simp: handle_ok_def)
  have la: "live m a" "tbl (hnd m a) = Some tp" "live m y" "tbl (hnd m y) = Some tp"
    using h y(2) by (auto simp: handle_ok_def)
  have an: "a \<notin> ?X" using d by simp
  have g': "grants (tbls m) (brk (tbls m))" using g by (simp add: no_oom_def)
  obtain m' t' cs' where r: "HASH_ADD_TO_TABLE (Some y) (hashv (hnd m a)) (Some a) m = Some m'"
    "bkt_frame tp m m' t'" "table_geom t'" "tail t' = tail t" "num_items t' = num_items t + 1"
    "chains_ok m' (num_buckets t') (buckets t') (insert a ?X) cs'"
    "unat (log2_num_buckets t') \<le> Suc (unat (log2_num_buckets t))"
    using add_to_table_ok [OF ok(1-4) X an la g'] by auto
  have "hash_ok (hdp (as @ a # bs)) m' (as @ a # bs)"
  proof (rule hash_ok_after_bkt [OF r(2) _ d k _ bkt_frame_wf [OF r(2) wf ok(1)] h app r(3)])
    show "chains_ok m' (num_buckets t') (buckets t') (set (as @ a # bs)) cs'" using r(6) by simp
  qed (use len r(4,5) tl ni in \<open>auto simp: add.commute\<close>)
  moreover have "same_ids m m'" "no_oom (tbls m')"
    using r(2) g by (auto simp: bkt_frame_def intro: no_oom_mono)
  moreover have "log2_of (Some y) m' \<le> Suc (unat (log2_num_buckets t))"
    using r(2,7) la(3,4) bkt_frameD [OF r(2), of y]
    by (simp add: log2_of_def the_tbl_live bkt_frame_def)
  ultimately show ?thesis using r(1) y(1) p by auto
qed

lemma add_linked_ok:
  assumes ok: "tblf m tp = Some t" "table_geom t" "unat (log2_num_buckets t) < 31"
    "chains_ok m (num_buckets t) (buckets t) (set xs) cs"
    and h: "\<And>x. x \<in> set (xs @ [a]) \<Longrightarrow> handle_ok m tp x" and app: "app_ok m (xs @ [a])"
    and d: "distinct (xs @ [a])" and k: "inj_on (cidf m) (set (xs @ [a]))"
    and len: "length xs + 1 < 2 ^ 32" and wf: "heap_wf (tbls m)"
    and tl: "tail t = Some a" and ni: "num_items t = of_nat (length xs)"
    and g: "no_oom (tbls m)" and p: "p = hdp (xs @ [a])"
  shows "\<exists>m'. HASH_ADD_TO_TABLE p (hashv (hnd m a)) (Some a) m = Some m'
     \<and> hash_ok p m' (xs @ [a]) \<and> same_ids m m' \<and> no_oom (tbls m')
     \<and> log2_of p m' \<le> Suc (unat (log2_num_buckets t))"
  by (rule add_linked_at [where bs = "[]"]) (use assms in simp_all)

lemma HASH_ADD_first:
  assumes ok: "hash_ok None m []" and a: "live m a" and g: "no_oom (tbls m)"
  shows "\<exists>m'. HASH_ADD None 16 (Some a) m = Some (Some a, m')
     \<and> hash_ok (Some a) m' [a] \<and> same_ids m m' \<and> no_oom (tbls m') \<and> log2_of (Some a) m' \<le> 6"
proof -
  let ?hv = "HASH_VALUE (uuid_bytes (cidf m a))"
  let ?tp = "brk (tbls m)"
  let ?t = "zero_table\<lparr>tail := Some a, num_buckets := 32, log2_num_buckets := 5,
              signature := HASH_SIGNATURE, buckets := replicate 32 zero_bucket\<rparr>"
  let ?h = "(hnd m a)\<lparr>hashv := ?hv, key := Some a, keylen := 16, app_next := NULL,
              app_prev := NULL, tbl := Some ?tp\<rparr>"
  obtain m1 where m1: "HASH_ADD None 16 (Some a) m =
      (do { m' \<leftarrow> HASH_ADD_TO_TABLE (Some a) ?hv (Some a) m1; Some (Some a, m') })"
    "tblf m1 = (tblf m)(?tp \<mapsto> ?t)" "brk (tbls m1) = Suc (Suc ?tp)" "grants (tbls m1) = grants (tbls m)"
    "same_ids m m1" "hnd m1 a = ?h"
  proof
    let ?m0 = "set_hh a ?h m"
    let ?m1 = "set_tbl ?tp ?t (?m0\<lparr>tbls := (tbls m)\<lparr>cells := (tblf m)(?tp \<mapsto> zero_table
                    \<lparr>tail := Some a, num_buckets := 32, log2_num_buckets := 5, signature := HASH_SIGNATURE\<rparr>),
                  brk := Suc (Suc ?tp)\<rparr>\<rparr>)"
    show "HASH_ADD None 16 (Some a) m =
      (do { m' \<leftarrow> HASH_ADD_TO_TABLE (Some a) ?hv (Some a) ?m1; Some (Some a, m') })"
      using a g
      by (simp add: HASH_ADD_def HASH_ADD_KEYPTR_BYHASHVALUE_def HASH_MAKE_TABLE_def mem_simps
          h_alloc_def h_request_def no_oom_def Let_def HASH_INITIAL_NUM_BUCKETS_def
          HASH_INITIAL_NUM_BUCKETS_LOG2_def del: h_load_simps(2))
    show "tblf ?m1 = (tblf m)(?tp \<mapsto> ?t)" "brk (tbls ?m1) = Suc (Suc ?tp)"
      "grants (tbls ?m1) = grants (tbls m)" "same_ids m ?m1" "hnd ?m1 a = ?h"
      using a by simp_all
  qed
  have "tbl (hnd m1 a) = Some ?tp" "hashv (hnd m1 a) = ?hv" "live m1 a" "cidf m1 a = cidf m a"
    using m1(5,6) a same_idsD [OF m1(5), of a] by simp_all
  moreover have "table_geom ?t"
    by (simp add: table_geom_def)
  moreover have "no_oom (tbls m1)" using g m1(3,4) by (rule_tac no_oom_mono) auto
  moreover have "heap_wf (tbls m1)"
    using hash_okD(5) [OF ok] m1(2,3) by (auto simp: heap_wf_def)
  ultimately have "\<exists>m'. HASH_ADD_TO_TABLE (Some a) (hashv (hnd m1 a)) (Some a) m1 = Some m'
     \<and> hash_ok (Some a) m' ([] @ [a]) \<and> same_ids m1 m' \<and> no_oom (tbls m')
     \<and> log2_of (Some a) m' \<le> Suc (unat (log2_num_buckets ?t))"
    using m1(2,6) empty_chains_ok [of m1 32 32]
    by (intro add_linked_ok [of m1 ?tp ?t]) (auto simp: handle_ok_def app_ok_def zero_table_def)
  then show ?thesis using m1(1,5,6) by (auto intro: same_ids_trans)
qed

text \<open>\<open>HASH_APPEND_LIST\<close> with the new node's own fields already set: what it leaves.\<close>

lemma append_linked:
  assumes app: "app_ok m xs" and ne: "xs \<noteq> []" and d: "distinct xs" and a: "a \<notin> set xs"
    and na: "app_next (hnd m' a) = NULL" "app_prev (hnd m' a) = Some (last xs)"
    and la: "app_next (hnd m' (last xs)) = Some a" "app_prev (hnd m' (last xs)) = app_prev (hnd m (last xs))"
    and fr: "\<And>x. x \<in> set xs \<Longrightarrow> x \<noteq> last xs \<Longrightarrow>
        app_next (hnd m' x) = app_next (hnd m x) \<and> app_prev (hnd m' x) = app_prev (hnd m x)"
  shows "app_ok m' (xs @ [a])"
  unfolding app_ok_def
proof (rule dll_append_node [OF app [unfolded app_ok_def] a d])
  show "app_next (hnd m' a) = None" "app_prev (hnd m' a) = lastp None xs"
    using na ne by (simp_all add: lastp_def)
next
  fix x assume x: "x \<in> set xs"
  show "app_prev (hnd m' x) = app_prev (hnd m x)"
    using la(2) fr [OF x] by (cases "x = last xs") auto
  show "app_next (hnd m' x) = (if Some x = lastp None xs then Some a else app_next (hnd m x))"
    using la(1) fr [OF x] ne by (cases "x = last xs") (auto simp: lastp_def)
qed

lemma HASH_ADD_more:
  assumes ok: "hash_ok head m xs" and ne: "xs \<noteq> []" and a: "live m a" "a \<notin> set xs"
    and k: "cidf m a \<notin> cidf m ` set xs" and len: "length xs + 1 < 2 ^ 32"
    and l: "log2_of head m < 31" and g: "no_oom (tbls m)"
  shows "\<exists>m'. HASH_ADD head 16 (Some a) m = Some (head, m')
     \<and> hash_ok head m' (xs @ [a]) \<and> same_ids m m' \<and> no_oom (tbls m')
     \<and> log2_of head m' \<le> Suc (log2_of head m)"
proof -
  from ok ne obtain tp t cs where t: "tblf m tp = Some t" "\<And>a. a \<in> set xs \<Longrightarrow> handle_ok m tp a"
    "app_ok m xs" "table_geom t" "tail t = Some (last xs)" "num_items t = of_nat (length xs)"
    "chains_ok m (num_buckets t) (buckets t) (set xs) cs" by (rule hash_ok_tblE) blast
  from ne obtain h where h: "head = Some h" "h \<in> set xs" "head = hdp xs"
    using hash_okD(1) [OF ok] by (cases xs) auto
  define z where "z = last xs"
  have z: "z \<in> set xs" "z \<noteq> a" "h \<noteq> a" using ne a(2) h(2) by (auto simp: z_def)
  have lv: "live m x" "tbl (hnd m x) = Some tp" if "x \<in> set xs" for x
    using t(2) [OF that] by (simp_all add: handle_ok_def)
  let ?hv = "HASH_VALUE (uuid_bytes (cidf m a))"
  let ?ha = "(hnd m a)\<lparr>hashv := ?hv, key := Some a, keylen := 16, tbl := Some tp,
              app_next := NULL, app_prev := Some z\<rparr>"
  define m1 where "m1 = set_tbl tp (t\<lparr>tail := Some a\<rparr>)
              (set_hh z ((hnd m z)\<lparr>app_next := Some a\<rparr>) (set_hh a ?ha m))"
  have run: "HASH_ADD head 16 (Some a) m =
      (do { m' \<leftarrow> HASH_ADD_TO_TABLE head ?hv (Some a) m1; Some (head, m') })"
    using a(1) z lv h(1,2) t(1,5)
    by (simp add: HASH_ADD_def HASH_ADD_KEYPTR_BYHASHVALUE_def HASH_APPEND_LIST_def mem_simps
        m1_def z_def [symmetric] del: h_load_simps(2))
  have hn: "hnd m1 x = (if x = z then (hnd m z)\<lparr>app_next := Some a\<rparr> else if x = a then ?ha else hnd m x)" for x
    using a(1) lv(1) [OF z(1)] by (simp add: m1_def)
  have m1: "tblf m1 = (tblf m)(tp \<mapsto> t\<lparr>tail := Some a\<rparr>)" "brk (tbls m1) = brk (tbls m)"
    "grants (tbls m1) = grants (tbls m)" "same_ids m m1" "live m1 x = live m x" "cidf m1 x = cidf m x" for x
    by (simp_all add: m1_def)
  have lg: "unat (log2_num_buckets t) = log2_of head m"
    using h(1,2) lv t(1) by (simp add: log2_of_def mem_simps del: h_load_simps(2))
  have "\<exists>m'. HASH_ADD_TO_TABLE head (hashv (hnd m1 a)) (Some a) m1 = Some m'
     \<and> hash_ok head m' (xs @ [a]) \<and> same_ids m1 m' \<and> no_oom (tbls m')
     \<and> log2_of head m' \<le> Suc (unat (log2_num_buckets (t\<lparr>tail := Some a\<rparr>)))"
  proof (rule add_linked_ok)
    show "tblf m1 tp = Some (t\<lparr>tail := Some a\<rparr>)" by (simp add: m1)
    show "unat (log2_num_buckets (t\<lparr>tail := Some a\<rparr>)) < 31" using l lg by simp
    show "chains_ok m1 (num_buckets (t\<lparr>tail := Some a\<rparr>)) (buckets (t\<lparr>tail := Some a\<rparr>)) (set xs) cs"
      using a(2) by (simp, intro chains_ok_cong [OF _ _ _ t(7)]) (auto simp: hn)
    show "handle_ok m1 tp x" if "x \<in> set (xs @ [a])" for x
      using that a t(2) z by (auto simp: handle_ok_def hn m1)
    show "app_ok m1 (xs @ [a])"
      using z a(2) by (intro append_linked [OF t(3) ne hash_okD(2) [OF ok]])
        (auto simp: hn z_def [symmetric])
    show "distinct (xs @ [a])" using hash_okD(2) [OF ok] a(2) by simp
    have "cidf m1 = cidf m" by (rule ext) (rule m1)
    then show "inj_on (cidf m1) (set (xs @ [a]))"
      using hash_okD(3) [OF ok] a(2) k by simp
    show "heap_wf (tbls m1)"
      using hash_okD(5) [OF ok] t(1) by (auto simp: heap_wf_def m1)
    show "no_oom (tbls m1)" using g by (simp add: no_oom_def m1)
    show "head = hdp (xs @ [a])" using h(3) ne by (simp add: hdp_append)
  qed (use t len in simp_all)
  moreover have "hashv (hnd m1 a) = ?hv" using z by (simp add: hn)
  ultimately obtain m' where "HASH_ADD_TO_TABLE head ?hv (Some a) m1 = Some m'"
    "hash_ok head m' (xs @ [a])" "same_ids m1 m'" "no_oom (tbls m')"
    "log2_of head m' \<le> Suc (log2_of head m)" unfolding lg [symmetric] by auto
  moreover from this(3) have "same_ids m m'" using m1(4) by (blast intro: same_ids_trans)
  ultimately show ?thesis using run by auto
qed

text \<open>
  The head after an insertion is the first struct; \<open>HASH_ADD\<close> never leaves the
  defined behaviour unless \<open>malloc\<close> refuses, the table has reached \<open>2 ^ 31\<close>
  buckets or the 32-bit item counter its end.
\<close>

lemma HASH_ADD_ok:
  assumes ok: "hash_ok head m xs" and a: "live m a" "a \<notin> set xs"
    and k: "cidf m a \<notin> cidf m ` set xs" and len: "length xs + 1 < 2 ^ 32"
    and l: "log2_of head m < 31" and g: "no_oom (tbls m)"
  shows "\<exists>m'. HASH_ADD head 16 (Some a) m = Some (hdp (xs @ [a]), m')
     \<and> hash_ok (hdp (xs @ [a])) m' (xs @ [a]) \<and> same_ids m m' \<and> no_oom (tbls m')
     \<and> log2_of (hdp (xs @ [a])) m' \<le> Suc (log2_of head m)"
proof (cases "xs = []")
  case True
  with ok have "head = None" by (simp add: hash_ok_def)
  with True show ?thesis using HASH_ADD_first [of m a] ok a(1) g
    by (auto simp: log2_of_def the_tbl_def tblp_def)
next
  case False
  with HASH_ADD_more [OF ok False a k len l g] hash_okD(1) [OF ok] show ?thesis
    by (simp add: hdp_append)
qed

end
