(* ===== verification/Uthash_Del.thy ===== *)
theory Uthash_Del
  imports Uthash_Add
begin

text \<open>
  Correctness of \<open>HASH_DEL\<close>: the struct leaves both of its lists, the last one takes
  the table with it, and every other struct stays where it was.
\<close>

section \<open>Deleting from a bucket\<close>

lemma unlink_chain_ok:
  assumes c: "chain_ok m b (as @ a # bs)"
    and b': "hh_head b' = hdp (as @ bs)" "count b' = count b - 1"
    and nx: "\<And>x. x \<in> set as \<union> set bs \<Longrightarrow>
      hh_next (hnd m' x) = (if as \<noteq> [] \<and> x = last as then hdp bs else hh_next (hnd m x))"
    and pv: "\<And>x. x \<in> set as \<union> set bs \<Longrightarrow>
      hh_prev (hnd m' x) = (if Some x = hdp bs then lastp None as else hh_prev (hnd m x))"
  shows "chain_ok m' b' (as @ bs)"
proof -
  have dl: "dll (\<lambda>a. hh_next (hnd m a)) (\<lambda>a. hh_prev (hnd m a)) None (as @ a # bs)"
    and d: "distinct (as @ a # bs)" and n: "count b = of_nat (length (as @ a # bs))"
    using c by (auto simp: chain_ok_def)
  have "dll (\<lambda>a. hh_next (hnd m' a)) (\<lambda>a. hh_prev (hnd m' a)) None (as @ bs)"
    by (rule dll_remove [OF dl d]) (use nx pv in auto)
  then show ?thesis using d b' n by (simp add: chain_ok_def)
qed

lemma del_in_bkt_ok:
  assumes t: "tblf m tp = Some t" "table_geom t"
    and cs: "chains_ok m (num_buckets t) (buckets t) X cs"
    and X: "\<And>x. x \<in> X \<Longrightarrow> live m x" and a: "a \<in> X"
    and i: "i = bidx (num_buckets t) m a"
  shows "\<exists>m' t' cs'. HASH_DEL_IN_BKT (Some tp) i (Some a) m = Some m' \<and> bkt_frame tp m m' t'
     \<and> brk (tbls m') = brk (tbls m) \<and> table_geom t' \<and> tail t' = tail t \<and> num_items t' = num_items t
     \<and> chains_ok m' (num_buckets t') (buckets t') (X - {a}) cs'
     \<and> log2_num_buckets t' = log2_num_buckets t"
proof -
  have il: "i < length (buckets t)" using bidx_less [OF t(2)] by (simp add: i bidx_def)
  define b where "b = buckets t ! i"
  have len: "length cs = length (buckets t)" and c: "chain_ok m b (cs ! i)"
    and s: "set (cs ! i) = {x \<in> X. bidx (num_buckets t) m x = i}"
    using cs il by (auto simp: chains_ok_def b_def)
  from s a i obtain as bs where asbs: "cs ! i = as @ a # bs"
    by (metis (mono_tags, lifting) mem_Collect_eq split_list)
  have dl: "dll (\<lambda>a. hh_next (hnd m a)) (\<lambda>a. hh_prev (hnd m a)) None (as @ a # bs)"
    and d: "distinct (as @ a # bs)" and hd: "hh_head b = hdp (as @ a # bs)"
    using c asbs by (auto simp: chain_ok_def)
  note lk = dll_next_prev [OF dl]
  have sub: "set as \<union> set bs \<subseteq> X" using s asbs by auto
  define b' where "b' = (let b = b\<lparr>count := count b - 1\<rparr>
      in if as = [] then b\<lparr>hh_head := hdp bs\<rparr> else b)"
  have hb: "as = [] \<Longrightarrow> hh_head b = Some a" "as \<noteq> [] \<Longrightarrow> hh_head b \<noteq> Some a"
    using hd d by (auto simp: hdp_append dest: hdp_SomeD)
  have b': "hh_head b' = hdp (as @ bs)" "count b' = count b - 1"
    using hd by (auto simp: b'_def Let_def hdp_append)
  let ?t' = "t\<lparr>buckets := (buckets t)[i := b']\<rparr>"
  define m1 where "m1 = (if as = [] then m
      else set_hh (last as) ((hnd m (last as))\<lparr>hh_next := hdp bs\<rparr>) m)"
  define m2 where "m2 = (case bs of [] \<Rightarrow> m1
      | y # _ \<Rightarrow> set_hh y ((hnd m1 y)\<lparr>hh_prev := lastp None as\<rparr>) m1)"
  let ?m = "set_tbl tp ?t' m2"
  have h1: "hnd m1 x = (if as \<noteq> [] \<and> x = last as then (hnd m x)\<lparr>hh_next := hdp bs\<rparr> else hnd m x)" for x
    using sub X by (simp add: m1_def subset_iff)
  have l1: "live m1 x = live m x" "tbls m1 = tbls m" "same_ids m m1" for x by (simp_all add: m1_def)
  have h2: "hnd m2 x = (if Some x = hdp bs then (hnd m1 x)\<lparr>hh_prev := lastp None as\<rparr> else hnd m1 x)" for x
    using sub X l1(1) by (cases bs) (auto simp: m2_def)
  have l2: "live m2 x = live m x" "tbls m2 = tbls m" "same_ids m m2" for x
    using l1 by (cases bs; simp add: m2_def)+
  have run: "HASH_DEL_IN_BKT (Some tp) i (Some a) m = Some ?m"
  proof -
    have la: "live m a" using X a by blast
    have las: "live m (last as)" "last as \<noteq> a" if "as \<noteq> []" using that sub X d by (auto simp: subset_iff)
    have ly: "live m y" "y \<noteq> a" if "bs = y # ys" for y ys using that sub X d by (auto simp: subset_iff)
    show ?thesis
      using t(1) il la las ly lk hb
      by (cases "as = []"; cases bs)
        (simp_all add: HASH_DEL_IN_BKT_def mem_simps b_def [symmetric] m1_def m2_def b'_def lastp_def
          Let_def del: h_load_simps(2))
  qed
  have f: "bkt_frame tp m ?m ?t'"
    using l2 h1 h2 by (simp add: bkt_frame_def)
  have "chain_ok m2 b' (as @ bs)"
  proof (rule unlink_chain_ok [OF c [unfolded asbs] b'])
    fix x assume x: "x \<in> set as \<union> set bs"
    show "hh_next (hnd m2 x) = (if as \<noteq> [] \<and> x = last as then hdp bs else hh_next (hnd m x))"
      by (simp add: h2 h1)
    show "hh_prev (hnd m2 x) = (if Some x = hdp bs then lastp None as else hh_prev (hnd m x))"
      by (simp add: h2 h1)
  qed
  moreover have "chain_ok m2 (buckets t ! j) (cs ! j)" if j: "j < length (buckets t)" "j \<noteq> i" for j
  proof -
    have "\<not> (as \<noteq> [] \<and> x = last as) \<and> Some x \<noteq> hdp bs" if x: "x \<in> set (cs ! j)" for x
    proof -
      have "x \<notin> set (cs ! i)" using x cs j il by (auto simp: chains_ok_def)
      then show ?thesis using asbs by (auto dest: hdp_SomeD [OF sym])
    qed
    then have "chain_ok m2 (buckets t ! j) (cs ! j) = chain_ok m (buckets t ! j) (cs ! j)"
      by (intro chain_ok_cong) (auto simp: h2 h1)
    then show ?thesis using cs j(1) by (simp add: chains_ok_def)
  qed
  moreover have bm: "bidx n m2 x = bidx n m x" for n x
    by (simp add: bidx_def h2 h1)
  moreover have si: "set (as @ bs) = {x \<in> X - {a}. bidx (num_buckets t) m x = i}"
    using s asbs d by auto
  moreover have "set (cs ! j) = {x \<in> X - {a}. bidx (num_buckets t) m x = j}"
    if "j < length (buckets t)" "j \<noteq> i" for j
    using cs that i by (auto simp: chains_ok_def)
  ultimately have "chains_ok ?m (num_buckets ?t') (buckets ?t') (X - {a}) (cs[i := as @ bs])"
    using len il by (simp add: chains_ok_def nth_list_update)
  moreover have "table_geom ?t'" using t(2) by (simp add: table_geom_def)
  moreover have "brk (tbls ?m) = brk (tbls m)" "tail ?t' = tail t" "num_items ?t' = num_items t"
    "log2_num_buckets ?t' = log2_num_buckets t"
    using l2(2) by simp_all
  ultimately show ?thesis using run f by blast
qed

section \<open>HASH_DEL\<close>

lemma HASH_DEL_last:
  assumes ok: "hash_ok head m [a]"
  shows "\<exists>m'. HASH_DEL head (Some a) m = Some (None, m') \<and> hash_ok None m' [] \<and> same_ids m m'
     \<and> grants (tbls m') = grants (tbls m) \<and> brk (tbls m') = brk (tbls m)"
proof -
  from ok obtain tp t cs where t: "tblf m tp = Some t" "\<And>x. x \<in> set [a] \<Longrightarrow> handle_ok m tp x"
    "app_ok m [a]" by (rule hash_ok_tblE) auto
  have a: "live m a" "tbl (hnd m a) = Some tp" "app_prev (hnd m a) = None" "app_next (hnd m a) = None"
    using t(2,3) by (auto simp: handle_ok_def app_ok_def)
  let ?ts = "(tbls m)\<lparr>cells := (tblf m)(tp := None)\<rparr>"
  have "HASH_DEL head (Some a) m = Some (None, m\<lparr>tbls := ?ts\<rparr>)"
    using a t(1) hash_okD(1) [OF ok]
    by (simp add: HASH_DEL_def HASH_DELETE_HH_def mem_simps del: h_load_simps(2))
  moreover have "heap_wf ?ts" using hash_okD(5) [OF ok] by (auto simp: heap_wf_def)
  ultimately show ?thesis by (auto intro!: hash_ok_empty)
qed

lemma remove1_middle:
  "distinct (as @ a # bs) \<Longrightarrow> remove1 a (as @ a # bs) = as @ bs"
  by (auto simp: remove1_append)

lemma HASH_DEL_more:
  assumes ok: "hash_ok head m (as @ a # bs)" and ne: "as @ bs \<noteq> []"
  shows "\<exists>m'. HASH_DEL head (Some a) m = Some (hdp (as @ bs), m')
     \<and> hash_ok (hdp (as @ bs)) m' (as @ bs) \<and> same_ids m m'
     \<and> grants (tbls m') = grants (tbls m) \<and> brk (tbls m') = brk (tbls m)
     \<and> log2_of (hdp (as @ bs)) m' = log2_of head m"
proof -
  let ?xs = "as @ a # bs"
  from ok obtain tp t cs where t: "tblf m tp = Some t" "\<And>x. x \<in> set ?xs \<Longrightarrow> handle_ok m tp x"
    "app_ok m ?xs" "table_geom t" "tail t = Some (last ?xs)" "num_items t = of_nat (length ?xs)"
    "chains_ok m (num_buckets t) (buckets t) (set ?xs) cs" by (rule hash_ok_tblE) auto
  note dl = t(3) [unfolded app_ok_def]
  note lk = dll_next_prev [OF dl]
  have d: "distinct ?xs" by (rule hash_okD(2) [OF ok])
  have lv: "live m x" "tbl (hnd m x) = Some tp" if "x \<in> set ?xs" for x
    using t(2) [OF that] by (simp_all add: handle_ok_def)
  define t1 where "t1 = (if bs = [] then t\<lparr>tail := Some (last as)\<rparr> else t)"
  define m1 where "m1 = (if bs = [] then set_tbl tp t1 m else m)"
  define m2 where "m2 = (if as = [] then m1
      else set_hh (last as) ((hnd m1 (last as))\<lparr>app_next := hdp bs\<rparr>) m1)"
  define m3 where "m3 = (case bs of [] \<Rightarrow> m2
      | y # _ \<Rightarrow> set_hh y ((hnd m2 y)\<lparr>app_prev := lastp None as\<rparr>) m2)"
  have l1: "live m1 x = live m x" "hnd m1 x = hnd m x" "tblf m1 tp = Some t1" "same_ids m m1"
    "grants (tbls m1) = grants (tbls m)" "brk (tbls m1) = brk (tbls m)" for x
    using t(1) by (simp_all add: m1_def t1_def)
  have h2: "hnd m2 x = (if as \<noteq> [] \<and> x = last as then (hnd m x)\<lparr>app_next := hdp bs\<rparr> else hnd m x)" for x
    using lv l1 by (simp add: m2_def)
  have l2: "live m2 x = live m x" "tbls m2 = tbls m1" "same_ids m m2" for x
    using l1 by (simp_all add: m2_def)
  have h3: "hnd m3 x = (if Some x = hdp bs then (hnd m2 x)\<lparr>app_prev := lastp None as\<rparr> else hnd m2 x)" for x
    using lv l2 by (cases bs) (auto simp: m3_def)
  have l3: "live m3 x = live m x" "tbls m3 = tbls m1" "same_ids m m3" for x
    using l2 by (cases bs; simp add: m3_def)+
  have t1: "num_buckets t1 = num_buckets t" "buckets t1 = buckets t" "table_geom t1"
    "num_items t1 = num_items t" "tail t1 = Some (last (as @ bs))"
    using t(4,5) ne by (auto simp: t1_def)
  let ?i = "bidx (num_buckets t) m a"
  obtain h where h: "hdp (as @ bs) = Some h" "h \<in> set as \<union> set bs"
    using ne by (cases as; cases bs) auto
  have run: "HASH_DEL head (Some a) m =
      (do { m' \<leftarrow> HASH_DEL_IN_BKT (Some tp) ?i (Some a) m3;
            m' \<leftarrow> tbl_upd (Some tp) (\<lambda>t. t\<lparr>num_items := num_items t - 1\<rparr>) m';
            Some (hdp (as @ bs), m') })"
  proof -
    have la: "live m a" "last bs \<noteq> a" if "bs \<noteq> []" using lv d that by auto
    have las: "live m (last as)" "tbl (hnd m (last as)) = Some tp" "last as \<noteq> a" if "as \<noteq> []"
      using that lv d by auto
    have lbs: "live m y" "tbl (hnd m y) = Some tp" "y \<noteq> a" "as \<noteq> [] \<Longrightarrow> y \<noteq> last as" if "bs = y # ys" for y ys
      using that lv d by auto
    have lh: "live m y" "tbl (hnd m y) = Some tp" "y \<noteq> a" if "as = y # ys" for y ys
      using that lv d by auto
    show ?thesis
      using lv [of a] lk t(1,5) la las lbs lh ne hash_okD(1) [OF ok]
      by (cases as; cases bs)
        (simp_all add: HASH_DEL_def HASH_DELETE_HH_def mem_simps m1_def m2_def m3_def t1_def
          lastp_def bidx_def del: h_load_simps(2))
  qed
  have c3: "chains_ok m3 (num_buckets t1) (buckets t1) (set ?xs) cs"
    unfolding t1 by (rule chains_ok_cong [OF _ _ _ t(7)]) (simp_all add: h3 h2)
  have bi: "?i = bidx (num_buckets t1) m3 a" by (simp add: bidx_def t1 h3 h2)
  have X3: "live m3 x" if "x \<in> set ?xs" for x using that lv(1) by (simp only: l3)
  have tb3: "tblf m3 tp = Some t1" by (simp only: l3 l1)
  obtain m' t' cs' where r: "HASH_DEL_IN_BKT (Some tp) ?i (Some a) m3 = Some m'"
    "bkt_frame tp m3 m' t'" "brk (tbls m') = brk (tbls m3)" "table_geom t'" "tail t' = tail t1"
    "num_items t' = num_items t1" "chains_ok m' (num_buckets t') (buckets t') (set ?xs - {a}) cs'"
    "log2_num_buckets t' = log2_num_buckets t1"
    using del_in_bkt_ok [OF tb3 t1(3) c3 X3 _ bi] by auto
  let ?t = "t'\<lparr>num_items := num_items t' - 1\<rparr>"
  let ?m = "set_tbl tp ?t m'"
  have tp': "tblf m' tp = Some t'" using r(2) by (simp add: bkt_frame_def)
  have fr: "bkt_frame tp m3 ?m ?t" using r(2) by (simp add: bkt_frame_def)
  have wf3: "heap_wf (tbls m3)"
    using hash_okD(5) [OF ok] t(1) l3(2) by (auto simp: m1_def heap_wf_def)
  have "hash_ok (hdp (as @ bs)) ?m (as @ bs)"
  proof (rule hash_ok_after_bkt [OF fr ne])
    show "inj_on (cidf m3) (set (as @ bs))"
      using hash_okD(3) [OF ok] same_idsD(2) [OF l3(3)] by (simp add: inj_on_def)
    show "heap_wf (tbls ?m)" by (rule bkt_frame_wf [OF fr wf3, of t1]) (simp add: l3(2) l1(3))
    show "handle_ok m3 tp x" if "x \<in> set (as @ bs)" for x
      using that t(2) [of x] same_idsD [OF l3(3)] by (auto simp: handle_ok_def h3 h2)
    show "app_ok m3 (as @ bs)"
      unfolding app_ok_def by (rule dll_remove [OF dl d]) (auto simp: h3 h2)
    have "set ?xs - {a} = set (as @ bs)" using d by auto
    then show "chains_ok ?m (num_buckets ?t) (buckets ?t) (set (as @ bs)) cs'"
      using r(7) by (simp add: chains_ok_def)
  qed (use d hash_okD(4) [OF ok] r(4-6) t1 t(6) in \<open>simp_all add: table_geom_def\<close>)
  moreover have "same_ids m ?m" using l3(3) fr unfolding bkt_frame_def by (blast intro: same_ids_trans)
  moreover have "grants (tbls ?m) = grants (tbls m)" "brk (tbls ?m) = brk (tbls m)"
    using fr r(3) l3(2) l1(5,6) by (simp_all add: bkt_frame_def)
  moreover have "log2_of (hdp (as @ bs)) ?m = log2_of head m"
  proof -
    obtain x where x: "head = Some x" "x \<in> set ?xs"
      using hash_okD(1) [OF ok] by (cases as) auto
    have "log2_of head m = unat (log2_num_buckets t)"
      using x lv [OF x(2)] t(1) by (simp add: log2_of_def the_tbl_live)
    moreover have "tbl (hnd m3 h) = Some tp" "live m3 h"
      using h(2) lv [of h] by (auto simp: h3 h2 l3(1))
    then have "tbl (hnd ?m h) = Some tp" "live ?m h" "tblf ?m tp = Some ?t"
      using bkt_frameD(1,3) [OF fr, of h] by simp_all
    then have "log2_of (Some h) ?m = unat (log2_num_buckets ?t)"
      by (simp add: log2_of_def the_tbl_live)
    ultimately show ?thesis using h(1) r(8) by (simp add: t1_def)
  qed
  moreover have "HASH_DEL head (Some a) m = Some (hdp (as @ bs), ?m)"
    using run r(1) tp' by (simp add: tbl_upd_case)
  ultimately show ?thesis by blast
qed

lemma HASH_DEL_ok:
  assumes ok: "hash_ok head m xs" and a: "a \<in> set xs"
  shows "\<exists>m'. HASH_DEL head (Some a) m = Some (hdp (remove1 a xs), m')
     \<and> hash_ok (hdp (remove1 a xs)) m' (remove1 a xs) \<and> same_ids m m'
     \<and> grants (tbls m') = grants (tbls m) \<and> brk (tbls m') = brk (tbls m)
     \<and> log2_of (hdp (remove1 a xs)) m' \<le> max 5 (log2_of head m)"
proof -
  from a obtain as bs where xs: "xs = as @ a # bs" by (auto dest: split_list)
  with hash_okD(2) [OF ok] have r: "remove1 a xs = as @ bs" by (simp add: remove1_middle)
  show ?thesis
  proof (cases "as @ bs = []")
    case True
    with xs ok HASH_DEL_last [of head m a] r show ?thesis by simp
  next
    case False
    show ?thesis unfolding r using HASH_DEL_more [OF ok [unfolded xs] False] by auto
  qed
qed

end
