(* ===== verification/Uthash_Jenkins.thy ===== *)
theory Uthash_Jenkins
  imports Uthash_Inv
begin

text \<open>
  Arithmetic of the hash: the Jenkins mix is a permutation of the triples of
  32-bit words, reducing a hash value to a bucket is a remainder, and
  \<open>ideal_maxlen\<close> is the rounded-up quotient its comment in \<open>uthash.h\<close> derives.
\<close>

section \<open>HASH_JEN_MIX is invertible\<close>

text \<open>One line of the macro: \<open>x\<close> is updated from \<open>y\<close> and \<open>z\<close>.\<close>

definition mix_line :: "(u32 \<Rightarrow> u32) \<Rightarrow> u32 \<times> u32 \<times> u32 \<Rightarrow> u32 \<times> u32 \<times> u32" where
  "mix_line f = (\<lambda>(x, y, z). (y, z, (x - y - z) XOR f z))"

definition unmix_line :: "(u32 \<Rightarrow> u32) \<Rightarrow> u32 \<times> u32 \<times> u32 \<Rightarrow> u32 \<times> u32 \<times> u32" where
  "unmix_line f = (\<lambda>(y, z, x). ((x XOR f z) + z + y, y, z))"

lemma xor_twice: "(x XOR y) XOR y = (x :: u32)"
  by (simp add: xor.assoc)

lemma unmix_mix: "unmix_line f (mix_line f p) = p"
  by (cases p) (simp add: mix_line_def unmix_line_def xor_twice)

lemma mix_unmix: "mix_line f (unmix_line f p) = p"
  by (cases p) (simp add: mix_line_def unmix_line_def xor_twice)

lemma bij_mix_line: "bij (mix_line f)"
  by (rule bij_betw_byWitness [where f' = "unmix_line f"]) (auto simp: unmix_mix mix_unmix)

lemma mix_line_let:
  "mix_line f (x, y, z) = (let x = x - y; x = x - z; x = x XOR f z in (y, z, x))"
  by (simp add: mix_line_def Let_def)

lemma mix_line_out: "mix_line f (Let e g) = Let e (\<lambda>x. mix_line f (g x))"
  by (simp add: Let_def)

lemma HASH_JEN_MIX_lines:
  "HASH_JEN_MIX = mix_line (drop_bit 15) \<circ> mix_line (push_bit 10) \<circ> mix_line (drop_bit 3)
     \<circ> mix_line (drop_bit 5) \<circ> mix_line (push_bit 16) \<circ> mix_line (drop_bit 12)
     \<circ> mix_line (drop_bit 13) \<circ> mix_line (push_bit 8) \<circ> mix_line (drop_bit 13)"
proof (rule ext)
  fix p :: "u32 \<times> u32 \<times> u32"
  show "HASH_JEN_MIX p = (mix_line (drop_bit 15) \<circ> mix_line (push_bit 10) \<circ> mix_line (drop_bit 3)
     \<circ> mix_line (drop_bit 5) \<circ> mix_line (push_bit 16) \<circ> mix_line (drop_bit 12)
     \<circ> mix_line (drop_bit 13) \<circ> mix_line (push_bit 8) \<circ> mix_line (drop_bit 13)) p"
    by (cases p) (simp only: HASH_JEN_MIX_def comp_apply mix_line_let mix_line_out prod.case)
qed

lemma bij_HASH_JEN_MIX: "bij HASH_JEN_MIX"
  unfolding HASH_JEN_MIX_lines by (intro bij_comp bij_mix_line)

section \<open>The ideal chain length\<close>

lemma div_round_up:
  fixes d n :: nat
  assumes d: "0 < d"
  shows "(n + d - 1) div d = n div d + (if n mod d = 0 then 0 else 1)"
proof -
  have e: "n + d - 1 = (n mod d + d - 1) + n div d * d"
    using mod_div_mult_eq [of n d] d by linarith
  have "(n + d - 1) div d = n div d + (n mod d + d - 1) div d"
    unfolding e using d by (intro div_mult_self1) simp
  also have "(n mod d + d - 1) div d = (if n mod d = 0 then 0 else 1)"
  proof (cases "n mod d = 0")
    case False
    have "n mod d < d" using d by simp
    with False have e: "n mod d + d - 1 = (n mod d - 1) + d" and "n mod d - 1 < d" by linarith+
    then have "(n mod d + d - 1) div d = 1" unfolding e using d by (subst div_add_self2) simp_all
    with False show ?thesis by simp
  qed (use d in simp)
  finally show ?thesis .
qed

lemma ideal_maxlen_ceil:
  assumes t: "table_geom t" and l: "unat (log2_num_buckets t) < 31"
  shows "unat (ideal_maxlen t)
    = (unat (num_items t) + 2 * unat (num_buckets t) - 1) div (2 * unat (num_buckets t))"
proof -
  define k where "k = unat (log2_num_buckets t)"
  define n where "n = unat (num_items t)"
  have nb: "num_buckets t = 2 ^ k" "k < 31" using t l by (simp_all add: table_geom_def k_def)
  have b: "unat (num_buckets t) = 2 ^ k" "num_buckets t * 2 = 2 ^ Suc k"
    using nb by (simp_all add: unat_two_power)
  have lb: "unat (log2_num_buckets t + 1) = Suc k"
    using l by (simp add: unat_word_ariths k_def)
  have q: "unat (drop_bit (Suc k) (num_items t)) = n div 2 ^ Suc k"
    unfolding unat_drop_bit_eq n_def by (simp only: drop_bit_eq_div)
  have "unat (num_items t AND (2 ^ Suc k - 1)) = n mod 2 ^ Suc k"
    unfolding n_def by (rule and_mask_mod)
  then have r: "num_items t AND (2 ^ Suc k - 1) = 0 \<longleftrightarrow> n mod 2 ^ Suc k = 0"
    by (metis unat_0 unat_eq_zero)
  have n: "n < 2 ^ 32" using unsigned_less [of "num_items t"] by (simp add: n_def)
  have "n div 2 ^ Suc k \<le> n div 2" by (intro div_le_mono2) simp_all
  also have "n div 2 < 2 ^ 31" using n by simp
  finally have s: "n div 2 ^ Suc k + 1 < 2 ^ 32" by simp
  note c = div_round_up [of "2 ^ Suc k" n]
  have "ideal_maxlen t = drop_bit (Suc k) (num_items t) + (if n mod 2 ^ Suc k = 0 then 0 else 1)"
    unfolding ideal_maxlen_def lb b(2) using r by simp
  moreover have "unat (drop_bit (Suc k) (num_items t) + 1) = n div 2 ^ Suc k + 1"
    using s q by (simp add: unat_word_ariths)
  ultimately have "unat (ideal_maxlen t) = n div 2 ^ Suc k + (if n mod 2 ^ Suc k = 0 then 0 else 1)"
    using q by simp
  then show ?thesis using c by (simp add: b(1) n_def del: One_nat_def)
qed

end
