(* ===== verification/Uthash_Table.thy ===== *)
theory Uthash_Table
  imports Uthash_Del Uthash_Jenkins
begin

text \<open>
  What the users of the hash see of it.  \<open>HASH_ITER\<close> visits the structs in
  application order, also when its body deletes the current one; the interface
  \<open>ordered_table\<close> states the laws of find, add and delete over the list of
  elements, its consequences are proved once from the laws, and the
  interpretation \<open>ut\<close> discharges the laws for the uthash macros.
\<close>

section \<open>HASH_ITER\<close>

lemma HASH_ITER_loop_rule:
  assumes "I xs s"
    and nxt: "\<And>x xs s. I (x # xs) s \<Longrightarrow> iter_next (Some x) (mem_of s) = Some (hdp xs)"
    and step: "\<And>x xs s. I (x # xs) s \<Longrightarrow> \<exists>s'. loop_body x s = Some s' \<and> I xs s'"
  shows "\<exists>s'. HASH_ITER_loop loop_body mem_of (hdp xs) (hdp (tl xs)) s = Some s' \<and> I [] s'"
  using assms(1)
proof (induction xs arbitrary: s)
  case Nil
  then show ?case by (simp add: HASH_ITER_loop.simps)
next
  case (Cons x xs)
  from step [OF Cons.prems] obtain s' where s': "loop_body x s = Some s'" "I xs s'" by blast
  have "iter_next (hdp xs) (mem_of s') = Some (hdp (tl xs))"
    using s'(2) nxt by (cases xs) (auto simp: iter_next_def)
  with s' Cons.IH [OF s'(2)] show ?case
    by (subst HASH_ITER_loop.simps) simp
qed

text \<open>
  The rule for \<open>HASH_ITER\<close>: \<open>I xs s\<close> is the loop invariant with \<open>xs\<close> left to visit;
  it need only keep the links of the structs still to come.
\<close>

lemma HASH_ITER_rule:
  assumes "I xs s"
    and nxt: "\<And>x xs s. I (x # xs) s \<Longrightarrow> iter_next (Some x) (mem_of s) = Some (hdp xs)"
    and step: "\<And>x xs s. I (x # xs) s \<Longrightarrow> \<exists>s'. loop_body x s = Some s' \<and> I xs s'"
  shows "\<exists>s'. HASH_ITER loop_body mem_of (hdp xs) s = Some s' \<and> I [] s'"
proof -
  have "iter_next (hdp xs) (mem_of s) = Some (hdp (tl xs))"
    using assms(1) nxt by (cases xs) (auto simp: iter_next_def)
  then show ?thesis
    using HASH_ITER_loop_rule [of I xs s, OF assms] by (simp add: HASH_ITER_def)
qed

lemma hash_ok_next:
  assumes "hash_ok head m (as @ x # xs)"
  shows "iter_next (Some x) m = Some (hdp xs)"
proof -
  have "app_ok m (as @ x # xs)" "live m x"
    using hash_ok_tblE [OF assms] hash_okD(6) [OF assms, of x] by auto
  then show ?thesis
    by (auto simp: app_ok_def iter_next_live dest: dll_next_prev)
qed

text \<open>Iteration whose body leaves the hash alone is a fold over the elements in order.\<close>

lemma HASH_ITER_fold:
  assumes ok: "hash_ok head m xs"
    and step: "\<And>x s. x \<in> set xs \<Longrightarrow> mem_of s = m \<Longrightarrow> P s \<Longrightarrow>
      \<exists>s'. loop_body x s = Some s' \<and> s' = f x s \<and> mem_of s' = m \<and> P s'"
    and s: "mem_of s = m" "P s"
  shows "HASH_ITER loop_body mem_of head s = Some (fold f xs s)"
proof -
  define I where "I ys s' \<longleftrightarrow> (\<exists>as. xs = as @ ys \<and> s' = fold f as s \<and> mem_of s' = m \<and> P s')" for ys s'
  have "\<exists>s'. HASH_ITER loop_body mem_of (hdp xs) s = Some s' \<and> I [] s'"
  proof (rule HASH_ITER_rule)
    show "I xs s" using s by (simp add: I_def)
  next
    fix y ys s' assume "I (y # ys) s'"
    then obtain as where as: "xs = as @ y # ys" "s' = fold f as s" "mem_of s' = m" "P s'"
      by (auto simp: I_def)
    then show "iter_next (Some y) (mem_of s') = Some (hdp ys)"
      using ok hash_ok_next by metis
    from step [of y s'] as obtain s'' where "loop_body y s' = Some s''" "s'' = f y s'"
      "mem_of s'' = m" "P s''" by auto
    with as show "\<exists>s''. loop_body y s' = Some s'' \<and> I ys s''"
      by (intro exI [of _ s'']) (auto simp: I_def intro!: exI [of _ "as @ [y]"])
  qed
  then show ?thesis using hash_okD(1) [OF ok] by (auto simp: I_def)
qed

section \<open>The interface of the table\<close>

text \<open>
  \<open>ok h m xs\<close>: the table with head \<open>h\<close> in memory \<open>m\<close> holds the elements \<open>xs\<close>, in
  this order; \<open>key_of m a\<close> is the key of element \<open>a\<close>; \<open>fresh m a\<close> says that \<open>a\<close> may be
  linked into a table and \<open>room h m\<close> that an insertion gets the memory it needs.
\<close>

locale ordered_table =
  fixes ok :: "'h \<Rightarrow> 'm \<Rightarrow> 'a list \<Rightarrow> bool"
    and key_of :: "'m \<Rightarrow> 'a \<Rightarrow> 'k"
    and fresh :: "'m \<Rightarrow> 'a \<Rightarrow> bool"
    and room :: "'h \<Rightarrow> 'm \<Rightarrow> 'a list \<Rightarrow> bool"
    and find :: "'h \<Rightarrow> 'k \<Rightarrow> 'm \<Rightarrow> 'a option option"
    and add :: "'h \<Rightarrow> 'a \<Rightarrow> 'm \<Rightarrow> ('h \<times> 'm) option"
    and del :: "'h \<Rightarrow> 'a \<Rightarrow> 'm \<Rightarrow> ('h \<times> 'm) option"
  assumes ok_distinct: "ok h m xs \<Longrightarrow> distinct xs"
    and ok_keys: "ok h m xs \<Longrightarrow> inj_on (key_of m) (set xs)"
    and find_law: "ok h m xs \<Longrightarrow> find h k m = Some (List.find (\<lambda>a. key_of m a = k) xs)"
    and add_law: "ok h m xs \<Longrightarrow> fresh m a \<Longrightarrow> a \<notin> set xs \<Longrightarrow> key_of m a \<notin> key_of m ` set xs
      \<Longrightarrow> room h m xs \<Longrightarrow> \<exists>h' m'. add h a m = Some (h', m') \<and> ok h' m' (xs @ [a])
            \<and> key_of m' = key_of m \<and> fresh m' = fresh m"
    and del_law: "ok h m xs \<Longrightarrow> a \<in> set xs \<Longrightarrow> \<exists>h' m'. del h a m = Some (h', m')
            \<and> ok h' m' (remove1 a xs) \<and> key_of m' = key_of m \<and> fresh m' = fresh m"
begin

lemma find_Some_iff:
  assumes "ok h m xs"
  shows "find h k m = Some (Some a) \<longleftrightarrow> a \<in> set xs \<and> key_of m a = k"
proof -
  have "List.find (\<lambda>a. key_of m a = k) xs = Some a \<longleftrightarrow> a \<in> set xs \<and> key_of m a = k"
  proof
    assume "a \<in> set xs \<and> key_of m a = k"
    then obtain b where b: "List.find (\<lambda>a. key_of m a = k) xs = Some b"
      by (cases "List.find (\<lambda>a. key_of m a = k) xs") (auto simp: find_None_iff)
    then have "b \<in> set xs" "key_of m b = k" by (auto simp: List.find_Some_iff)
    with \<open>a \<in> set xs \<and> key_of m a = k\<close> ok_keys [OF assms] have "b = a" by (auto simp: inj_on_def)
    with b show "List.find (\<lambda>a. key_of m a = k) xs = Some a" by simp
  qed (auto simp: List.find_Some_iff)
  then show ?thesis using find_law [OF assms] by simp
qed

lemma find_None_iff:
  "ok h m xs \<Longrightarrow> find h k m = Some None \<longleftrightarrow> k \<notin> key_of m ` set xs"
  by (auto simp: find_law List.find_None_iff)

lemma find_total: "ok h m xs \<Longrightarrow> find h k m \<noteq> None"
  by (simp add: find_law)

lemma find_key: "ok h m xs \<Longrightarrow> a \<in> set xs \<Longrightarrow> find h (key_of m a) m = Some (Some a)"
  by (simp add: find_Some_iff)

lemma find_after_add:
  assumes "ok h m xs" and "fresh m a" and "a \<notin> set xs" and "find h (key_of m a) m = Some None"
    and "room h m xs"
  shows "\<exists>h' m'. add h a m = Some (h', m') \<and>
    (\<forall>k. find h' k m' = (if k = key_of m a then Some (Some a) else find h k m))"
proof -
  have k: "key_of m a \<notin> key_of m ` set xs" using find_None_iff [OF assms(1)] assms(4) by blast
  from add_law [OF assms(1-3) k assms(5)] obtain h' m' where r: "add h a m = Some (h', m')"
    "ok h' m' (xs @ [a])" "key_of m' = key_of m" by blast
  have "List.find (\<lambda>b. key_of m b = key_of m a) xs = None"
    using k by (auto simp: List.find_None_iff image_iff)
  then have "find h' k m' = (if k = key_of m a then Some (Some a) else find h k m)" for k
    by (auto simp: find_law [OF r(2)] find_law [OF assms(1)] r(3) find_snoc split: option.splits)
  with r(1) show ?thesis by blast
qed

lemma find_after_del:
  assumes "ok h m xs" and "a \<in> set xs"
  shows "\<exists>h' m'. del h a m = Some (h', m') \<and>
    (\<forall>k. find h' k m' = (if k = key_of m a then Some None else find h k m))"
proof -
  from del_law [OF assms] obtain h' m' where r: "del h a m = Some (h', m')"
    "ok h' m' (remove1 a xs)" "key_of m' = key_of m" by blast
  have "find h' k m' = (if k = key_of m a then Some None else find h k m)" for k
    using find_remove1_key [OF ok_distinct [OF assms(1)] ok_keys [OF assms(1)] assms(2)]
    by (simp add: find_law [OF r(2)] find_law [OF assms(1)] r(3))
  with r(1) show ?thesis by blast
qed

lemma del_after_add:
  assumes "ok h m xs" and "fresh m a" and "a \<notin> set xs" and "key_of m a \<notin> key_of m ` set xs"
    and "room h m xs"
  shows "\<exists>h1 m1 h2 m2. add h a m = Some (h1, m1) \<and> del h1 a m1 = Some (h2, m2)
    \<and> ok h2 m2 xs \<and> (\<forall>k. find h2 k m2 = find h k m)"
proof -
  from add_law [OF assms] obtain h1 m1 where r: "add h a m = Some (h1, m1)" "ok h1 m1 (xs @ [a])"
    "key_of m1 = key_of m" by blast
  from del_law [OF r(2), of a] obtain h2 m2 where d: "del h1 a m1 = Some (h2, m2)"
    "ok h2 m2 (remove1 a (xs @ [a]))" "key_of m2 = key_of m1" by auto
  from d(2) assms(3) have x: "ok h2 m2 xs" by (simp add: remove1_append)
  then have "find h2 k m2 = find h k m" for k
    using find_law [OF x, of k] find_law [OF assms(1), of k] d(3) r(3) by simp
  with r(1) d(1) x show ?thesis by blast
qed

end

section \<open>uthash provides it\<close>

definition ut_room :: "ptr \<Rightarrow> 'b umem \<Rightarrow> addr list \<Rightarrow> bool" where
  "ut_room head m xs \<longleftrightarrow> log2_of head m < 31 \<and> no_oom (tbls m) \<and> length xs + 1 < 2 ^ 32"

interpretation ut: ordered_table
  "hash_ok" "cidf" "live" "ut_room"
  "\<lambda>h k m. HASH_FIND h (uuid_bytes k) 16 m"
  "\<lambda>h a m. HASH_ADD h 16 (Some a) m"
  "\<lambda>h a m. HASH_DEL h (Some a) m"
proof
  fix h :: ptr and m :: "'b umem" and xs k a
  assume ok: "hash_ok h m xs"
  show "distinct xs" "inj_on (cidf m) (set xs)" using hash_okD [OF ok] by simp_all
  show "HASH_FIND h (uuid_bytes k) 16 m = Some (List.find (\<lambda>a. cidf m a = k) xs)"
    using HASH_FIND_ok [OF ok] by (simp add: map_of_entries)
  show "\<exists>h' m'. HASH_ADD h 16 (Some a) m = Some (h', m') \<and> hash_ok h' m' (xs @ [a])
      \<and> cidf m' = cidf m \<and> live m' = live m"
    if "live m a" "a \<notin> set xs" "cidf m a \<notin> cidf m ` set xs" "ut_room h m xs"
    using HASH_ADD_ok [OF ok that(1-3)] that(4) by (auto simp: ut_room_def same_ids_def fun_eq_iff)
  show "\<exists>h' m'. HASH_DEL h (Some a) m = Some (h', m') \<and> hash_ok h' m' (remove1 a xs)
      \<and> cidf m' = cidf m \<and> live m' = live m"
    if "a \<in> set xs"
    using HASH_DEL_ok [OF ok that] by (auto simp: same_ids_def fun_eq_iff)
qed

end
