(* ===== verification/Hoard.thy ===== *)
theory Hoard
  imports Common
begin

text \<open>
  \<open>src/hoard.hpp\<close>, \<open>src/hoard.cc\<close>, \<open>src/hoard-c.h\<close>: the flat array a cache keeps
  its data in.  A \<open>Hoard\<close> object holds a \<open>std::vector<int64_t>\<close>, here the list of
  its elements; \<open>size_t\<close> arithmetic is that of 64-bit words and wraps.  Indexing the
  vector or the caller's buffer out of range is undefined in C++ and a failure
  here; so are the exceptions of \<open>resize\<close>, which nothing between the vector and
  the C callers catches.

  The second half relates the object to the array of all positions it stands for
  (\<open>hoard_at\<close>, 0 beyond the end) and derives the laws of reads after writes from
  the interface \<open>flat_store\<close>.
\<close>

section \<open>The class\<close>

record Hoard =
  m_hoard :: "i64 list"

text \<open>\<open>std::vector<int64_t>::max_size()\<close>: \<open>PTRDIFF_MAX / sizeof(int64_t)\<close>.\<close>

definition vector_max_size :: nat where
  "vector_max_size = 2 ^ 60 - 1"

text \<open>\<open>m_hoard.resize(n)\<close>: new elements are 0; growing asks the allocator for memory.\<close>

definition Hoard_resize :: "ptr \<Rightarrow> u64 \<Rightarrow> Hoard heap \<Rightarrow> Hoard heap option" where
  "Hoard_resize this n hs = do {
     h \<leftarrow> h_load this hs;
     let v = m_hoard h;
     if unat n \<le> length v
     then h_update this (\<lambda>h. h\<lparr>m_hoard := take (unat n) v\<rparr>) hs
     else if vector_max_size < unat n then None
     else do {
       let (ok, hs) = h_request hs;
       if ok then h_update this (\<lambda>h. h\<lparr>m_hoard := v @ replicate (unat n - length v) 0\<rparr>) hs
       else None } }"

text \<open>
  The \<open>for\<close> loops of \<open>put\<close> and \<open>get\<close>, with \<open>n\<close> iterations left and \<open>i\<close> done: the
  index \<open>offset+i\<close> is computed in \<open>size_t\<close>.
\<close>

fun put_loop :: "nat \<Rightarrow> nat \<Rightarrow> u64 \<Rightarrow> i64 list \<Rightarrow> i64 list \<Rightarrow> i64 list option" where
  "put_loop 0 i offset src v = Some v"
| "put_loop (Suc n) i offset src v = do {
     x \<leftarrow> arr_get src i;
     v \<leftarrow> arr_set v (unat (offset + of_nat i)) x;
     put_loop n (Suc i) offset src v }"

fun get_loop :: "nat \<Rightarrow> nat \<Rightarrow> u64 \<Rightarrow> i64 list \<Rightarrow> i64 list \<Rightarrow> i64 list option" where
  "get_loop 0 i offset v dest = Some dest"
| "get_loop (Suc n) i offset v dest = do {
     x \<leftarrow> arr_get v (unat (offset + of_nat i));
     dest \<leftarrow> arr_set dest i x;
     get_loop n (Suc i) offset v dest }"

text \<open>
  \<open>Hoard::put\<close>: the result is \<open>count\<close> converted to \<open>int\<close>.  \<open>src\<close> lists the objects
  the pointer argument may be advanced to.
\<close>

definition Hoard_put :: "ptr \<Rightarrow> i64 list \<Rightarrow> u64 \<Rightarrow> u64 \<Rightarrow> Hoard heap \<Rightarrow> (i32 \<times> Hoard heap) option" where
  "Hoard_put this src n offset hs = do {
     h \<leftarrow> h_load this hs;
     hs \<leftarrow> (if of_nat (length (m_hoard h)) < offset + n
            then Hoard_resize this ((of_nat (length (m_hoard h)) + offset + n) * 2) hs
            else Some hs);
     h \<leftarrow> h_load this hs;
     v \<leftarrow> put_loop (unat n) 0 offset src (m_hoard h);
     hs \<leftarrow> h_update this (\<lambda>h. h\<lparr>m_hoard := v\<rparr>) hs;
     Some (ucast n, hs) }"

text \<open>\<open>Hoard::get\<close>: the result and the caller's buffer after the call.\<close>

definition Hoard_get :: "ptr \<Rightarrow> i64 list \<Rightarrow> u64 \<Rightarrow> u64 \<Rightarrow> Hoard heap \<Rightarrow> (i32 \<times> i64 list) option" where
  "Hoard_get this dest n offset hs = do {
     h \<leftarrow> h_load this hs;
     dest \<leftarrow> get_loop (unat n) 0 offset (m_hoard h) dest;
     Some (ucast n, dest) }"

section \<open>The C interface\<close>

text \<open>\<open>new\<close> throws when it gets no memory.\<close>

definition hoard_init :: "Hoard heap \<Rightarrow> (ptr \<times> Hoard heap) option" where
  "hoard_init hs =
     (let (p, hs) = h_alloc \<lparr>m_hoard = []\<rparr> hs in if p = NULL then None else Some (p, hs))"

definition hoard_put :: "ptr \<Rightarrow> i64 list \<Rightarrow> u64 \<Rightarrow> u64 \<Rightarrow> Hoard heap \<Rightarrow> (i32 \<times> Hoard heap) option" where
  "hoard_put h src n offset hs = Hoard_put h src n offset hs"

definition hoard_get :: "ptr \<Rightarrow> i64 list \<Rightarrow> u64 \<Rightarrow> u64 \<Rightarrow> Hoard heap \<Rightarrow> (i32 \<times> i64 list) option" where
  "hoard_get h dest n offset hs = Hoard_get h dest n offset hs"

definition hoard_finalize :: "ptr \<Rightarrow> Hoard heap \<Rightarrow> Hoard heap option" where
  "hoard_finalize h hs = h_free h hs"

section \<open>The loops\<close>

lemma put_loop_ok:
  assumes "i + n \<le> length src" and "unat off + i + n \<le> length v" and "length v < 2 ^ 64"
  shows "put_loop n i off src v = Some (take (unat off + i) v @ take n (drop i src) @ drop (unat off + i + n) v)"
  using assms
proof (induction n arbitrary: i v)
  case 0
  then show ?case by simp
next
  case (Suc n)
  have ix: "unat (off + of_nat i) = unat off + i"
    using Suc.prems by (subst unat_word_ariths) (simp add: unat_of_nat)
  let ?v = "v[unat off + i := src ! i]"
  have "put_loop (Suc n) i off src v = put_loop n (Suc i) off src ?v"
    using Suc.prems by (simp add: ix)
  also have "\<dots> = Some (take (unat off + Suc i) ?v @ take n (drop (Suc i) src) @ drop (unat off + Suc i + n) ?v)"
    using Suc.prems by (intro Suc.IH) auto
  also have "take (unat off + Suc i) ?v = take (unat off + i) v @ [src ! i]"
    using Suc.prems by (simp add: take_Suc_conv_app_nth)
  also have "drop (unat off + Suc i + n) ?v = drop (unat off + i + Suc n) v"
    by simp
  finally show ?case using Suc.prems by (simp add: Cons_nth_drop_Suc [symmetric])
qed

lemma put_loop_index:
  assumes "put_loop n i off src v = Some v'" and "j < n"
  shows "i + j < length src \<and> unat (off + of_nat (i + j)) < length v"
  using assms
proof (induction n arbitrary: i v j)
  case (Suc n)
  note IH = Suc.IH [of "Suc i" "v[unat (off + of_nat i) := src ! i]" "j - 1"]
  show ?case
  proof (cases j)
    case 0
    then show ?thesis using Suc.prems(1)
      by (auto simp: bind_Some_iff arr_get_eq_Some arr_set_eq_Some)
  next
    case j: (Suc j')
    from j have "of_nat (Suc i + (j - 1)) = (of_nat (i + j) :: u64)" "Suc i + (j - 1) = i + j" by simp_all
    then show ?thesis using Suc.prems IH j
      by (auto simp: bind_Some_iff arr_get_eq_Some arr_set_eq_Some simp del: of_nat_Suc of_nat_add)
  qed
qed simp

lemma get_loop_ok:
  assumes "unat off + i + n \<le> length v" and "i + n \<le> length dest" and "length v < 2 ^ 64"
  shows "get_loop n i off v dest
    = Some (take i dest @ take n (drop (unat off + i) v) @ drop (i + n) dest)"
  using assms
proof (induction n arbitrary: i dest)
  case 0
  then show ?case by simp
next
  case (Suc n)
  have ix: "unat (off + of_nat i) = unat off + i"
    using Suc.prems by (subst unat_word_ariths) (simp add: unat_of_nat)
  let ?d = "dest[i := v ! (unat off + i)]"
  have "get_loop (Suc n) i off v dest = get_loop n (Suc i) off v ?d"
    using Suc.prems by (simp add: ix)
  also have "\<dots> = Some (take (Suc i) ?d @ take n (drop (unat off + Suc i) v) @ drop (Suc i + n) ?d)"
    using Suc.prems by (intro Suc.IH) auto
  also have "take (Suc i) ?d = take i dest @ [v ! (unat off + i)]"
    using Suc.prems by (simp add: take_Suc_conv_app_nth)
  finally show ?case using Suc.prems by (simp add: Cons_nth_drop_Suc [symmetric])
qed

lemma get_loop_index:
  assumes "get_loop n i off v dest = Some d" and "j < n"
  shows "i + j < length dest \<and> unat (off + of_nat (i + j)) < length v"
  using assms
proof (induction n arbitrary: i dest j)
  case (Suc n)
  note IH = Suc.IH [of "Suc i" "dest[i := v ! unat (off + of_nat i)]" "j - 1"]
  show ?case
  proof (cases j)
    case 0
    then show ?thesis using Suc.prems(1)
      by (auto simp: bind_Some_iff arr_get_eq_Some arr_set_eq_Some)
  next
    case j: (Suc j')
    from j have "of_nat (Suc i + (j - 1)) = (of_nat (i + j) :: u64)" "Suc i + (j - 1) = i + j" by simp_all
    then show ?thesis using Suc.prems IH j
      by (auto simp: bind_Some_iff arr_get_eq_Some arr_set_eq_Some simp del: of_nat_Suc of_nat_add)
  qed
qed simp


section \<open>Contents\<close>

definition hoard_at :: "Hoard \<Rightarrow> nat \<Rightarrow> i64" where
  "hoard_at h j = (if j < length (m_hoard h) then m_hoard h ! j else 0)"

definition hoard_ok :: "ptr \<Rightarrow> Hoard heap \<Rightarrow> bool" where
  "hoard_ok p hs \<longleftrightarrow> (\<exists>h. h_load p hs = Some h \<and> length (m_hoard h) \<le> vector_max_size)"

definition hoard_size :: "ptr \<Rightarrow> Hoard heap \<Rightarrow> nat" where
  "hoard_size p hs = (case h_load p hs of None \<Rightarrow> 0 | Some h \<Rightarrow> length (m_hoard h))"

definition hoard_read :: "ptr \<Rightarrow> Hoard heap \<Rightarrow> nat \<Rightarrow> i64" where
  "hoard_read p hs = (case h_load p hs of None \<Rightarrow> (\<lambda>_. 0) | Some h \<Rightarrow> hoard_at h)"

text \<open>
  A write of \<open>n\<close> elements at \<open>off\<close> fits: either the vector is long enough, or the
  size \<open>put\<close> asks for is one a vector can have and the allocator grants it.
\<close>

definition hoard_fits :: "ptr \<Rightarrow> Hoard heap \<Rightarrow> nat \<Rightarrow> nat \<Rightarrow> bool" where
  "hoard_fits p hs n off \<longleftrightarrow> off + n \<le> hoard_size p hs
     \<or> (hoard_size p hs + off + n) * 2 \<le> vector_max_size \<and> grants hs (brk hs)"

lemma hoard_NULL [simp]:
  "\<not> hoard_ok NULL hs" "hoard_size NULL hs = 0" "hoard_put NULL src n off hs = None"
  "hoard_get NULL dest n off hs = None"
  by (simp_all add: hoard_ok_def hoard_size_def hoard_put_def Hoard_put_def hoard_get_def Hoard_get_def)

lemma vector_max_less: "x \<le> vector_max_size \<Longrightarrow> x < 2 ^ 64"
  by (simp add: vector_max_size_def)

lemma Hoard_resize_ok:
  assumes h: "h_load p hs = Some h" and l: "length (m_hoard h) < unat n" "unat n \<le> vector_max_size"
    and g: "grants hs (brk hs)"
  shows "Hoard_resize p n hs = Some (hs\<lparr>cells := (cells hs)
      (the p \<mapsto> h\<lparr>m_hoard := m_hoard h @ replicate (unat n - length (m_hoard h)) 0\<rparr>), brk := Suc (brk hs)\<rparr>)"
  using assms by (cases p) (auto simp: Hoard_resize_def h_request_def h_update_def Let_def)

text \<open>The vector \<open>put\<close> writes into.\<close>

definition grown :: "i64 list \<Rightarrow> nat \<Rightarrow> i64 list" where
  "grown v need = (if need \<le> length v then v else v @ replicate ((length v + need) * 2 - length v) 0)"

lemma length_grown: "length v \<le> length (grown v need)" "need \<le> length (grown v need)"
  by (auto simp: grown_def)

lemma nth_grown: "j < length (grown v need) \<Longrightarrow> grown v need ! j = (if j < length v then v ! j else 0)"
  by (auto simp: grown_def nth_append split: if_splits)

text \<open>Functional behaviour of \<open>put\<close>.\<close>

lemma hoard_put_ok:
  assumes ok: "hoard_ok p hs" and fits: "hoard_fits p hs (unat n) (unat off)" and src: "unat n \<le> length src"
  shows "\<exists>hs' h h'. hoard_put p src n off hs = Some (ucast n, hs') \<and> h_load p hs = Some h
     \<and> cells hs' = (cells hs)(the p \<mapsto> h') \<and> grants hs' = grants hs \<and> brk hs \<le> brk hs'
     \<and> m_hoard h' = take (unat off) (grown (m_hoard h) (unat off + unat n)) @ take (unat n) src
                    @ drop (unat off + unat n) (grown (m_hoard h) (unat off + unat n))
     \<and> length (m_hoard h') \<le> vector_max_size"
proof -
  from ok obtain a h where p: "p = Some a" and h: "cells hs a = Some h"
    and lv: "length (m_hoard h) \<le> vector_max_size" by (cases p) (auto simp: hoard_ok_def)
  define v where "v = m_hoard h"
  define g where "g = grown v (unat off + unat n)"
  have sz: "hoard_size p hs = length v" using p h by (simp add: hoard_size_def v_def)
  have lt: "unat off + unat n < 2 ^ 64" and lv': "length v < 2 ^ 64"
    using fits sz lv by (auto simp: hoard_fits_def v_def vector_max_size_def)
  have uon: "unat (off + n) = unat off + unat n" using lt by (simp add: unat_word_ariths)
  have cmp: "of_nat (length v) < off + n \<longleftrightarrow> length v < unat off + unat n"
    using lv' by (simp add: word_less_nat_alt uon unat_of_nat)
  have lg: "length g \<le> vector_max_size"
    using fits sz lv by (auto simp: g_def grown_def hoard_fits_def v_def)
  have pl: "put_loop (unat n) 0 off src g
      = Some (take (unat off) g @ take (unat n) src @ drop (unat off + unat n) g)"
    using put_loop_ok [of 0 "unat n" src off g] src vector_max_less [OF lg]
      length_grown(2) [of "unat off + unat n" v] by (simp add: g_def)
  define g' where "g' = take (unat off) g @ take (unat n) src @ drop (unat off + unat n) g"
  have lg': "length g' = length g"
    using src length_grown(2) [of "unat off + unat n" v] by (simp add: g'_def g_def)
  obtain hs1 where hs1: "(if of_nat (length v) < off + n
      then Hoard_resize p ((of_nat (length v) + off + n) * 2) hs else Some hs) = Some hs1"
    "cells hs1 = (cells hs)(a \<mapsto> h\<lparr>m_hoard := g\<rparr>)" "grants hs1 = grants hs" "brk hs \<le> brk hs1"
  proof (cases "length v < unat off + unat n")
    case True
    then have mx: "(length v + unat off + unat n) * 2 \<le> vector_max_size" and gr: "grants hs (brk hs)"
      using fits sz by (auto simp: hoard_fits_def)
    have "(of_nat (length v) + off + n) * 2 = (of_nat ((length v + unat off + unat n) * 2) :: u64)"
      by simp
    moreover have "(length v + unat off + unat n) * 2 < 2 ^ LENGTH(64)"
      using vector_max_less [OF mx] by simp
    ultimately have un: "unat ((of_nat (length v) + off + n) * 2) = (length v + unat off + unat n) * 2"
      by (simp only: unat_of_nat_lt)
    define hs2 where "hs2 = hs\<lparr>cells := (cells hs)
        (a \<mapsto> h\<lparr>m_hoard := v @ replicate ((length v + unat off + unat n) * 2 - length v) 0\<rparr>),
         brk := Suc (brk hs)\<rparr>"
    have R: "Hoard_resize p ((of_nat (length v) + off + n) * 2) hs = Some hs2"
    proof -
      have "x < (x + y + z) * 2" if "x < y + z" for x y z :: nat using that by presburger
      then have "length (m_hoard h) < unat ((of_nat (length v) + off + n) * 2)"
        unfolding un v_def [symmetric] using True by blast
      moreover have "unat ((of_nat (length v) + off + n) * 2) \<le> vector_max_size"
        unfolding un by (rule mx)
      moreover note gr
      ultimately show ?thesis
        using Hoard_resize_ok [of p hs h "(of_nat (length v) + off + n) * 2"] p h
        unfolding un v_def [symmetric] hs2_def by simp
    qed
    have gg: "g = v @ replicate ((length v + unat off + unat n) * 2 - length v) 0"
      using True by (simp add: g_def grown_def add.assoc)
    show thesis
    proof (rule that [of hs2])
      show "(if of_nat (length v) < off + n
          then Hoard_resize p ((of_nat (length v) + off + n) * 2) hs else Some hs) = Some hs2"
        using R True cmp by presburger
    qed (simp_all add: hs2_def gg)
  next
    case False
    then have "g = m_hoard h" by (simp add: g_def grown_def v_def)
    then show thesis using False cmp h by (intro that [of hs]) auto
  qed
  have "hoard_put p src n off hs
      = Some (ucast n, hs1\<lparr>cells := (cells hs1)(a \<mapsto> h\<lparr>m_hoard := g'\<rparr>)\<rparr>)"
  proof -
    have "h_load p hs = Some h" using p h by simp
    then show ?thesis
      unfolding hoard_put_def Hoard_put_def
      by (simp only: bind.bind_lunit v_def [symmetric] hs1(1)) (simp add: p hs1(2) pl g'_def)
  qed
  then show ?thesis
    using hs1(2-4) p h lg lg' by (auto simp: g'_def g_def v_def)
qed

lemma hoard_get_ok:
  assumes ok: "hoard_ok p hs" and i: "unat off + unat n \<le> hoard_size p hs" and d: "unat n \<le> length dest"
  shows "hoard_get p dest n off hs
    = Some (ucast n, map (hoard_read p hs) [unat off..<unat off + unat n] @ drop (unat n) dest)"
proof -
  from ok obtain h where h: "h_load p hs = Some h" and lv: "length (m_hoard h) \<le> vector_max_size"
    by (auto simp: hoard_ok_def)
  then have i': "unat off + unat n \<le> length (m_hoard h)" using i by (simp add: hoard_size_def)
  have "take (unat n) (drop (unat off) (m_hoard h)) = map (hoard_read p hs) [unat off..<unat off + unat n]"
    using i' h by (intro nth_equalityI) (auto simp: hoard_read_def hoard_at_def)
  then show ?thesis
    using get_loop_ok [of off 0 "unat n" "m_hoard h" dest] i' d vector_max_less [OF lv] h
    by (simp add: hoard_get_def Hoard_get_def)
qed

text \<open>The effect of \<open>put\<close> on the array the object stands for.\<close>

lemma hoard_put_read:
  assumes ok: "hoard_ok p hs" and fits: "hoard_fits p hs (unat n) (unat off)" and src: "unat n \<le> length src"
  shows "\<exists>hs'. hoard_put p src n off hs = Some (ucast n, hs') \<and> hoard_ok p hs'
     \<and> max (hoard_size p hs) (unat off + unat n) \<le> hoard_size p hs'
     \<and> hoard_read p hs' = (\<lambda>j. if unat off \<le> j \<and> j < unat off + unat n then src ! (j - unat off)
                               else hoard_read p hs j)
     \<and> (\<forall>q. q \<noteq> the p \<longrightarrow> cells hs' q = cells hs q) \<and> grants hs' = grants hs \<and> brk hs \<le> brk hs'"
proof -
  from hoard_put_ok [OF assms] obtain hs' h h' where r: "hoard_put p src n off hs = Some (ucast n, hs')"
    "h_load p hs = Some h" "cells hs' = (cells hs)(the p \<mapsto> h')" "grants hs' = grants hs" "brk hs \<le> brk hs'"
    "length (m_hoard h') \<le> vector_max_size"
    and c: "m_hoard h' = take (unat off) (grown (m_hoard h) (unat off + unat n)) @ take (unat n) src
                    @ drop (unat off + unat n) (grown (m_hoard h) (unat off + unat n))" by blast
  obtain a where p: "p = Some a" using r(2) by (cases p) auto
  have l: "h_load p hs' = Some h'" using p r(3) by simp
  define g where "g = grown (m_hoard h) (unat off + unat n)"
  have gl: "length (m_hoard h) \<le> length g" "unat off + unat n \<le> length g"
    by (simp_all add: g_def length_grown)
  have gn: "g ! j = hoard_at h j" if "j < length g" for j
    using that by (simp add: g_def nth_grown hoard_at_def)
  have out: "hoard_at h j = 0" if "length g \<le> j" for j
    using that gl(1) by (simp add: hoard_at_def)
  have len: "length (m_hoard h') = length g"
    using src gl(2) unfolding c g_def [symmetric] by simp
  have "hoard_at h' j = (if unat off \<le> j \<and> j < unat off + unat n then src ! (j - unat off)
      else hoard_at h j)" for j
  proof (cases "j < length g")
    case True
    have "m_hoard h' ! j = (if unat off \<le> j \<and> j < unat off + unat n then src ! (j - unat off) else g ! j)"
      using src gl(2) True unfolding c g_def [symmetric] by (auto simp: nth_append)
    then show ?thesis using True gn len unfolding hoard_at_def [of h'] by simp
  next
    case False
    then show ?thesis using gl(2) len out [of j] unfolding hoard_at_def [of h'] by auto
  qed
  then have "hoard_read p hs' = (\<lambda>j. if unat off \<le> j \<and> j < unat off + unat n then src ! (j - unat off)
                               else hoard_read p hs j)"
    using l r(2) by (simp add: hoard_read_def fun_eq_iff)
  moreover have "max (hoard_size p hs) (unat off + unat n) \<le> hoard_size p hs'"
    using l r(2) gl len by (simp add: hoard_size_def)
  moreover have "hoard_ok p hs'" using l r(6) by (simp add: hoard_ok_def)
  ultimately show ?thesis using r(1,3-5) p by auto
qed

section \<open>Bounds\<close>

text \<open>
  \<open>get\<close> has no bounds check of its own: it is defined exactly when the elements
  read are inside the vector and the buffer has room for them.
\<close>

lemma hoard_get_defined:
  assumes ok: "hoard_ok p hs" and n: "0 < unat n"
  shows "hoard_get p dest n off hs \<noteq> None
     \<longleftrightarrow> unat off + unat n \<le> hoard_size p hs \<and> unat n \<le> length dest"
proof
  from ok obtain h where h: "h_load p hs = Some h" and lv: "length (m_hoard h) \<le> vector_max_size"
    by (auto simp: hoard_ok_def)
  assume "hoard_get p dest n off hs \<noteq> None"
  then obtain d where d: "get_loop (unat n) 0 off (m_hoard h) dest = Some d"
    using h by (auto simp: hoard_get_def Hoard_get_def bind_Some_iff)
  note ix = get_loop_index [OF d]
  have "unat off + j < length (m_hoard h)" if "j < unat n" for j
    using that
  proof (induction j)
    case 0
    with ix [of 0] show ?case by simp
  next
    case (Suc j)
    then have "unat off + Suc j < 2 ^ 64" using lv by (simp add: vector_max_size_def)
    then have "unat (off + of_nat (0 + Suc j)) = unat off + Suc j"
      by (subst unat_word_ariths) (simp add: unat_of_nat del: of_nat_Suc)
    with ix [OF Suc.prems] show ?case by simp
  qed
  from this [of "unat n - 1"] ix [of "unat n - 1"] n
  show "unat off + unat n \<le> hoard_size p hs \<and> unat n \<le> length dest"
    using h by (auto simp: hoard_size_def)
next
  assume "unat off + unat n \<le> hoard_size p hs \<and> unat n \<le> length dest"
  with hoard_get_ok [OF ok] show "hoard_get p dest n off hs \<noteq> None" by simp
qed

lemma Hoard_resize_bound:
  assumes "Hoard_resize p n hs = Some hs'" and "hoard_ok p hs"
  shows "\<exists>h'. h_load p hs' = Some h' \<and> length (m_hoard h') \<le> vector_max_size"
  using assms
  by (cases p) (auto simp: Hoard_resize_def hoard_ok_def bind_Some_iff h_request_def h_update_def
      Let_def split: if_splits)

lemma put_loop_length: "put_loop n i off src v = Some v' \<Longrightarrow> length v' = length v"
  by (induction n i off src v rule: put_loop.induct) (auto simp: bind_Some_iff arr_set_eq_Some)

lemma get_loop_length: "get_loop n i off v dest = Some d \<Longrightarrow> length d = length dest"
  by (induction n i off v dest rule: get_loop.induct) (auto simp: bind_Some_iff arr_set_eq_Some)

lemma Hoard_resize_frame:
  assumes "Hoard_resize p n hs = Some hs'"
  shows "\<exists>a h'. p = Some a \<and> cells hs' = (cells hs)(a \<mapsto> h') \<and> cells hs a \<noteq> None
     \<and> (heap_wf hs \<longrightarrow> heap_wf hs')"
  using assms
  by (cases p) (auto simp: Hoard_resize_def bind_Some_iff h_request_def h_update_def heap_wf_def
      Let_def split: if_splits)

text \<open>Whatever \<open>put\<close> does, it does to its own object, which stays a vector.\<close>

lemma hoard_put_frame:
  assumes ok: "hoard_ok p hs" and r: "hoard_put p src n off hs = Some (k, hs')"
  shows "hoard_ok p hs' \<and> (\<forall>q. p \<noteq> Some q \<longrightarrow> cells hs' q = cells hs q) \<and> (heap_wf hs \<longrightarrow> heap_wf hs')
     \<and> k = ucast n"
proof -
  from ok obtain a h where p: "p = Some a" and h: "cells hs a = Some h" "length (m_hoard h) \<le> vector_max_size"
    by (cases p) (auto simp: hoard_ok_def)
  from r p h(1) obtain hs1 h1 v where hs1: "(if of_nat (length (m_hoard h)) < off + n
      then Hoard_resize p ((of_nat (length (m_hoard h)) + off + n) * 2) hs else Some hs) = Some hs1"
    and l: "cells hs1 a = Some h1" and v: "put_loop (unat n) 0 off src (m_hoard h1) = Some v"
    and hs': "h_update p (\<lambda>h. h\<lparr>m_hoard := v\<rparr>) hs1 = Some hs'" "k = ucast n"
    unfolding hoard_put_def Hoard_put_def bind_Some_iff by auto
  have "length (m_hoard h1) \<le> vector_max_size \<and> (\<forall>q. q \<noteq> a \<longrightarrow> cells hs1 q = cells hs q)
      \<and> (heap_wf hs \<longrightarrow> heap_wf hs1)"
  proof (cases "of_nat (length (m_hoard h)) < off + n")
    case True
    with hs1 have R: "Hoard_resize p ((of_nat (length (m_hoard h)) + off + n) * 2) hs = Some hs1"
      by presburger
    show ?thesis using Hoard_resize_bound [OF R ok] Hoard_resize_frame [OF R] l p by auto
  next
    case False
    with hs1 l h show ?thesis by auto
  qed
  moreover have "cells hs' = (cells hs1)(a \<mapsto> h1\<lparr>m_hoard := v\<rparr>)" "brk hs' = brk hs1"
    using hs'(1) l p by auto
  moreover have "length v = length (m_hoard h1)" by (rule put_loop_length [OF v])
  ultimately show ?thesis
    using p hs'(2) l heap_wf_update [OF _ hs'(1)] by (auto simp: hoard_ok_def)
qed

text \<open>
  A \<open>put\<close> whose \<open>offset+count\<close> exceeds \<open>SIZE_MAX\<close> is never defined, although the
  wrapped sum can pass the size check: some index lies outside every vector.
\<close>

lemma hoard_put_no_wrap:
  assumes ok: "hoard_ok p hs" and n: "0 < unat n" and r: "hoard_put p src n off hs = Some r"
  shows "unat off + unat n \<le> vector_max_size" and "unat n \<le> length src"
proof -
  from ok obtain h where h: "h_load p hs = Some h" "length (m_hoard h) \<le> vector_max_size"
    by (auto simp: hoard_ok_def)
  from r h(1) obtain hs1 h1 v where hs1: "(if of_nat (length (m_hoard h)) < off + n
      then Hoard_resize p ((of_nat (length (m_hoard h)) + off + n) * 2) hs else Some hs) = Some hs1"
    and l: "h_load p hs1 = Some h1" and v: "put_loop (unat n) 0 off src (m_hoard h1) = Some v"
    unfolding hoard_put_def Hoard_put_def bind_Some_iff by auto
  have h1: "length (m_hoard h1) \<le> vector_max_size"
  proof (cases "of_nat (length (m_hoard h)) < off + n")
    case True
    with hs1 have "Hoard_resize p ((of_nat (length (m_hoard h)) + off + n) * 2) hs = Some hs1"
      by presburger
    from Hoard_resize_bound [OF this ok] l show ?thesis by auto
  next
    case False
    with hs1 l h show ?thesis by auto
  qed
  note ix = put_loop_index [OF v]
  have "unat off + j < vector_max_size" if "j < unat n" for j
    using that
  proof (induction j)
    case 0
    with ix [of 0] h1 show ?case by simp
  next
    case (Suc j)
    then have "unat off + Suc j < 2 ^ 64" by (simp add: vector_max_size_def)
    then have "unat (off + of_nat (0 + Suc j)) = unat off + Suc j"
      by (subst unat_word_ariths) (simp add: unat_of_nat del: of_nat_Suc)
    with ix [OF Suc.prems] h1 show ?case by simp
  qed
  from this [of "unat n - 1"] ix [of "unat n - 1"] n
  show "unat off + unat n \<le> vector_max_size" "unat n \<le> length src" by auto
qed

text \<open>A write that comes back fitted.\<close>

lemma hoard_put_fits:
  assumes ok: "hoard_ok p hs" and n: "0 < unat n" and r: "hoard_put p src n off hs = Some r"
  shows "hoard_fits p hs (unat n) (unat off)"
proof (cases "unat off + unat n \<le> hoard_size p hs")
  case False
  obtain h where h: "h_load p hs = Some h" "length (m_hoard h) \<le> vector_max_size"
    using ok by (auto simp: hoard_ok_def)
  let ?l = "length (m_hoard h)"
  let ?m = "(of_nat ?l + off + n) * 2 :: u64"
  note w = hoard_put_no_wrap [OF ok n r]
  have l: "?l < unat off + unat n" using False h(1) by (simp add: hoard_size_def)
  have on: "unat (off + n) = unat off + unat n"
    using w(1) by (simp add: unat_word_ariths vector_max_size_def)
  have m: "unat ?m = (?l + unat off + unat n) * 2"
    using w(1) h(2) by (simp add: unat_word_ariths unat_of_nat vector_max_size_def)
  have "(of_nat ?l :: u64) < off + n"
    using l on h(2) by (simp add: word_less_nat_alt unat_of_nat vector_max_size_def)
  with r h(1) obtain hs1 where "Hoard_resize p ?m hs = Some hs1"
    by (auto simp: hoard_put_def Hoard_put_def bind_Some_iff)
  then have "unat ?m \<le> vector_max_size \<and> grants hs (brk hs)"
    using h(1) l m by (auto simp: Hoard_resize_def h_request_def Let_def split: if_splits)
  then show ?thesis using m h(1) by (simp add: hoard_fits_def hoard_size_def)
qed (simp add: hoard_fits_def)

text \<open>The same for a write of no element whose offset is too small for the size to wrap around.\<close>

lemma hoard_put_none_fits:
  assumes ok: "hoard_ok p hs" and off: "unat off < 2 ^ 62" and r: "hoard_put p src 0 off hs = Some r"
  shows "hoard_fits p hs 0 (unat off)"
proof (cases "unat off \<le> hoard_size p hs")
  case False
  obtain h where h: "h_load p hs = Some h" "length (m_hoard h) \<le> vector_max_size"
    using ok by (auto simp: hoard_ok_def)
  let ?l = "length (m_hoard h)"
  let ?m = "(of_nat ?l + off) * 2 :: u64"
  have l: "?l < unat off" using False h(1) by (simp add: hoard_size_def)
  have m: "unat ?m = (?l + unat off) * 2"
    using off h(2) by (simp add: unat_word_ariths unat_of_nat vector_max_size_def)
  have "(of_nat ?l :: u64) < off"
    using l h(2) by (simp add: word_less_nat_alt unat_of_nat vector_max_size_def)
  with r h(1) obtain hs1 where "Hoard_resize p ?m hs = Some hs1"
    by (auto simp: hoard_put_def Hoard_put_def bind_Some_iff)
  then have "unat ?m \<le> vector_max_size \<and> grants hs (brk hs)"
    using h(1) l m by (auto simp: Hoard_resize_def h_request_def Let_def split: if_splits)
  then show ?thesis using m h(1) by (simp add: hoard_fits_def hoard_size_def)
qed (simp add: hoard_fits_def)

lemma hoard_put_none:
  assumes ok: "hoard_ok p hs" and off: "unat off < 2 ^ 62" and r: "hoard_put p src 0 off hs = Some r"
  shows "\<exists>hs'. r = (0, hs') \<and> hoard_read p hs' = hoard_read p hs
    \<and> (\<forall>q. q \<noteq> the p \<longrightarrow> cells hs' q = cells hs q)"
proof -
  have "hoard_fits p hs (unat (0 :: u64)) (unat off)" using hoard_put_none_fits [OF ok off r] by simp
  from hoard_put_read [OF ok this, of src] obtain hs' where hs': "hoard_put p src 0 off hs = Some (0, hs')"
    "hoard_read p hs' = (\<lambda>j. if unat off \<le> j \<and> j < unat off + unat (0 :: u64) then src ! (j - unat off)
        else hoard_read p hs j)"
    "\<forall>q. q \<noteq> the p \<longrightarrow> cells hs' q = cells hs q" by auto
  moreover have "hoard_read p hs' = hoard_read p hs" unfolding hs'(2) by (rule ext) auto
  ultimately show ?thesis using r by auto
qed

text \<open>
  The size that \<open>put\<close> asks for wraps around.  A write of no element whose offset is \<open>k\<close>
  below \<open>2 ^ 63\<close> asks for \<open>2 * (size - k)\<close> elements: it cuts the vector, and the data behind
  the cut is lost.
\<close>

lemma hoard_put_zero_cuts:
  assumes ok: "hoard_ok p hs" and k: "k \<le> hoard_size p hs" "hoard_size p hs \<le> 2 * k"
  shows "\<exists>hs'. hoard_put p src 0 (of_nat (2 ^ 63 - k)) hs = Some (0, hs')
     \<and> hoard_size p hs' = 2 * (hoard_size p hs - k)
     \<and> hoard_read p hs' = (\<lambda>j. if j < 2 * (hoard_size p hs - k) then hoard_read p hs j else 0)
     \<and> grants hs' = grants hs \<and> (\<forall>q. q \<noteq> the p \<longrightarrow> cells hs' q = cells hs q)"
proof -
  obtain a h where p: "p = Some a" and h: "cells hs a = Some h" "length (m_hoard h) \<le> vector_max_size"
    using ok by (cases p) (auto simp: hoard_ok_def)
  let ?l = "length (m_hoard h)"
  let ?off = "of_nat (2 ^ 63 - k) :: u64"
  have sz: "hoard_size p hs = ?l" using p h(1) by (simp add: hoard_size_def)
  have kl: "k \<le> ?l" "?l \<le> 2 * k" using k sz by simp_all
  have off: "unat ?off = 2 ^ 63 - k" by (simp add: unat_of_nat)
  have lt: "(of_nat ?l :: u64) < ?off"
    using kl h(2) off by (simp add: word_less_nat_alt unat_of_nat vector_max_size_def)
  have len64: "LENGTH(64) = 64" by simp
  have "(of_nat ?l + ?off) * 2 = (of_nat ((?l + (2 ^ 63 - k)) * 2) :: u64)" by simp
  then have "unat ((of_nat ?l + ?off) * 2 :: u64) = (?l + (2 ^ 63 - k)) * 2 mod 2 ^ 64"
    by (simp only: unat_of_nat len64)
  also have "(?l + (2 ^ 63 - k)) * 2 = 2 ^ 64 + 2 * (?l - k)"
    using kl h(2) by (simp add: vector_max_size_def)
  finally have m: "unat ((of_nat ?l + ?off) * 2 :: u64) = 2 * (?l - k)"
    using kl h(2) by (simp add: vector_max_size_def)
  let ?h = "h\<lparr>m_hoard := take (2 * (?l - k)) (m_hoard h)\<rparr>"
  let ?hs = "hs\<lparr>cells := (cells hs)(a \<mapsto> ?h)\<rparr>"
  have "2 * (?l - k) \<le> ?l" using kl by linarith
  then have "hoard_put p src 0 ?off hs = Some (0, ?hs)"
    using p h(1) lt m by (simp add: hoard_put_def Hoard_put_def Hoard_resize_def Let_def)
  moreover have "hoard_read p ?hs = (\<lambda>j. if j < 2 * (?l - k) then hoard_read p hs j else 0)"
    using p h(1) kl by (auto simp: hoard_read_def hoard_at_def fun_eq_iff)
  moreover have "hoard_size p ?hs = 2 * (?l - k)"
    using p kl by (simp add: hoard_size_def)
  ultimately show ?thesis using sz p by (intro exI [of _ ?hs]) simp
qed

section \<open>Reads after writes\<close>

text \<open>
  A store of positions that grows on writes.  \<open>rd s\<close> is the array of all positions,
  \<open>sz s\<close> the part a read may touch, \<open>fits s n off\<close> the writes that succeed.
\<close>

locale flat_store =
  fixes ok :: "'s \<Rightarrow> bool"
    and sz :: "'s \<Rightarrow> nat"
    and rd :: "'s \<Rightarrow> nat \<Rightarrow> 'v"
    and fits :: "'s \<Rightarrow> nat \<Rightarrow> nat \<Rightarrow> bool"
    and put :: "'v list \<Rightarrow> nat \<Rightarrow> 's \<Rightarrow> 's option"
    and get :: "nat \<Rightarrow> nat \<Rightarrow> 's \<Rightarrow> 'v list option"
  assumes put_law: "ok s \<Longrightarrow> fits s (length xs) off \<Longrightarrow> \<exists>s'. put xs off s = Some s' \<and> ok s'
      \<and> max (sz s) (off + length xs) \<le> sz s'
      \<and> rd s' = (\<lambda>j. if off \<le> j \<and> j < off + length xs then xs ! (j - off) else rd s j)"
    and get_law: "ok s \<Longrightarrow> off + n \<le> sz s \<Longrightarrow> get n off s = Some (map (rd s) [off..<off + n])"
begin

lemma get_put:
  assumes "ok s" and "fits s (length xs) off"
  shows "\<exists>s'. put xs off s = Some s' \<and> ok s' \<and> get (length xs) off s' = Some xs"
proof -
  from put_law [OF assms] obtain s' where s': "put xs off s = Some s'" "ok s'"
    "max (sz s) (off + length xs) \<le> sz s'"
    "rd s' = (\<lambda>j. if off \<le> j \<and> j < off + length xs then xs ! (j - off) else rd s j)" by blast
  have "map (rd s') [off..<off + length xs] = xs"
    by (intro nth_equalityI) (auto simp: s'(4))
  then show ?thesis using s' get_law [of s' off "length xs"] by auto
qed

lemma get_put_disjoint:
  assumes "ok s" and "fits s (length xs) off" and "off' + n \<le> sz s"
    and "off' + n \<le> off \<or> off + length xs \<le> off'"
  shows "\<exists>s'. put xs off s = Some s' \<and> ok s' \<and> get n off' s' = get n off' s"
proof -
  from put_law [OF assms(1,2)] obtain s' where s': "put xs off s = Some s'" "ok s'"
    "max (sz s) (off + length xs) \<le> sz s'"
    "rd s' = (\<lambda>j. if off \<le> j \<and> j < off + length xs then xs ! (j - off) else rd s j)" by blast
  have "map (rd s') [off'..<off' + n] = map (rd s) [off'..<off' + n]"
    using assms(4) by (auto simp: s'(4))
  then show ?thesis using s' get_law [OF assms(1,3)] get_law [of s' off' n] assms(3) by auto
qed

lemma put_put_commute:
  assumes "ok s" and "fits s (length xs) off" and "fits s (length ys) off'"
    and d: "off' + length ys \<le> off \<or> off + length xs \<le> off'"
    and f: "\<And>s'. put xs off s = Some s' \<Longrightarrow> fits s' (length ys) off'"
      "\<And>s'. put ys off' s = Some s' \<Longrightarrow> fits s' (length xs) off"
  shows "\<exists>s1 s2 s1' s2'. put xs off s = Some s1 \<and> put ys off' s1 = Some s2
     \<and> put ys off' s = Some s1' \<and> put xs off s1' = Some s2' \<and> rd s2 = rd s2'"
proof -
  from put_law [OF assms(1,2)] obtain s1 where s1: "put xs off s = Some s1" "ok s1"
    "rd s1 = (\<lambda>j. if off \<le> j \<and> j < off + length xs then xs ! (j - off) else rd s j)" by blast
  from put_law [OF s1(2) f(1) [OF s1(1)]] obtain s2 where s2: "put ys off' s1 = Some s2"
    "rd s2 = (\<lambda>j. if off' \<le> j \<and> j < off' + length ys then ys ! (j - off') else rd s1 j)" by blast
  from put_law [OF assms(1,3)] obtain s1' where s1': "put ys off' s = Some s1'" "ok s1'"
    "rd s1' = (\<lambda>j. if off' \<le> j \<and> j < off' + length ys then ys ! (j - off') else rd s j)" by blast
  from put_law [OF s1'(2) f(2) [OF s1'(1)]] obtain s2' where s2': "put xs off s1' = Some s2'"
    "rd s2' = (\<lambda>j. if off \<le> j \<and> j < off + length xs then xs ! (j - off) else rd s1' j)" by blast
  have "rd s2 = rd s2'" using d by (auto simp: s1 s2 s1' s2' fun_eq_iff)
  with s1 s2 s1' s2' show ?thesis by blast
qed

end

text \<open>The calls of the C interface, with the caller's buffers as lists.\<close>

definition hoard_store :: "ptr \<Rightarrow> i64 list \<Rightarrow> nat \<Rightarrow> Hoard heap \<Rightarrow> Hoard heap option" where
  "hoard_store p xs off hs = map_option snd (hoard_put p xs (of_nat (length xs)) (of_nat off) hs)"

definition hoard_fetch :: "ptr \<Rightarrow> nat \<Rightarrow> nat \<Rightarrow> Hoard heap \<Rightarrow> i64 list option" where
  "hoard_fetch p n off hs = map_option snd (hoard_get p (replicate n 0) (of_nat n) (of_nat off) hs)"

lemma hoard_fits_less:
  assumes "hoard_ok p hs" and "hoard_fits p hs n off"
  shows "n < 2 ^ LENGTH(64)" "off < 2 ^ LENGTH(64)"
  using assms
  by (auto simp: hoard_fits_def hoard_ok_def hoard_size_def vector_max_size_def)

text \<open>A store of at least one element that comes back fitted; the bounds are those of \<open>size_t\<close>.\<close>

lemma hoard_store_fits:
  assumes ok: "hoard_ok p hs" and "xs \<noteq> []" and b: "length xs < 2 ^ LENGTH(64)" "off < 2 ^ LENGTH(64)"
    and r: "hoard_store p xs off hs = Some hs'"
  shows "hoard_fits p hs (length xs) off"
proof -
  have u: "unat (of_nat (length xs) :: u64) = length xs" "unat (of_nat off :: u64) = off"
    using b by (simp_all only: unat_of_nat_lt)
  from r obtain k where "hoard_put p xs (of_nat (length xs)) (of_nat off) hs = Some (k, hs')"
    by (auto simp: hoard_store_def)
  from hoard_put_fits [OF ok _ this] \<open>xs \<noteq> []\<close> show ?thesis unfolding u by simp
qed

interpretation hd: flat_store "hoard_ok p" "hoard_size p" "hoard_read p" "hoard_fits p"
  "hoard_store p" "hoard_fetch p" for p
proof
  fix hs :: "Hoard heap" and xs :: "i64 list" and off n :: nat
  assume ok: "hoard_ok p hs"
  show "\<exists>hs'. hoard_store p xs off hs = Some hs' \<and> hoard_ok p hs'
      \<and> max (hoard_size p hs) (off + length xs) \<le> hoard_size p hs'
      \<and> hoard_read p hs' = (\<lambda>j. if off \<le> j \<and> j < off + length xs then xs ! (j - off)
                                else hoard_read p hs j)"
    if f: "hoard_fits p hs (length xs) off"
  proof -
    have u: "unat (of_nat (length xs) :: u64) = length xs" "unat (of_nat off :: u64) = off"
      using hoard_fits_less [OF ok f] by (simp_all only: unat_of_nat_lt)
    show ?thesis
      using hoard_put_read [OF ok, of "of_nat (length xs)" "of_nat off" xs] f
      unfolding u hoard_store_def by auto
  qed
  show "hoard_fetch p n off hs = Some (map (hoard_read p hs) [off..<off + n])"
    if "off + n \<le> hoard_size p hs"
  proof -
    have "off + n < 2 ^ LENGTH(64)"
      using that ok by (auto simp: hoard_ok_def hoard_size_def vector_max_size_def)
    then show ?thesis
      using hoard_get_ok [OF ok, of "of_nat off" "of_nat n" "replicate n 0"] that
      by (simp add: hoard_fetch_def unat_of_nat_lt)
  qed
qed

end
