(* ===== verification/Backend.thy ===== *)
theory Backend
  imports Common
begin

text \<open>
  \<open>include/cachercise/cachercise-backend.h\<close>: a backend is a named structure of
  function pointers.  Here it is a record of functions over the state \<open>'w\<close> the
  backends work on; a context is the \<open>void*\<close> a backend hands out, a provider the
  pointer it is given.  The locale \<open>backends\<close> is the contract the provider relies
  on: every registered backend keeps the set of open contexts up to date.
\<close>

section \<open>The structure\<close>

text \<open>
  \<open>create_cache\<close> and \<open>open_cache\<close> take the initial value of \<open>*context\<close> and return
  the value they leave there; \<open>io\<close> takes and returns the objects \<open>scratch\<close> points to.
\<close>

record 'w cachercise_backend_impl =
  name :: string
  create_cache :: "ptr \<Rightarrow> string option \<Rightarrow> ptr \<Rightarrow> 'w \<Rightarrow> (cachercise_return_t \<times> ptr \<times> 'w) option"
  open_cache :: "ptr \<Rightarrow> string option \<Rightarrow> ptr \<Rightarrow> 'w \<Rightarrow> (cachercise_return_t \<times> ptr \<times> 'w) option"
  close_cache :: "ptr \<Rightarrow> 'w \<Rightarrow> (cachercise_return_t \<times> 'w) option"
  destroy_cache :: "ptr \<Rightarrow> 'w \<Rightarrow> (cachercise_return_t \<times> 'w) option"
  hello :: "ptr \<Rightarrow> 'w \<Rightarrow> 'w option"
  sum_fn :: "ptr \<Rightarrow> i32 \<Rightarrow> i32 \<Rightarrow> 'w \<Rightarrow> (i32 \<times> 'w) option"
  io :: "ptr \<Rightarrow> u64 \<Rightarrow> i64 \<Rightarrow> i64 list \<Rightarrow> i32 \<Rightarrow> 'w \<Rightarrow> (i64 \<times> i64 list \<times> 'w) option"

text \<open>What the provider keeps of a cache besides its id: \<open>fn\<close> and \<open>ctx\<close>.\<close>

type_synonym open_ctx = "ptr \<times> ptr"

section \<open>The contract\<close>

text \<open>
  \<open>W w C\<close>: in state \<open>w\<close> the open contexts are the pairs \<open>(fn, ctx)\<close> of \<open>C\<close>.
  \<open>impl f b\<close> says that the structure at \<open>f\<close> is the backend \<open>b\<close>; \<open>room w\<close> that
  the next creation gets the memory it needs.
\<close>

locale backends =
  fixes W :: "'w \<Rightarrow> open_ctx set \<Rightarrow> bool"
    and impl :: "ptr \<Rightarrow> 'w cachercise_backend_impl \<Rightarrow> bool"
    and room :: "'w \<Rightarrow> bool"
  assumes create_law: "W w C \<Longrightarrow> impl f b \<Longrightarrow> create_cache b p cfg NULL w = Some (r, c, w') \<Longrightarrow>
      if r = CACHERCISE_SUCCESS then (f, c) \<notin> C \<and> W w' (insert (f, c) C) else W w' C"
    and create_total: "W w C \<Longrightarrow> impl f b \<Longrightarrow> room w \<Longrightarrow> create_cache b p cfg NULL w \<noteq> None"
    and open_law: "W w C \<Longrightarrow> impl f b \<Longrightarrow> open_cache b p cfg NULL w = Some (r, c, w') \<Longrightarrow>
      if r = CACHERCISE_SUCCESS then (f, c) \<notin> C \<and> W w' (insert (f, c) C) else W w' C"
    and open_total: "W w C \<Longrightarrow> impl f b \<Longrightarrow> room w \<Longrightarrow> open_cache b p cfg NULL w \<noteq> None"
    and close_law: "W w C \<Longrightarrow> impl f b \<Longrightarrow> (f, c) \<in> C \<Longrightarrow>
      \<exists>r w'. close_cache b c w = Some (r, w') \<and> W w' (C - {(f, c)})"
    and destroy_law: "W w C \<Longrightarrow> impl f b \<Longrightarrow> (f, c) \<in> C \<Longrightarrow>
      \<exists>r w'. destroy_cache b c w = Some (r, w') \<and> W w' (C - {(f, c)})"
    and hello_law: "W w C \<Longrightarrow> impl f b \<Longrightarrow> (f, c) \<in> C \<Longrightarrow> \<exists>w'. hello b c w = Some w' \<and> W w' C"
    and sum_law: "W w C \<Longrightarrow> impl f b \<Longrightarrow> (f, c) \<in> C \<Longrightarrow> sum_fn b c x y w = Some (s, w') \<Longrightarrow> W w' C"
    and io_law: "W w C \<Longrightarrow> impl f b \<Longrightarrow> (f, c) \<in> C \<Longrightarrow> io b c n off buf k w = Some (t, buf', w')
      \<Longrightarrow> W w' C \<and> length buf' = length buf"

end
