(* ===== verification/Dummy_Backend.thy ===== *)
theory Dummy_Backend
  imports Hoard Backend
begin

text \<open>
  \<open>src/dummy/dummy-backend.c\<close>: the backend every provider registers.  A context
  holds a JSON configuration, a hoard and the mutex that serialises writes to it.

  json-c and Argobots are not part of the repository: their functions are the
  fields of \<open>ext\<close>, over a state \<open>'l\<close> of their own.  \<open>ext_ok\<close> names what the code
  relies on: objects and mutexes handed out are new, releasing a live one (or
  \<open>NULL\<close>) succeeds and nothing else changes.  The last section shows that the
  backend satisfies the contract \<open>backends\<close> of the provider.
\<close>

section \<open>The libraries\<close>

text \<open>
  \<open>json_parse\<close> is \<open>json_tokener_parse_ex\<close> on a tokener made for the call and freed
  after it, \<open>NULL\<close> when the text is not JSON.
\<close>

record 'l ext =
  json_parse :: "string \<Rightarrow> 'l \<Rightarrow> ptr \<times> 'l"
  json_object_new_object :: "'l \<Rightarrow> ptr \<times> 'l"
  json_object_put :: "ptr \<Rightarrow> 'l \<Rightarrow> 'l option"
  ABT_mutex_create :: "'l \<Rightarrow> ptr \<times> 'l"
  ABT_mutex_lock :: "ptr \<Rightarrow> 'l \<Rightarrow> 'l option"
  ABT_mutex_unlock :: "ptr \<Rightarrow> 'l \<Rightarrow> 'l option"
  ABT_mutex_free :: "ptr \<Rightarrow> 'l \<Rightarrow> 'l option"

section \<open>State\<close>

text \<open>\<open>ctx_h\<close> is the member \<open>h\<close> of the C structure.\<close>

record dummy_context =
  config :: ptr
  ctx_h :: ptr
  hoard_mutex :: ptr

record 'l dworld =
  ctxs :: "dummy_context heap"
  hoards :: "Hoard heap"
  lib :: 'l
  stdout :: "string list"

definition zero_context :: dummy_context where
  "zero_context = \<lparr>config = NULL, ctx_h = NULL, hoard_mutex = NULL\<rparr>"

section \<open>Operations\<close>

text \<open>
  The common first half of create and open: the configuration object, or
  \<open>None\<close> when the text does not parse.
\<close>

definition read_config :: "'l ext \<Rightarrow> string option \<Rightarrow> 'l \<Rightarrow> ptr option \<times> 'l" where
  "read_config e config_str l =
     (case config_str of
        Some s \<Rightarrow> (let (c, l) = json_parse e s l in (if c = NULL then None else Some c, l))
      | None \<Rightarrow> (let (c, l) = json_object_new_object e l in (Some c, l)))"

text \<open>The result of \<open>calloc\<close> is used unchecked: a refused request ends in a write through \<open>NULL\<close>.\<close>

definition dummy_create_cache ::
  "'l ext \<Rightarrow> ptr \<Rightarrow> string option \<Rightarrow> ptr \<Rightarrow> 'l dworld \<Rightarrow> (cachercise_return_t \<times> ptr \<times> 'l dworld) option" where
  "dummy_create_cache e provider config_str context w =
     (case read_config e config_str (lib w) of
        (None, l) \<Rightarrow> Some (CACHERCISE_ERR_INVALID_CONFIG, context, w\<lparr>lib := l\<rparr>)
      | (Some c, l) \<Rightarrow> do {
          let (ctx, cs) = h_alloc zero_context (ctxs w);
          cs \<leftarrow> h_update ctx (\<lambda>x. x\<lparr>config := c\<rparr>) cs;
          (hp, hs) \<leftarrow> hoard_init (hoards w);
          cs \<leftarrow> h_update ctx (\<lambda>x. x\<lparr>ctx_h := hp\<rparr>) cs;
          let (m, l) = ABT_mutex_create e l;
          cs \<leftarrow> h_update ctx (\<lambda>x. x\<lparr>hoard_mutex := m\<rparr>) cs;
          Some (CACHERCISE_SUCCESS, ctx, w\<lparr>ctxs := cs, hoards := hs, lib := l\<rparr>) })"

text \<open>\<open>dummy_open_cache\<close> sets up neither the hoard nor the mutex.\<close>

definition dummy_open_cache ::
  "'l ext \<Rightarrow> ptr \<Rightarrow> string option \<Rightarrow> ptr \<Rightarrow> 'l dworld \<Rightarrow> (cachercise_return_t \<times> ptr \<times> 'l dworld) option" where
  "dummy_open_cache e provider config_str context w =
     (case read_config e config_str (lib w) of
        (None, l) \<Rightarrow> Some (CACHERCISE_ERR_INVALID_CONFIG, context, w\<lparr>lib := l\<rparr>)
      | (Some c, l) \<Rightarrow> do {
          let (ctx, cs) = h_alloc zero_context (ctxs w);
          cs \<leftarrow> h_update ctx (\<lambda>x. x\<lparr>config := c\<rparr>) cs;
          Some (CACHERCISE_SUCCESS, ctx, w\<lparr>ctxs := cs, lib := l\<rparr>) })"

definition dummy_close_cache ::
  "'l ext \<Rightarrow> ptr \<Rightarrow> 'l dworld \<Rightarrow> (cachercise_return_t \<times> 'l dworld) option" where
  "dummy_close_cache e ctx w = do {
     x \<leftarrow> h_load ctx (ctxs w);
     l \<leftarrow> json_object_put e (config x) (lib w);
     hs \<leftarrow> hoard_finalize (ctx_h x) (hoards w);
     cs \<leftarrow> h_free ctx (ctxs w);
     Some (CACHERCISE_SUCCESS, w\<lparr>ctxs := cs, hoards := hs, lib := l\<rparr>) }"

definition dummy_destroy_cache ::
  "'l ext \<Rightarrow> ptr \<Rightarrow> 'l dworld \<Rightarrow> (cachercise_return_t \<times> 'l dworld) option" where
  "dummy_destroy_cache e ctx w = do {
     x \<leftarrow> h_load ctx (ctxs w);
     l \<leftarrow> json_object_put e (config x) (lib w);
     hs \<leftarrow> hoard_finalize (ctx_h x) (hoards w);
     l \<leftarrow> ABT_mutex_free e (hoard_mutex x) l;
     cs \<leftarrow> h_free ctx (ctxs w);
     Some (CACHERCISE_SUCCESS, w\<lparr>ctxs := cs, hoards := hs, lib := l\<rparr>) }"

definition dummy_say_hello :: "ptr \<Rightarrow> 'l dworld \<Rightarrow> 'l dworld option" where
  "dummy_say_hello ctx w = Some (w\<lparr>stdout := stdout w @ [''Hello World from Dummy cache'']\<rparr>)"

text \<open>\<open>x+y\<close> on \<open>int32_t\<close>: a sum outside the range is undefined.\<close>

definition dummy_compute_sum :: "ptr \<Rightarrow> i32 \<Rightarrow> i32 \<Rightarrow> 'l dworld \<Rightarrow> (i32 \<times> 'l dworld) option" where
  "dummy_compute_sum ctx x y w =
     (let s = sint x + sint y
      in if - (2 ^ 31) \<le> s \<and> s < 2 ^ 31 then Some (word_of_int s, w) else None)"

definition dummy_io ::
  "'l ext \<Rightarrow> ptr \<Rightarrow> u64 \<Rightarrow> i64 \<Rightarrow> i64 list \<Rightarrow> i32 \<Rightarrow> 'l dworld \<Rightarrow> (i64 \<times> i64 list \<times> 'l dworld) option" where
  "dummy_io e ctx n offset scratch kind w = do {
     context \<leftarrow> h_load ctx (ctxs w);
     if kind = CACHERCISE_WRITE
     then do {
       l \<leftarrow> ABT_mutex_lock e (hoard_mutex context) (lib w);
       (ret, hs) \<leftarrow> hoard_put (ctx_h context) scratch (n div 8) offset (hoards w);
       l \<leftarrow> ABT_mutex_unlock e (hoard_mutex context) l;
       Some (scast ret, scratch, w\<lparr>hoards := hs, lib := l\<rparr>) }
     else do {
       (ret, scratch) \<leftarrow> hoard_get (ctx_h context) scratch (n div 8) offset (hoards w);
       Some (scast ret, scratch, w) } }"

definition dummy_backend :: "'l ext \<Rightarrow> 'l dworld cachercise_backend_impl" where
  "dummy_backend e =
     \<lparr>name = ''dummy'',
      create_cache = dummy_create_cache e,
      open_cache = dummy_open_cache e,
      close_cache = dummy_close_cache e,
      destroy_cache = dummy_destroy_cache e,
      hello = dummy_say_hello,
      sum_fn = dummy_compute_sum,
      io = dummy_io e\<rparr>"


lemma dummy_backend_sel:
  "name (dummy_backend e) = ''dummy''" "create_cache (dummy_backend e) = dummy_create_cache e"
  "open_cache (dummy_backend e) = dummy_open_cache e" "close_cache (dummy_backend e) = dummy_close_cache e"
  "destroy_cache (dummy_backend e) = dummy_destroy_cache e" "hello (dummy_backend e) = dummy_say_hello"
  "sum_fn (dummy_backend e) = dummy_compute_sum" "io (dummy_backend e) = dummy_io e"
  by (simp_all add: dummy_backend_def)

section \<open>What the backend relies on\<close>

text \<open>\<open>jl\<close> and \<open>ml\<close> give the live JSON objects and the live mutexes of a library state.\<close>

definition creates :: "('l \<Rightarrow> addr set) \<Rightarrow> ('l \<Rightarrow> addr set) \<Rightarrow> ('l \<Rightarrow> ptr \<times> 'l) \<Rightarrow> bool" where
  "creates lv other f \<longleftrightarrow> (\<forall>l p l'. f l = (p, l') \<longrightarrow> other l' = other l
     \<and> (case p of None \<Rightarrow> lv l' = lv l | Some a \<Rightarrow> a \<notin> lv l \<and> lv l' = insert a (lv l)))"

definition releases :: "('l \<Rightarrow> addr set) \<Rightarrow> ('l \<Rightarrow> addr set) \<Rightarrow> (ptr \<Rightarrow> 'l \<Rightarrow> 'l option) \<Rightarrow> bool" where
  "releases lv other f \<longleftrightarrow> (\<forall>l. f NULL l = Some l) \<and>
     (\<forall>l a. a \<in> lv l \<longrightarrow> (\<exists>l'. f (Some a) l = Some l' \<and> lv l' = lv l - {a} \<and> other l' = other l))"

definition ext_ok :: "'l ext \<Rightarrow> ('l \<Rightarrow> addr set) \<Rightarrow> ('l \<Rightarrow> addr set) \<Rightarrow> bool" where
  "ext_ok e jl ml \<longleftrightarrow>
     (\<forall>s. creates jl ml (json_parse e s)) \<and> creates jl ml (json_object_new_object e)
   \<and> releases jl ml (json_object_put e)
   \<and> creates ml jl (ABT_mutex_create e) \<and> releases ml jl (ABT_mutex_free e)
   \<and> (\<forall>f \<in> {ABT_mutex_lock e, ABT_mutex_unlock e}. \<forall>p l. (\<forall>a. p = Some a \<longrightarrow> a \<in> ml l) \<longrightarrow>
        (\<exists>l'. f p l = Some l' \<and> jl l' = jl l \<and> ml l' = ml l))"

lemma createsD:
  assumes "creates lv other f" and "f l = (p, l')"
  shows "other l' = other l" and "p = None \<Longrightarrow> lv l' = lv l"
    and "p = Some a \<Longrightarrow> a \<notin> lv l \<and> lv l' = insert a (lv l)"
proof -
  from assms have "other l' = other l
      \<and> (case p of None \<Rightarrow> lv l' = lv l | Some a \<Rightarrow> a \<notin> lv l \<and> lv l' = insert a (lv l))"
    unfolding creates_def by blast
  then show "other l' = other l" and "p = None \<Longrightarrow> lv l' = lv l"
    and "p = Some a \<Longrightarrow> a \<notin> lv l \<and> lv l' = insert a (lv l)" by auto
qed

lemma releasesE:
  assumes "releases lv other f" and "\<And>a. p = Some a \<Longrightarrow> a \<in> lv l"
  obtains l' where "f p l = Some l'" "lv l' = lv l - set_option p" "other l' = other l"
proof (cases p)
  case None
  with assms(1) show thesis by (intro that [of l]) (auto simp: releases_def)
next
  case (Some a)
  with assms obtain l' where "f p l = Some l'" "lv l' = lv l - {a}" "other l' = other l"
    unfolding releases_def by blast
  with Some show thesis by (intro that [of l']) auto
qed

lemma ext_okD:
  assumes "ext_ok e jl ml"
  shows "creates jl ml (json_parse e s)" "creates jl ml (json_object_new_object e)"
    "releases jl ml (json_object_put e)" "creates ml jl (ABT_mutex_create e)"
    "releases ml jl (ABT_mutex_free e)"
  using assms by (simp_all add: ext_ok_def)

lemma ext_ok_lockE:
  assumes "ext_ok e jl ml" and "\<And>a. p = Some a \<Longrightarrow> a \<in> ml l"
  obtains l' where "ABT_mutex_lock e p l = Some l'" "jl l' = jl l" "ml l' = ml l"
  using assms unfolding ext_ok_def by blast

lemma ext_ok_unlockE:
  assumes "ext_ok e jl ml" and "\<And>a. p = Some a \<Longrightarrow> a \<in> ml l"
  obtains l' where "ABT_mutex_unlock e p l = Some l'" "jl l' = jl l" "ml l' = ml l"
  using assms unfolding ext_ok_def by blast

lemma read_config_ok:
  assumes e: "ext_ok e jl ml" and r: "read_config e s l = (c, l')"
  shows "ml l' = ml l" and "c = None \<Longrightarrow> jl l' = jl l" and "c = Some None \<Longrightarrow> jl l' = jl l"
    and "c = Some (Some j) \<Longrightarrow> j \<notin> jl l \<and> jl l' = insert j (jl l)"
proof -
  note cs = createsD [OF ext_okD(1) [OF e]] createsD [OF ext_okD(2) [OF e]]
  from r show "ml l' = ml l" and "c = None \<Longrightarrow> jl l' = jl l" and "c = Some None \<Longrightarrow> jl l' = jl l"
    and "c = Some (Some j) \<Longrightarrow> j \<notin> jl l \<and> jl l' = insert j (jl l)"
    unfolding read_config_def
    by (auto split: option.splits prod.splits if_splits dest: cs)
qed

section \<open>Invariant\<close>

definition ctx_ok :: "('l \<Rightarrow> addr set) \<Rightarrow> ('l \<Rightarrow> addr set) \<Rightarrow> 'l dworld \<Rightarrow> dummy_context \<Rightarrow> bool" where
  "ctx_ok jl ml w x \<longleftrightarrow> set_option (config x) \<subseteq> jl (lib w)
     \<and> (ctx_h x \<noteq> NULL \<longrightarrow> hoard_ok (ctx_h x) (hoards w))
     \<and> set_option (hoard_mutex x) \<subseteq> ml (lib w)"

text \<open>No two contexts share a resource.\<close>

definition unshared :: "(dummy_context \<Rightarrow> ptr) \<Rightarrow> dummy_context heap \<Rightarrow> bool" where
  "unshared f cs \<longleftrightarrow> (\<forall>a b x y p. cells cs a = Some x \<longrightarrow> cells cs b = Some y \<longrightarrow>
     f x = Some p \<longrightarrow> f y = Some p \<longrightarrow> a = b)"

definition dummy_ok :: "'l ext \<Rightarrow> ('l \<Rightarrow> addr set) \<Rightarrow> ('l \<Rightarrow> addr set) \<Rightarrow> 'l dworld \<Rightarrow> bool" where
  "dummy_ok e jl ml w \<longleftrightarrow> ext_ok e jl ml \<and> heap_wf (ctxs w) \<and> heap_wf (hoards w)
     \<and> (\<forall>a x. cells (ctxs w) a = Some x \<longrightarrow> ctx_ok jl ml w x)
     \<and> unshared config (ctxs w) \<and> unshared ctx_h (ctxs w) \<and> unshared hoard_mutex (ctxs w)
     \<and> (\<forall>q. cells (hoards w) q \<noteq> None \<longrightarrow> (\<exists>a x. cells (ctxs w) a = Some x \<and> ctx_h x = Some q))"

text \<open>The open contexts are exactly the allocated ones, all of the backend at \<open>D\<close>.\<close>

definition dummy_W ::
  "'l ext \<Rightarrow> ('l \<Rightarrow> addr set) \<Rightarrow> ('l \<Rightarrow> addr set) \<Rightarrow> ptr \<Rightarrow> 'l dworld \<Rightarrow> open_ctx set \<Rightarrow> bool" where
  "dummy_W e jl ml D w C \<longleftrightarrow> dummy_ok e jl ml w
     \<and> C = {(D, Some a) | a. cells (ctxs w) a \<noteq> None}"

definition dummy_room :: "'l dworld \<Rightarrow> bool" where
  "dummy_room w \<longleftrightarrow> grants (ctxs w) (brk (ctxs w)) \<and> grants (hoards w) (brk (hoards w))"

lemma dummy_okD:
  assumes "dummy_ok e jl ml w"
  shows "ext_ok e jl ml" "heap_wf (ctxs w)" "heap_wf (hoards w)"
    "\<And>a x. cells (ctxs w) a = Some x \<Longrightarrow> ctx_ok jl ml w x"
    "unshared config (ctxs w)" "unshared ctx_h (ctxs w)" "unshared hoard_mutex (ctxs w)"
    "\<And>q. cells (hoards w) q \<noteq> None \<Longrightarrow> \<exists>a x. cells (ctxs w) a = Some x \<and> ctx_h x = Some q"
  using assms by (simp_all add: dummy_ok_def)

lemma unshared_insert:
  assumes "unshared f cs" and "cells cs a = None"
    and "\<And>b y p. cells cs b = Some y \<Longrightarrow> f x = Some p \<Longrightarrow> f y \<noteq> Some p"
  shows "unshared f (cs\<lparr>cells := (cells cs)(a \<mapsto> x), brk := n\<rparr>)"
  using assms unfolding unshared_def by (auto split: if_splits)

lemma unshared_remove: "unshared f cs \<Longrightarrow> unshared f (cs\<lparr>cells := (cells cs)(a := None)\<rparr>)"
  unfolding unshared_def by (auto split: if_splits)

text \<open>A new context, and what it refers to, joins the invariant.\<close>

lemma dummy_ok_new:
  assumes ok: "dummy_ok e jl ml w"
    and x: "set_option (config x) \<inter> jl (lib w) = {}" "set_option (hoard_mutex x) \<inter> ml (lib w) = {}"
      "ctx_h x = NULL \<or> ctx_h x = Some q \<and> cells (hoards w) q = None"
    and l: "jl l = set_option (config x) \<union> jl (lib w)" "ml l = set_option (hoard_mutex x) \<union> ml (lib w)"
    and hs: "heap_wf hs" "\<And>p. ctx_h x \<noteq> Some p \<Longrightarrow> cells hs p = cells (hoards w) p"
      "ctx_h x \<noteq> NULL \<Longrightarrow> hoard_ok (ctx_h x) hs"
  shows "dummy_ok e jl ml (w\<lparr>ctxs := (ctxs w)\<lparr>cells := (cells (ctxs w))(brk (ctxs w) \<mapsto> x),
      brk := Suc (brk (ctxs w))\<rparr>, hoards := hs, lib := l\<rparr>)" (is "dummy_ok _ _ _ ?w")
proof -
  note D = dummy_okD [OF ok]
  have fresh: "cells (ctxs w) (brk (ctxs w)) = None" using D(2) by simp
  have old: "config y \<noteq> Some p \<or> p \<in> jl (lib w)" "hoard_mutex y \<noteq> Some p \<or> p \<in> ml (lib w)"
    "ctx_h y \<noteq> Some p \<or> cells (hoards w) p \<noteq> None" if "cells (ctxs w) b = Some y" for b y p
    using D(4) [OF that] by (auto simp: ctx_ok_def hoard_ok_def)
  have c: "ctx_ok jl ml ?w y" if "cells (ctxs ?w) b = Some y" for b y
  proof (cases "b = brk (ctxs w)")
    case True
    with that have "y = x" by simp
    then show ?thesis using l hs(3) by (simp add: ctx_ok_def)
  next
    case False
    with that have b: "cells (ctxs w) b = Some y" by simp
    have "hoard_ok (ctx_h y) hs" if h: "ctx_h y \<noteq> NULL"
    proof -
      obtain p where p: "ctx_h y = Some p" using h by auto
      with old(3) [OF b, of p] x(3) have "ctx_h x \<noteq> Some p" by auto
      then show ?thesis using hs(2) D(4) [OF b] p h by (auto simp: ctx_ok_def hoard_ok_def)
    qed
    then show ?thesis using D(4) [OF b] l by (auto simp: ctx_ok_def)
  qed
  have own: "\<exists>a y. cells (ctxs ?w) a = Some y \<and> ctx_h y = Some p" if "cells (hoards ?w) p \<noteq> None" for p
  proof (cases "ctx_h x = Some p")
    case True
    then show ?thesis by (intro exI [of _ "brk (ctxs w)"] exI [of _ x]) simp
  next
    case False
    with that hs(2) have "cells (hoards w) p \<noteq> None" by simp
    from D(8) [OF this] obtain a y where "cells (ctxs w) a = Some y" "ctx_h y = Some p" by blast
    then show ?thesis using fresh by (intro exI [of _ a] exI [of _ y]) auto
  qed
  have "heap_wf (ctxs ?w)" using D(2) by (simp add: heap_wf_def)
  moreover have "unshared config (ctxs ?w)" "unshared ctx_h (ctxs ?w)" "unshared hoard_mutex (ctxs ?w)"
    using old x by (auto intro!: unshared_insert D(5-7) fresh; blast)+
  ultimately show ?thesis using D(1) hs(1) c own by (simp add: dummy_ok_def)
qed

text \<open>A context that goes away takes its configuration and its hoard with it.\<close>

lemma dummy_ok_drop:
  assumes ok: "dummy_ok e jl ml w" and a: "cells (ctxs w) a = Some x"
    and l: "jl l = jl (lib w) - set_option (config x)"
      "ml (lib w) - set_option (hoard_mutex x) \<subseteq> ml l"
    and hs: "hoard_finalize (ctx_h x) (hoards w) = Some hs"
  shows "dummy_ok e jl ml (w\<lparr>ctxs := (ctxs w)\<lparr>cells := (cells (ctxs w))(a := None)\<rparr>,
      hoards := hs, lib := l\<rparr>)" (is "dummy_ok _ _ _ ?w")
proof -
  note D = dummy_okD [OF ok]
  have hc: "cells hs p = (if ctx_h x = Some p then None else cells (hoards w) p)" for p
    using hs by (cases "ctx_h x") (auto simp: hoard_finalize_def h_free_def split: if_splits)
  have ne: "config y \<noteq> Some p \<or> config x \<noteq> Some p" "ctx_h y \<noteq> Some p \<or> ctx_h x \<noteq> Some p"
    "hoard_mutex y \<noteq> Some p \<or> hoard_mutex x \<noteq> Some p"
    if "cells (ctxs w) b = Some y" "b \<noteq> a" for b y p
    using D(5-7) a that unfolding unshared_def by blast+
  have "ctx_ok jl ml ?w y" if "cells (ctxs ?w) b = Some y" for b y
  proof -
    from that have b: "cells (ctxs w) b = Some y" "b \<noteq> a" by (auto split: if_splits)
    have "set_option (config y) \<subseteq> jl l" "set_option (hoard_mutex y) \<subseteq> ml l"
      using D(4) [OF b(1)] ne(1,3) [OF b] l by (auto simp: ctx_ok_def subset_iff)
    moreover have "hoard_ok (ctx_h y) hs" if "ctx_h y \<noteq> NULL"
      using D(4) [OF b(1)] ne(2) [OF b] that hc by (auto simp: ctx_ok_def hoard_ok_def)
    ultimately show ?thesis by (simp add: ctx_ok_def)
  qed
  moreover have "\<exists>b y. cells (ctxs ?w) b = Some y \<and> ctx_h y = Some q" if "cells (hoards ?w) q \<noteq> None" for q
  proof -
    have q: "ctx_h x \<noteq> Some q" "cells (hoards w) q \<noteq> None" using that hc by (auto split: if_splits)
    from D(8) [OF q(2)] obtain b y where b: "cells (ctxs w) b = Some y" "ctx_h y = Some q" by blast
    with q(1) a have "b \<noteq> a" by auto
    with b show ?thesis by (intro exI [of _ b] exI [of _ y]) simp
  qed
  moreover have "heap_wf (ctxs ?w)" using D(2) by (simp add: heap_wf_def)
  moreover have "heap_wf hs" using D(3) hs unfolding hoard_finalize_def by (rule heap_wf_free)
  ultimately show ?thesis using D(1,5-7) by (simp add: dummy_ok_def unshared_remove)
qed

section \<open>The operations keep it\<close>

lemma dummy_lib_upd:
  assumes "dummy_ok e jl ml w" and "jl (lib w) \<subseteq> jl l" and "ml (lib w) \<subseteq> ml l"
  shows "dummy_ok e jl ml (w\<lparr>lib := l\<rparr>)"
proof -
  have "ctx_ok jl ml (w\<lparr>lib := l\<rparr>) x" if "ctx_ok jl ml w x" for x
    using that assms(2,3) by (auto simp: ctx_ok_def subset_iff)
  then show ?thesis using assms(1) by (simp add: dummy_ok_def)
qed

text \<open>Creation: either the configuration is refused, or a context with its own hoard is new.\<close>

lemma dummy_create_ok:
  assumes ok: "dummy_ok e jl ml w" and r: "dummy_create_cache e p cfg c0 w = Some (ret, c, w')"
  shows "ret = CACHERCISE_ERR_INVALID_CONFIG \<and> c = c0 \<and> dummy_ok e jl ml w' \<and> ctxs w' = ctxs w
     \<or> ret = CACHERCISE_SUCCESS \<and> c = Some (brk (ctxs w)) \<and> dummy_ok e jl ml w'
       \<and> (\<exists>x. cells (ctxs w') = (cells (ctxs w))(brk (ctxs w) \<mapsto> x)
            \<and> ctx_h x = Some (brk (hoards w)) \<and> hoard_size (ctx_h x) (hoards w') = 0)"
proof (cases "read_config e cfg (lib w)")
  case (Pair oc l)
  note D = dummy_okD [OF ok] and rc = read_config_ok [OF dummy_okD(1) [OF ok] Pair]
  show ?thesis
  proof (cases oc)
    case None
    then show ?thesis using r Pair rc(1,2) dummy_lib_upd [OF ok, of l] by (auto simp: dummy_create_cache_def)
  next
    case (Some cf)
    obtain mx l' where mx: "ABT_mutex_create e l = (mx, l')" by (cases "ABT_mutex_create e l")
    note mc = createsD [OF ext_okD(4) [OF D(1)] mx]
    let ?x = "\<lparr>config = cf, ctx_h = Some (brk (hoards w)), hoard_mutex = mx\<rparr>"
    let ?hs = "(hoards w)\<lparr>cells := (cells (hoards w))(brk (hoards w) \<mapsto> \<lparr>m_hoard = []\<rparr>),
        brk := Suc (brk (hoards w))\<rparr>"
    from r Pair Some mx have e: "ret = CACHERCISE_SUCCESS" "c = Some (brk (ctxs w))"
      "w' = w\<lparr>ctxs := (ctxs w)\<lparr>cells := (cells (ctxs w))(brk (ctxs w) \<mapsto> ?x), brk := Suc (brk (ctxs w))\<rparr>,
         hoards := ?hs, lib := l'\<rparr>"
      by (auto simp: dummy_create_cache_def hoard_init_def h_alloc_def zero_context_def split: if_splits)
    have jl: "set_option cf \<inter> jl (lib w) = {}" "jl l' = set_option cf \<union> jl (lib w)"
      using rc(3,4) Some mc(1) by (cases cf; auto)+
    have ml: "set_option mx \<inter> ml (lib w) = {}" "ml l' = set_option mx \<union> ml (lib w)"
      using rc(1) mc(2,3) by (cases mx; auto)+
    have hf: "cells (hoards w) (brk (hoards w)) = None" using D(3) by simp
    have "dummy_ok e jl ml w'" unfolding e(3)
      by (rule dummy_ok_new [OF ok, where q = "brk (hoards w)"])
        (use jl ml hf D(3) in \<open>auto simp: heap_wf_def hoard_ok_def vector_max_size_def\<close>)
    then show ?thesis using e by (auto simp: hoard_size_def intro!: exI [of _ ?x])
  qed
qed

lemma dummy_open_ok:
  assumes ok: "dummy_ok e jl ml w" and r: "dummy_open_cache e p cfg c0 w = Some (ret, c, w')"
  shows "ret = CACHERCISE_ERR_INVALID_CONFIG \<and> c = c0 \<and> dummy_ok e jl ml w' \<and> ctxs w' = ctxs w
     \<or> ret = CACHERCISE_SUCCESS \<and> c = Some (brk (ctxs w)) \<and> dummy_ok e jl ml w'
       \<and> (\<exists>x. cells (ctxs w') = (cells (ctxs w))(brk (ctxs w) \<mapsto> x)
            \<and> ctx_h x = NULL \<and> hoard_mutex x = NULL)"
proof (cases "read_config e cfg (lib w)")
  case (Pair oc l)
  note D = dummy_okD [OF ok] and rc = read_config_ok [OF dummy_okD(1) [OF ok] Pair]
  show ?thesis
  proof (cases oc)
    case None
    then show ?thesis using r Pair rc(1,2) dummy_lib_upd [OF ok, of l] by (auto simp: dummy_open_cache_def)
  next
    case (Some cf)
    let ?x = "\<lparr>config = cf, ctx_h = NULL, hoard_mutex = NULL\<rparr>"
    from r Pair Some have e: "ret = CACHERCISE_SUCCESS" "c = Some (brk (ctxs w))"
      "w' = w\<lparr>ctxs := (ctxs w)\<lparr>cells := (cells (ctxs w))(brk (ctxs w) \<mapsto> ?x), brk := Suc (brk (ctxs w))\<rparr>,
         lib := l\<rparr>"
      by (auto simp: dummy_open_cache_def h_alloc_def zero_context_def split: if_splits)
    have jl: "set_option cf \<inter> jl (lib w) = {}" "jl l = set_option cf \<union> jl (lib w)"
      using rc(3,4) Some by (cases cf; auto)+
    have "dummy_ok e jl ml (w\<lparr>ctxs := (ctxs w)\<lparr>cells := (cells (ctxs w))(brk (ctxs w) \<mapsto> ?x),
        brk := Suc (brk (ctxs w))\<rparr>, hoards := hoards w, lib := l\<rparr>)"
      by (rule dummy_ok_new [OF ok]) (use jl rc(1) D(3) in auto)
    then show ?thesis using e by (auto intro!: exI [of _ ?x])
  qed
qed

lemma dummy_create_total:
  "dummy_room w \<Longrightarrow> dummy_create_cache e p cfg c0 w \<noteq> None"
  by (auto simp: dummy_room_def dummy_create_cache_def hoard_init_def h_alloc_granted Let_def
      split: prod.splits option.splits)

lemma dummy_open_total:
  "dummy_room w \<Longrightarrow> dummy_open_cache e p cfg c0 w \<noteq> None"
  by (auto simp: dummy_room_def dummy_open_cache_def h_alloc_granted Let_def
      split: prod.splits option.splits)

lemma hoard_finalize_cells:
  "hoard_finalize p hs = Some hs' \<Longrightarrow> cells hs' q = (if p = Some q then None else cells hs q)"
  by (cases p) (auto simp: hoard_finalize_def h_free_def split: if_splits)

lemma dummy_close_ok:
  assumes ok: "dummy_ok e jl ml w" and a: "cells (ctxs w) a = Some x"
  shows "\<exists>w'. dummy_close_cache e (Some a) w = Some (CACHERCISE_SUCCESS, w') \<and> dummy_ok e jl ml w'
     \<and> cells (ctxs w') = (cells (ctxs w))(a := None) \<and> ml (lib w') = ml (lib w)
     \<and> jl (lib w') = jl (lib w) - set_option (config x)
     \<and> cells (hoards w') = (\<lambda>q. if ctx_h x = Some q then None else cells (hoards w) q)"
proof -
  note D = dummy_okD [OF ok]
  have cx: "ctx_ok jl ml w x" by (rule D(4) [OF a])
  obtain l where l: "json_object_put e (config x) (lib w) = Some l"
    "jl l = jl (lib w) - set_option (config x)" "ml l = ml (lib w)"
    using cx by (elim releasesE [OF ext_okD(3) [OF D(1)], of "config x" "lib w", rotated])
      (auto simp: ctx_ok_def)
  obtain hs where hs: "hoard_finalize (ctx_h x) (hoards w) = Some hs"
    using cx by (cases "ctx_h x") (auto simp: hoard_finalize_def ctx_ok_def hoard_ok_def)
  have "dummy_ok e jl ml (w\<lparr>ctxs := (ctxs w)\<lparr>cells := (cells (ctxs w))(a := None)\<rparr>, hoards := hs, lib := l\<rparr>)"
    by (rule dummy_ok_drop [OF ok a _ _ hs]) (use l in auto)
  then show ?thesis using a l hs hoard_finalize_cells [OF hs] by (simp add: dummy_close_cache_def fun_eq_iff)
qed

lemma dummy_destroy_ok:
  assumes ok: "dummy_ok e jl ml w" and a: "cells (ctxs w) a = Some x"
  shows "\<exists>w'. dummy_destroy_cache e (Some a) w = Some (CACHERCISE_SUCCESS, w') \<and> dummy_ok e jl ml w'
     \<and> cells (ctxs w') = (cells (ctxs w))(a := None) \<and> ml (lib w') = ml (lib w) - set_option (hoard_mutex x)
     \<and> jl (lib w') = jl (lib w) - set_option (config x)
     \<and> cells (hoards w') = (\<lambda>q. if ctx_h x = Some q then None else cells (hoards w) q)"
proof -
  note D = dummy_okD [OF ok]
  have cx: "ctx_ok jl ml w x" by (rule D(4) [OF a])
  obtain l where l: "json_object_put e (config x) (lib w) = Some l"
    "jl l = jl (lib w) - set_option (config x)" "ml l = ml (lib w)"
    using cx by (elim releasesE [OF ext_okD(3) [OF D(1)], of "config x" "lib w", rotated])
      (auto simp: ctx_ok_def)
  obtain l' where l': "ABT_mutex_free e (hoard_mutex x) l = Some l'"
    "ml l' = ml l - set_option (hoard_mutex x)" "jl l' = jl l"
    using cx l(3) by (elim releasesE [OF ext_okD(5) [OF D(1)], of "hoard_mutex x" l, rotated])
      (auto simp: ctx_ok_def)
  obtain hs where hs: "hoard_finalize (ctx_h x) (hoards w) = Some hs"
    using cx by (cases "ctx_h x") (auto simp: hoard_finalize_def ctx_ok_def hoard_ok_def)
  have "dummy_ok e jl ml (w\<lparr>ctxs := (ctxs w)\<lparr>cells := (cells (ctxs w))(a := None)\<rparr>, hoards := hs, lib := l'\<rparr>)"
    by (rule dummy_ok_drop [OF ok a _ _ hs]) (use l l' in auto)
  then show ?thesis using a l l' hs hoard_finalize_cells [OF hs] by (simp add: dummy_destroy_cache_def fun_eq_iff)
qed

text \<open>What a successful creation adds, and what giving a context back removes.\<close>

lemma dummy_create_effect:
  assumes ok: "dummy_ok e jl ml w"
    and r: "dummy_create_cache e p cfg c0 w = Some (CACHERCISE_SUCCESS, c, w')"
  shows "\<exists>x. c = Some (brk (ctxs w)) \<and> cells (ctxs w') = (cells (ctxs w))(brk (ctxs w) \<mapsto> x)
    \<and> ctx_h x = Some (brk (hoards w)) \<and> cells (hoards w') = (cells (hoards w))(brk (hoards w) \<mapsto> \<lparr>m_hoard = []\<rparr>)
    \<and> jl (lib w') - set_option (config x) = jl (lib w)
    \<and> ml (lib w') = ml (lib w) \<union> set_option (hoard_mutex x) \<and> set_option (hoard_mutex x) \<inter> ml (lib w) = {}"
proof (cases "read_config e cfg (lib w)")
  case (Pair oc l)
  note D = dummy_okD [OF ok] and rc = read_config_ok [OF dummy_okD(1) [OF ok] Pair]
  from r Pair obtain cf where Some: "oc = Some cf" by (cases oc) (auto simp: dummy_create_cache_def)
  obtain mx l' where mx: "ABT_mutex_create e l = (mx, l')" by (cases "ABT_mutex_create e l")
  note mc = createsD [OF ext_okD(4) [OF D(1)] mx]
  let ?x = "\<lparr>config = cf, ctx_h = Some (brk (hoards w)), hoard_mutex = mx\<rparr>"
  have "jl l' - set_option cf = jl (lib w)" "ml l' = ml (lib w) \<union> set_option mx" "set_option mx \<inter> ml (lib w) = {}"
    using rc Some mc by (cases cf; cases mx; auto)+
  with r Pair Some mx show ?thesis
    by (intro exI [of _ ?x])
      (auto simp: dummy_create_cache_def hoard_init_def h_alloc_def zero_context_def split: if_splits)
qed

lemma dummy_hoards_upd:
  assumes ok: "dummy_ok e jl ml w" and a: "cells (ctxs w) a = Some x"
    and hs: "hoard_ok (ctx_h x) hs" "\<And>q. ctx_h x \<noteq> Some q \<Longrightarrow> cells hs q = cells (hoards w) q" "heap_wf hs"
  shows "dummy_ok e jl ml (w\<lparr>hoards := hs\<rparr>)"
proof -
  note D = dummy_okD [OF ok]
  have "ctx_ok jl ml (w\<lparr>hoards := hs\<rparr>) y" if "cells (ctxs w) b = Some y" for b y
  proof (cases "ctx_h y = ctx_h x \<or> ctx_h y = NULL")
    case True
    then show ?thesis using D(4) [OF that] hs(1) by (auto simp: ctx_ok_def)
  next
    case False
    then obtain q where "ctx_h y = Some q" "ctx_h x \<noteq> Some q" by auto
    then show ?thesis using D(4) [OF that] hs(2) by (auto simp: ctx_ok_def hoard_ok_def)
  qed
  moreover have "\<exists>a y. cells (ctxs w) a = Some y \<and> ctx_h y = Some q" if "cells hs q \<noteq> None" for q
    using that a hs(2) D(8) by (cases "ctx_h x = Some q") auto
  ultimately show ?thesis using D hs(3) by (simp add: dummy_ok_def)
qed

text \<open>An I/O request that is carried out keeps the invariant and the length of the buffer.\<close>

lemma dummy_io_ok:
  assumes ok: "dummy_ok e jl ml w" and a: "cells (ctxs w) a = Some x"
    and r: "dummy_io e (Some a) n off buf k w = Some (t, buf', w')"
  shows "dummy_ok e jl ml w' \<and> length buf' = length buf \<and> ctxs w' = ctxs w
     \<and> t = scast (ucast (n div 8) :: i32)"
proof -
  note D = dummy_okD [OF ok]
  have cx: "ctx_ok jl ml w x" by (rule D(4) [OF a])
  show ?thesis
  proof (cases "k = CACHERCISE_WRITE")
    case True
    obtain l where l: "ABT_mutex_lock e (hoard_mutex x) (lib w) = Some l"
      "jl l = jl (lib w)" "ml l = ml (lib w)"
      using cx by (elim ext_ok_lockE [OF D(1), of "hoard_mutex x", rotated]) (auto simp: ctx_ok_def)
    obtain l' where l': "ABT_mutex_unlock e (hoard_mutex x) l = Some l'"
      "jl l' = jl l" "ml l' = ml l"
      using cx l(3) by (elim ext_ok_unlockE [OF D(1), of "hoard_mutex x", rotated]) (auto simp: ctx_ok_def)
    from r True a l(1) l'(1) obtain ret hs where hs: "hoard_put (ctx_h x) buf (n div 8) off (hoards w) = Some (ret, hs)"
      and e: "t = scast ret" "buf' = buf" "w' = w\<lparr>hoards := hs, lib := l'\<rparr>"
      by (auto simp: dummy_io_def bind_Some_iff)
    have ho: "hoard_ok (ctx_h x) (hoards w)"
      using cx hs by (cases "ctx_h x") (auto simp: ctx_ok_def hoard_put_def Hoard_put_def)
    note f = hoard_put_frame [OF ho hs]
    have "dummy_ok e jl ml (w\<lparr>hoards := hs\<rparr>)"
      using f D(3) by (intro dummy_hoards_upd [OF ok a]) auto
    then have "dummy_ok e jl ml (w\<lparr>hoards := hs, lib := l'\<rparr>)"
      using dummy_lib_upd [of e jl ml "w\<lparr>hoards := hs\<rparr>" l'] l l' by simp
    then show ?thesis using e f by simp
  next
    case False
    with r a obtain ret where g: "hoard_get (ctx_h x) buf (n div 8) off (hoards w) = Some (ret, buf')"
      and e: "t = scast ret" "w' = w" by (auto simp: dummy_io_def bind_Some_iff)
    then have "length buf' = length buf" "ret = ucast (n div 8)"
      by (auto simp: hoard_get_def Hoard_get_def bind_Some_iff dest: get_loop_length)
    with ok e show ?thesis by simp
  qed
qed

section \<open>The contract of the provider\<close>

lemma dummy_W_iff:
  assumes "dummy_W e jl ml D w C"
  shows "(f, c) \<in> C \<longleftrightarrow> f = D \<and> (\<exists>a x. c = Some a \<and> cells (ctxs w) a = Some x)"
  using assms by (auto simp: dummy_W_def)

lemma dummy_W_new:
  assumes W: "dummy_W e jl ml D w C" and ok: "dummy_ok e jl ml w'"
    and c: "cells (ctxs w') = (cells (ctxs w))(brk (ctxs w) \<mapsto> x)"
  shows "(D, Some (brk (ctxs w))) \<notin> C \<and> dummy_W e jl ml D w' (insert (D, Some (brk (ctxs w))) C)"
proof -
  have "cells (ctxs w) (brk (ctxs w)) = None" using W by (auto simp: dummy_W_def dummy_ok_def)
  then show ?thesis using W ok c by (auto simp: dummy_W_def)
qed

lemma dummy_W_del:
  assumes W: "dummy_W e jl ml D w C" and ok: "dummy_ok e jl ml w'"
    and c: "cells (ctxs w') = (cells (ctxs w))(a := None)"
  shows "dummy_W e jl ml D w' (C - {(D, Some a)})"
  using assms by (auto simp: dummy_W_def)

interpretation dm: backends "dummy_W e jl ml D" "\<lambda>f b. f = D \<and> b = dummy_backend e" dummy_room
  for e jl ml D
proof
  fix w C f b p cfg r c w' x y s n off buf k t buf'
  assume W: "dummy_W e jl ml D w C" and i: "f = D \<and> b = dummy_backend e"
  note ok = W [unfolded dummy_W_def, THEN conjunct1]
  note ix = dummy_W_iff [OF W]
  show "if r = CACHERCISE_SUCCESS then (f, c) \<notin> C \<and> dummy_W e jl ml D w' (insert (f, c) C)
      else dummy_W e jl ml D w' C"
    if "create_cache b p cfg NULL w = Some (r, c, w')"
    using that i dummy_create_ok [OF ok, of p cfg NULL r c w'] dummy_W_new [OF W, of w'] W
    by (auto simp: dummy_backend_def dummy_W_def)
  show "if r = CACHERCISE_SUCCESS then (f, c) \<notin> C \<and> dummy_W e jl ml D w' (insert (f, c) C)
      else dummy_W e jl ml D w' C"
    if "open_cache b p cfg NULL w = Some (r, c, w')"
    using that i dummy_open_ok [OF ok, of p cfg NULL r c w'] dummy_W_new [OF W, of w'] W
    by (auto simp: dummy_backend_def dummy_W_def)
  show "create_cache b p cfg NULL w \<noteq> None" "open_cache b p cfg NULL w \<noteq> None" if "dummy_room w"
    using that i dummy_create_total [of w e p cfg NULL] dummy_open_total [of w e p cfg NULL]
    by (simp_all add: dummy_backend_def)
  assume fc: "(f, c) \<in> C"
  then obtain a x where a: "c = Some a" "cells (ctxs w) a = Some x" using ix by blast
  show "\<exists>r w'. close_cache b c w = Some (r, w') \<and> dummy_W e jl ml D w' (C - {(f, c)})"
    using dummy_close_ok [OF ok a(2)] dummy_W_del [OF W] i a by (fastforce simp: dummy_backend_def)
  show "\<exists>r w'. destroy_cache b c w = Some (r, w') \<and> dummy_W e jl ml D w' (C - {(f, c)})"
    using dummy_destroy_ok [OF ok a(2)] dummy_W_del [OF W] i a by (fastforce simp: dummy_backend_def)
  show "\<exists>w'. hello b c w = Some w' \<and> dummy_W e jl ml D w' C"
    using W i by (auto simp: dummy_backend_def dummy_say_hello_def dummy_W_def dummy_ok_def ctx_ok_def)
  show "dummy_W e jl ml D w' C" if "sum_fn b c x y w = Some (s, w')" for x y
    using that W i by (auto simp: dummy_backend_def dummy_compute_sum_def Let_def split: if_splits)
  show "dummy_W e jl ml D w' C \<and> length buf' = length buf" if "io b c n off buf k w = Some (t, buf', w')"
    using dummy_io_ok [OF ok a(2), of n off buf k t buf' w'] that W i a
    by (auto simp: dummy_backend_def dummy_W_def)
qed

end
