(* ===== verification/Types.thy ===== *)
theory Types
  imports Common
begin

text \<open>
  The argument and result structures of the RPCs, \<open>src/types.h\<close>.  An \<open>hg_string_t\<close>
  is a pointer to a string and may be \<open>NULL\<close>; the array of \<open>list_caches_out_t\<close> is
  \<open>None\<close> when its pointer is \<open>NULL\<close>.  The members carry the prefix of their
  structure.
\<close>

text \<open>Mercury numbers the RPCs.\<close>

type_synonym hg_id_t = u64

section \<open>Admin RPCs\<close>

record create_cache_in_t =
  cc_type :: "string option"
  cc_config :: "string option"
  cc_token :: "string option"

record create_cache_out_t =
  cc_ret :: i32
  cc_id :: cachercise_cache_id_t

record open_cache_in_t =
  oc_type :: "string option"
  oc_config :: "string option"
  oc_token :: "string option"

record open_cache_out_t =
  oc_ret :: i32
  oc_id :: cachercise_cache_id_t

record close_cache_in_t =
  cl_token :: "string option"
  cl_id :: cachercise_cache_id_t

record close_cache_out_t =
  cl_ret :: i32

record destroy_cache_in_t =
  ds_token :: "string option"
  ds_id :: cachercise_cache_id_t

record destroy_cache_out_t =
  ds_ret :: i32

record list_caches_in_t =
  li_token :: "string option"
  li_max_ids :: u64

record list_caches_out_t =
  lo_ret :: i32
  lo_count :: u64
  lo_ids :: "cachercise_cache_id_t list option"

section \<open>Client RPCs\<close>

record hello_in_t =
  he_cache_id :: cachercise_cache_id_t

record sum_in_t =
  su_cache_id :: cachercise_cache_id_t
  su_x :: i32
  su_y :: i32

record sum_out_t =
  so_result :: i32
  so_ret :: i32

record io_in_t =
  io_cache_id :: cachercise_cache_id_t
  io_count :: u64
  io_offset :: i64
  io_scratch :: i64
  io_kind :: i64

record io_out_t =
  out_bytes :: u64
  out_scratch :: i64
  out_result :: i64
  out_ret :: i64

end
