(* ===== verification/Provider.thy ===== *)
theory Provider
  imports Uthash_Table Dummy_Backend Types
begin

text \<open>
  \<open>src/provider.c\<close>, \<open>src/provider.h\<close>: the server.  A provider keeps its caches in a
  uthash table keyed by their id and an array of pointers to backends; each RPC
  has a handler that decodes its input, checks the token or looks the cache up,
  calls the backend and responds.

  A handler takes the decoded input, \<open>None\<close> when \<open>margo_get_input\<close> fails, and
  returns the structure passed to \<open>margo_respond\<close>.  Members of that structure that
  the handler does not assign keep the value \<open>out0\<close> has: the contents of its
  uninitialised stack object.

  A result \<open>None\<close> of a handler is an undefined execution.  The five handlers of the
  administrator jump to \<open>finish\<close> when their input cannot be decoded, and free an input
  that was never written there: they are undefined on such a request.  The inputs of the
  clients' handlers hold no pointers, and those handlers go on to their end.
\<close>

section \<open>State\<close>

text \<open>
  \<open>backend_types\<close> lists the initialised slots of the array.  \<open>mid\<close>, \<open>pool\<close> and
  \<open>abtio\<close> are handles of margo, Argobots and ABT-IO, kept as addresses; \<open>p_hoard\<close>
  is the member \<open>hoard\<close>, which no function uses.
\<close>

record cachercise_provider =
  mid :: ptr
  provider_id :: u16
  pool :: ptr
  abtio :: ptr
  token :: "string option"
  num_backend_types :: u64
  backend_types :: "ptr list"
  num_caches :: u64
  caches :: ptr
  p_hoard :: ptr
  create_cache_id :: hg_id_t
  open_cache_id :: hg_id_t
  close_cache_id :: hg_id_t
  destroy_cache_id :: hg_id_t
  list_caches_id :: hg_id_t
  hello_id :: hg_id_t
  sum_id :: hg_id_t
  io_id :: hg_id_t

text \<open>
  The state of the server process: the provider at \<open>self\<close>, the memory of the
  caches, the backend structures and the state of the backends.
\<close>

record 'w server =
  self :: ptr
  prov :: cachercise_provider
  mem :: "open_ctx umem"
  impls :: "'w cachercise_backend_impl heap"
  world :: 'w

definition zero_cache :: "open_ctx cache_elt" where
  "zero_cache = \<lparr>body = (NULL, NULL), cid = 0, hh = zero_handle\<rparr>"

text \<open>\<open>strcmp(s, t) == 0\<close>; a \<open>NULL\<close> argument is undefined.\<close>

definition streq :: "string option \<Rightarrow> string option \<Rightarrow> bool option" where
  "streq s t = do { s \<leftarrow> s; t \<leftarrow> t; Some (s = t) }"

section \<open>The hash of caches\<close>

definition find_cache :: "'w server \<Rightarrow> cachercise_cache_id_t \<Rightarrow> ptr option" where
  "find_cache sv uid = HASH_FIND (caches (prov sv)) (uuid_bytes uid) 16 (mem sv)"

definition add_cache :: "'w server \<Rightarrow> ptr \<Rightarrow> (cachercise_return_t \<times> 'w server) option" where
  "add_cache sv cache = do {
     e \<leftarrow> h_load cache (elts (mem sv));
     existing \<leftarrow> find_cache sv (cid e);
     if existing \<noteq> NULL then Some (CACHERCISE_ERR_INVALID_CACHE, sv)
     else do {
       (hd, m) \<leftarrow> HASH_ADD (caches (prov sv)) 16 cache (mem sv);
       Some (CACHERCISE_SUCCESS,
         sv\<lparr>mem := m, prov := (prov sv)\<lparr>caches := hd, num_caches := num_caches (prov sv) + 1\<rparr>\<rparr>) } }"

definition remove_cache ::
  "'w server \<Rightarrow> cachercise_cache_id_t \<Rightarrow> bool \<Rightarrow> (cachercise_return_t \<times> 'w server) option" where
  "remove_cache sv uid close = do {
     cache \<leftarrow> find_cache sv uid;
     if cache = NULL then Some (CACHERCISE_ERR_INVALID_CACHE, sv)
     else do {
       e \<leftarrow> h_load cache (elts (mem sv));
       (ret, w) \<leftarrow>
         (if close
          then do { b \<leftarrow> h_load (fst (body e)) (impls sv);
                    close_cache b (snd (body e)) (world sv) }
          else Some (CACHERCISE_SUCCESS, world sv));
       (hd, m) \<leftarrow> HASH_DEL (caches (prov sv)) cache (mem sv);
       es \<leftarrow> h_free cache (elts m);
       Some (ret,
         sv\<lparr>mem := m\<lparr>elts := es\<rparr>, world := w,
            prov := (prov sv)\<lparr>caches := hd, num_caches := num_caches (prov sv) - 1\<rparr>\<rparr>) } }"

text \<open>The body of the loop of \<open>remove_all_caches\<close>, which deletes the struct it visits.\<close>

definition remove_all_body :: "addr \<Rightarrow> 'w server \<Rightarrow> 'w server option" where
  "remove_all_body r sv = do {
     (hd, m) \<leftarrow> HASH_DEL (caches (prov sv)) (Some r) (mem sv);
     e \<leftarrow> h_load (Some r) (elts m);
     b \<leftarrow> h_load (fst (body e)) (impls sv);
     (ret, w) \<leftarrow> close_cache b (snd (body e)) (world sv);
     es \<leftarrow> h_free (Some r) (elts m);
     Some (sv\<lparr>mem := m\<lparr>elts := es\<rparr>, world := w, prov := (prov sv)\<lparr>caches := hd\<rparr>\<rparr>) }"

definition remove_all_caches :: "'w server \<Rightarrow> 'w server option" where
  "remove_all_caches sv = do {
     sv \<leftarrow> HASH_ITER remove_all_body mem (caches (prov sv)) sv;
     Some (sv\<lparr>prov := (prov sv)\<lparr>num_caches := 0\<rparr>\<rparr>) }"

section \<open>Backends and token\<close>

text \<open>The \<open>for\<close> loop with \<open>n\<close> iterations left, at index \<open>i\<close>.\<close>

fun find_backend_loop :: "nat \<Rightarrow> nat \<Rightarrow> string option \<Rightarrow> 'w server \<Rightarrow> ptr option" where
  "find_backend_loop 0 i nm sv = Some NULL"
| "find_backend_loop (Suc n) i nm sv = do {
     impl \<leftarrow> arr_get (backend_types (prov sv)) i;
     b \<leftarrow> h_load impl (impls sv);
     eq \<leftarrow> streq nm (Some (name b));
     if eq then Some impl else find_backend_loop n (Suc i) nm sv }"

definition find_backend_impl :: "'w server \<Rightarrow> string option \<Rightarrow> ptr option" where
  "find_backend_impl sv nm = find_backend_loop (unat (num_backend_types (prov sv))) 0 nm sv"

definition check_token :: "cachercise_provider \<Rightarrow> string option \<Rightarrow> bool option" where
  "check_token p tok = (if token p = None then Some True else streq (token p) tok)"

section \<open>Admin handlers\<close>

text \<open>
  The input is \<open>None\<close> when \<open>margo_get_input\<close> fails.  The handler then goes to \<open>finish\<close>, where
  \<open>margo_free_input\<close> runs the proc of the input in its freeing mode on the local variable
  \<open>in\<close>, which nothing has initialised.  The inputs of the five admin handlers hold strings,
  and freeing the indeterminate pointers is undefined; so is the result.  The inputs of the
  client handlers hold numbers and ids only, for which this proc does nothing.

  \<open>uid\<close> is the value \<open>uuid_generate\<close> leaves in the local variable.  The result of
  \<open>calloc\<close> is not checked and that of \<open>add_cache\<close> is dropped.
\<close>

definition cachercise_create_cache_ult ::
  "create_cache_in_t option \<Rightarrow> create_cache_out_t \<Rightarrow> cachercise_cache_id_t \<Rightarrow> 'w server
    \<Rightarrow> (create_cache_out_t \<times> 'w server) option" where
  "cachercise_create_cache_ult input out0 uid sv =
     (case input of
        None \<Rightarrow> None
      | Some inp \<Rightarrow> do {
          tok \<leftarrow> check_token (prov sv) (cc_token inp);
          if \<not> tok then Some (out0\<lparr>cc_ret := ret_code CACHERCISE_ERR_INVALID_TOKEN\<rparr>, sv)
          else do {
            backend \<leftarrow> find_backend_impl sv (cc_type inp);
            if backend = NULL
            then Some (out0\<lparr>cc_ret := ret_code CACHERCISE_ERR_INVALID_BACKEND\<rparr>, sv)
            else do {
              b \<leftarrow> h_load backend (impls sv);
              (ret, context, w) \<leftarrow> create_cache b (self sv) (cc_config inp) NULL (world sv);
              let sv = sv\<lparr>world := w\<rparr>;
              if ret \<noteq> CACHERCISE_SUCCESS then Some (out0\<lparr>cc_ret := ret_code ret\<rparr>, sv)
              else do {
                let (cache, es) = h_alloc zero_cache (elts (mem sv));
                es \<leftarrow> h_update cache (\<lambda>e. e\<lparr>body := (backend, context), cid := uid\<rparr>) es;
                (r, sv) \<leftarrow> add_cache (sv\<lparr>mem := (mem sv)\<lparr>elts := es\<rparr>\<rparr>) cache;
                Some (out0\<lparr>cc_ret := ret_code CACHERCISE_SUCCESS, cc_id := uid\<rparr>, sv) } } } })"

definition cachercise_open_cache_ult ::
  "open_cache_in_t option \<Rightarrow> open_cache_out_t \<Rightarrow> cachercise_cache_id_t \<Rightarrow> 'w server
    \<Rightarrow> (open_cache_out_t \<times> 'w server) option" where
  "cachercise_open_cache_ult input out0 uid sv =
     (case input of
        None \<Rightarrow> None
      | Some inp \<Rightarrow> do {
          tok \<leftarrow> check_token (prov sv) (oc_token inp);
          if \<not> tok then Some (out0\<lparr>oc_ret := ret_code CACHERCISE_ERR_INVALID_TOKEN\<rparr>, sv)
          else do {
            backend \<leftarrow> find_backend_impl sv (oc_type inp);
            if backend = NULL
            then Some (out0\<lparr>oc_ret := ret_code CACHERCISE_ERR_INVALID_BACKEND\<rparr>, sv)
            else do {
              b \<leftarrow> h_load backend (impls sv);
              (ret, context, w) \<leftarrow> open_cache b (self sv) (oc_config inp) NULL (world sv);
              let sv = sv\<lparr>world := w\<rparr>;
              if ret \<noteq> CACHERCISE_SUCCESS then Some (out0\<lparr>oc_ret := ret_code ret\<rparr>, sv)
              else do {
                let (cache, es) = h_alloc zero_cache (elts (mem sv));
                es \<leftarrow> h_update cache (\<lambda>e. e\<lparr>body := (backend, context), cid := uid\<rparr>) es;
                (r, sv) \<leftarrow> add_cache (sv\<lparr>mem := (mem sv)\<lparr>elts := es\<rparr>\<rparr>) cache;
                Some (out0\<lparr>oc_ret := ret_code CACHERCISE_SUCCESS, oc_id := uid\<rparr>, sv) } } } })"

definition cachercise_close_cache_ult ::
  "close_cache_in_t option \<Rightarrow> close_cache_out_t \<Rightarrow> 'w server \<Rightarrow> (close_cache_out_t \<times> 'w server) option" where
  "cachercise_close_cache_ult input out0 sv =
     (case input of
        None \<Rightarrow> None
      | Some inp \<Rightarrow> do {
          tok \<leftarrow> check_token (prov sv) (cl_token inp);
          if \<not> tok then Some (out0\<lparr>cl_ret := ret_code CACHERCISE_ERR_INVALID_TOKEN\<rparr>, sv)
          else do {
            (ret, sv) \<leftarrow> remove_cache sv (cl_id inp) True;
            Some (out0\<lparr>cl_ret := ret_code ret\<rparr>, sv) } })"

definition cachercise_destroy_cache_ult ::
  "destroy_cache_in_t option \<Rightarrow> destroy_cache_out_t \<Rightarrow> 'w server
    \<Rightarrow> (destroy_cache_out_t \<times> 'w server) option" where
  "cachercise_destroy_cache_ult input out0 sv =
     (case input of
        None \<Rightarrow> None
      | Some inp \<Rightarrow> do {
          tok \<leftarrow> check_token (prov sv) (ds_token inp);
          if \<not> tok then Some (out0\<lparr>ds_ret := ret_code CACHERCISE_ERR_INVALID_TOKEN\<rparr>, sv)
          else do {
            cache \<leftarrow> find_cache sv (ds_id inp);
            if cache = NULL
            then Some (out0\<lparr>ds_ret := ret_code CACHERCISE_ERR_INVALID_CACHE\<rparr>, sv)
            else do {
              e \<leftarrow> h_load cache (elts (mem sv));
              b \<leftarrow> h_load (fst (body e)) (impls sv);
              (r, w) \<leftarrow> destroy_cache b (snd (body e)) (world sv);
              (ret, sv) \<leftarrow> remove_cache (sv\<lparr>world := w\<rparr>) (ds_id inp) False;
              Some (out0\<lparr>ds_ret := ret_code ret\<rparr>, sv) } } })"

text \<open>
  \<open>granted\<close> is the outcome of \<open>calloc(num_caches, sizeof(*out.ids))\<close>.  \<open>i\<close> is an
  \<open>unsigned\<close>.
\<close>

definition list_body ::
  "open_ctx umem \<Rightarrow> addr \<Rightarrow> cachercise_cache_id_t list option \<times> u32
    \<Rightarrow> (cachercise_cache_id_t list option \<times> u32) option" where
  "list_body m r s = do {
     e \<leftarrow> h_load (Some r) (elts m);
     ids \<leftarrow> fst s;
     ids \<leftarrow> arr_set ids (unat (snd s)) (cid e);
     Some (Some ids, snd s + 1) }"

definition cachercise_list_caches_ult ::
  "list_caches_in_t option \<Rightarrow> list_caches_out_t \<Rightarrow> bool \<Rightarrow> 'w server
    \<Rightarrow> (list_caches_out_t \<times> 'w server) option" where
  "cachercise_list_caches_ult input out0 granted sv =
     (let out0 = out0\<lparr>lo_ids := None\<rparr> in
      case input of
        None \<Rightarrow> None
      | Some inp \<Rightarrow> do {
          tok \<leftarrow> check_token (prov sv) (li_token inp);
          if \<not> tok then Some (out0\<lparr>lo_ret := ret_code CACHERCISE_ERR_INVALID_TOKEN\<rparr>, sv)
          else do {
            let n = (if num_caches (prov sv) < li_max_ids inp then num_caches (prov sv) else li_max_ids inp);
            let ids = (if granted then Some (replicate (unat (num_caches (prov sv))) 0) else None);
            (ids, i) \<leftarrow> HASH_ITER (list_body (mem sv)) (\<lambda>_. mem sv) (caches (prov sv)) (ids, 0);
            Some (out0\<lparr>lo_ret := ret_code CACHERCISE_SUCCESS, lo_count := n, lo_ids := ids\<rparr>, sv) } })"

section \<open>Client handlers\<close>

text \<open>\<open>hello\<close> has no response.\<close>

definition cachercise_hello_ult :: "hello_in_t option \<Rightarrow> 'w server \<Rightarrow> 'w server option" where
  "cachercise_hello_ult input sv =
     (case input of
        None \<Rightarrow> Some sv
      | Some inp \<Rightarrow> do {
          cache \<leftarrow> find_cache sv (he_cache_id inp);
          if cache = NULL then Some sv
          else do {
            e \<leftarrow> h_load cache (elts (mem sv));
            b \<leftarrow> h_load (fst (body e)) (impls sv);
            w \<leftarrow> hello b (snd (body e)) (world sv);
            Some (sv\<lparr>world := w\<rparr>) } })"

definition cachercise_sum_ult ::
  "sum_in_t option \<Rightarrow> sum_out_t \<Rightarrow> 'w server \<Rightarrow> (sum_out_t \<times> 'w server) option" where
  "cachercise_sum_ult input out0 sv =
     (case input of
        None \<Rightarrow> Some (out0\<lparr>so_ret := ret_code CACHERCISE_ERR_FROM_MERCURY\<rparr>, sv)
      | Some inp \<Rightarrow> do {
          cache \<leftarrow> find_cache sv (su_cache_id inp);
          if cache = NULL
          then Some (out0\<lparr>so_ret := ret_code CACHERCISE_ERR_INVALID_CACHE\<rparr>, sv)
          else do {
            e \<leftarrow> h_load cache (elts (mem sv));
            b \<leftarrow> h_load (fst (body e)) (impls sv);
            (result, w) \<leftarrow> sum_fn b (snd (body e)) (su_x inp) (su_y inp) (world sv);
            Some (out0\<lparr>so_result := result, so_ret := ret_code CACHERCISE_SUCCESS\<rparr>, sv\<lparr>world := w\<rparr>) } })"

text \<open>
  The backend reads and writes through \<open>&in.scratch\<close>, one object of type
  \<open>int64_t\<close>; \<open>in.kind\<close> is converted to \<open>int\<close> for the call.
\<close>

definition cachercise_io_ult ::
  "io_in_t option \<Rightarrow> io_out_t \<Rightarrow> 'w server \<Rightarrow> (io_out_t \<times> 'w server) option" where
  "cachercise_io_ult input out0 sv =
     (case input of
        None \<Rightarrow> Some (out0\<lparr>out_ret := scast (ret_code CACHERCISE_ERR_FROM_MERCURY)\<rparr>, sv)
      | Some inp \<Rightarrow> do {
          cache \<leftarrow> find_cache sv (io_cache_id inp);
          if cache = NULL
          then Some (out0\<lparr>out_ret := scast (ret_code CACHERCISE_ERR_INVALID_CACHE)\<rparr>, sv)
          else do {
            e \<leftarrow> h_load cache (elts (mem sv));
            b \<leftarrow> h_load (fst (body e)) (impls sv);
            (result, scratch, w) \<leftarrow> io b (snd (body e)) (io_count inp) (io_offset inp)
              [io_scratch inp] (ucast (io_kind inp)) (world sv);
            scr \<leftarrow> arr_get scratch 0;
            Some (out0\<lparr>out_result := result, out_ret := scast (ret_code CACHERCISE_SUCCESS),
                       out_bytes := result * 8, out_scratch := scr\<rparr>,
                  sv\<lparr>world := w\<rparr>) } })"

end
