(* ===== verification/Provider_Hash.thy ===== *)
theory Provider_Hash
  imports Provider
begin

text \<open>
  The hash of caches of a provider: the invariant \<open>table_inv\<close>, the map from ids to
  open contexts it stands for, and the functional behaviour of \<open>find_cache\<close>,
  \<open>add_cache\<close> and \<open>remove_cache\<close> on that map.
\<close>

section \<open>Allocating and freeing structs\<close>

definition with_new :: "'b \<Rightarrow> cachercise_cache_id_t \<Rightarrow> 'b umem \<Rightarrow> 'b umem" where
  "with_new bd k m = m\<lparr>elts := (elts m)\<lparr>cells := (cells (elts m))
      (brk (elts m) \<mapsto> \<lparr>body = bd, cid = k, hh = zero_handle\<rparr>), brk := Suc (brk (elts m))\<rparr>\<rparr>"

lemma with_new_simps [simp]:
  "tbls (with_new bd k m) = tbls m"
  "live (with_new bd k m) x \<longleftrightarrow> x = brk (elts m) \<or> live m x"
  "cidf (with_new bd k m) = (cidf m)(brk (elts m) := k)"
  "bodyf (with_new bd k m) = (bodyf m)(brk (elts m) := bd)"
  "x \<noteq> brk (elts m) \<Longrightarrow> hnd (with_new bd k m) x = hnd m x"
  "brk (elts (with_new bd k m)) = Suc (brk (elts m))"
  "grants (elts (with_new bd k m)) = grants (elts m)"
  by (auto simp: with_new_def live_def cidf_def bodyf_def hnd_def fun_eq_iff)

lemma with_new_elts: "m\<lparr>elts := elts (with_new bd k m)\<rparr> = with_new bd k m"
  by (simp add: with_new_def)

lemma heap_wf_with_new: "heap_wf (elts m) \<Longrightarrow> heap_wf (elts (with_new bd k m))"
  by (simp add: with_new_def heap_wf_def)

lemma live_not_brk: "heap_wf (elts m) \<Longrightarrow> live m x \<Longrightarrow> x \<noteq> brk (elts m)"
  by (auto simp: live_def)

lemma hash_ok_with_new:
  assumes "hash_ok head m xs" and "heap_wf (elts m)"
  shows "hash_ok head (with_new bd k m) xs"
proof (rule hash_ok_frame [OF assms(1)])
  fix x assume "x \<in> set xs"
  with hash_okD(6) [OF assms(1)] live_not_brk [OF assms(2)] have "live m x" "x \<noteq> brk (elts m)" by auto
  then show "live (with_new bd k m) x \<and> hnd (with_new bd k m) x = hnd m x
      \<and> cidf (with_new bd k m) x = cidf m x" by simp
qed simp

lemma log2_of_with_new:
  assumes "hash_ok head m xs" and "heap_wf (elts m)"
  shows "log2_of head (with_new bd k m) = log2_of head m"
proof (cases xs)
  case Nil
  then have "head = None" using hash_okD(1) [OF assms(1)] by simp
  then show ?thesis by (simp add: log2_of_def the_tbl_def tblp_def)
next
  case (Cons x ys)
  then have h: "head = Some x" "live m x" using hash_okD(1,6) [OF assms(1)] by auto
  with live_not_brk [OF assms(2)] have "x \<noteq> brk (elts m)" by auto
  then show ?thesis using h by (simp add: log2_of_def the_tbl_if)
qed

text \<open>\<open>HASH_DEL\<close> followed by \<open>free\<close>.\<close>

definition without :: "addr \<Rightarrow> 'b umem \<Rightarrow> 'b umem" where
  "without a m = m\<lparr>elts := (elts m)\<lparr>cells := (cells (elts m))(a := None)\<rparr>\<rparr>"

lemma without_simps [simp]:
  "tbls (without a m) = tbls m"
  "live (without a m) x \<longleftrightarrow> x \<noteq> a \<and> live m x"
  "x \<noteq> a \<Longrightarrow> cidf (without a m) x = cidf m x"
  "x \<noteq> a \<Longrightarrow> bodyf (without a m) x = bodyf m x"
  "x \<noteq> a \<Longrightarrow> hnd (without a m) x = hnd m x"
  "brk (elts (without a m)) = brk (elts m)"
  "grants (elts (without a m)) = grants (elts m)"
  by (auto simp: without_def live_def cidf_def bodyf_def hnd_def)

lemma heap_wf_without: "heap_wf (elts m) \<Longrightarrow> heap_wf (elts (without a m))"
  by (simp add: without_def heap_wf_def)

lemma free_live: "live m a \<Longrightarrow> h_free (Some a) (elts m) = Some (elts (without a m))"
  by (auto simp: without_def live_def)

lemma without_elts: "m\<lparr>elts := elts (without a m)\<rparr> = without a m"
  by (simp add: without_def)

lemma hash_ok_without:
  assumes "hash_ok head m xs" and "a \<notin> set xs"
  shows "hash_ok head (without a m) xs"
proof (rule hash_ok_frame [OF assms(1)])
  fix x assume x: "x \<in> set xs"
  with assms(2) have "x \<noteq> a" by auto
  with x hash_okD(6) [OF assms(1)] show "live (without a m) x \<and> hnd (without a m) x = hnd m x
      \<and> cidf (without a m) x = cidf m x" by auto
qed simp

lemma del_then_free:
  assumes ok: "hash_ok head m xs" and a: "a \<in> set xs" and wf: "heap_wf (elts m)"
  obtains m' where "HASH_DEL head (Some a) m = Some (hdp (remove1 a xs), m')"
    "live m' a" "cidf m' = cidf m" "bodyf m' = bodyf m"
    "h_free (Some a) (elts m') = Some (elts (without a m'))"
    "hash_ok (hdp (remove1 a xs)) (without a m') (remove1 a xs)"
    "heap_wf (elts (without a m'))" "grants (elts m') = grants (elts m)" "brk (elts m') = brk (elts m)"
    "grants (tbls m') = grants (tbls m)" "brk (tbls m') = brk (tbls m)"
proof -
  from HASH_DEL_ok [OF ok a] obtain m' where m': "HASH_DEL head (Some a) m = Some (hdp (remove1 a xs), m')"
    "hash_ok (hdp (remove1 a xs)) m' (remove1 a xs)" "same_ids m m'"
    "grants (tbls m') = grants (tbls m)" "brk (tbls m') = brk (tbls m)" by blast
  note s = same_idsD [OF m'(3)]
  have l: "live m' a" using s(1) hash_okD(6) [OF ok a] by simp
  have na: "a \<notin> set (remove1 a xs)" using hash_okD(2) [OF ok] by simp
  show thesis
    using m' l s free_live [OF l] hash_ok_without [OF m'(2) na]
      heap_wf_without [of m' a] same_ids_heap_wf [OF m'(3)] wf
    by (intro that [of m']) (auto simp: same_ids_def fun_eq_iff)
qed

section \<open>The invariant\<close>

definition table_inv :: "'w server \<Rightarrow> addr list \<Rightarrow> bool" where
  "table_inv sv xs \<longleftrightarrow> hash_ok (caches (prov sv)) (mem sv) xs \<and> heap_wf (elts (mem sv))
     \<and> num_caches (prov sv) = of_nat (length xs)"

text \<open>The caches in the order of the list, and the map they stand for.\<close>

definition cache_list :: "'w server \<Rightarrow> addr list \<Rightarrow> (cachercise_cache_id_t \<times> open_ctx) list" where
  "cache_list sv xs = map (\<lambda>a. (cidf (mem sv) a, bodyf (mem sv) a)) xs"

definition cache_map :: "'w server \<Rightarrow> addr list \<Rightarrow> cachercise_cache_id_t \<Rightarrow> open_ctx option" where
  "cache_map sv xs = map_of (cache_list sv xs)"

text \<open>The allocations an insertion makes succeed, and the table is below its maximum size.\<close>

definition table_room :: "'w server \<Rightarrow> bool" where
  "table_room sv \<longleftrightarrow> log2_of (caches (prov sv)) (mem sv) < 31 \<and> no_oom (tbls (mem sv))
     \<and> unat (num_caches (prov sv)) + 1 < 2 ^ 32 \<and> grants (elts (mem sv)) (brk (elts (mem sv)))"

text \<open>Room for \<open>n\<close> insertions in a row.\<close>

definition table_space :: "nat \<Rightarrow> 'w server \<Rightarrow> bool" where
  "table_space n sv \<longleftrightarrow> log2_of (caches (prov sv)) (mem sv) + n \<le> 31 \<and> no_oom (tbls (mem sv))
     \<and> unat (num_caches (prov sv)) + n < 2 ^ 32 \<and> no_oom (elts (mem sv))"

lemma table_space_room: "table_space (Suc n) sv \<Longrightarrow> table_room sv"
  by (simp add: table_space_def table_room_def no_oom_def)

lemma table_space_new:
  assumes "table_inv sv xs"
  shows "table_space (Suc n) sv \<Longrightarrow> table_space n (sv\<lparr>mem := with_new bd k (mem sv)\<rparr>)"
  using assms log2_of_with_new [of "caches (prov sv)" "mem sv" xs bd k]
  by (auto simp: table_space_def table_inv_def no_oom_def with_new_def)

lemma table_invD:
  assumes "table_inv sv xs"
  shows "hash_ok (caches (prov sv)) (mem sv) xs" "heap_wf (elts (mem sv))"
    "num_caches (prov sv) = of_nat (length xs)" "unat (num_caches (prov sv)) = length xs"
    "distinct xs" "inj_on (cidf (mem sv)) (set xs)"
  using assms hash_okD(2-4) [of "caches (prov sv)" "mem sv" xs]
  by (auto simp: table_inv_def unat_of_nat)

lemma table_inv_world [simp]:
  "table_inv (sv\<lparr>world := w\<rparr>) xs = table_inv sv xs"
  "cache_list (sv\<lparr>world := w\<rparr>) xs = cache_list sv xs"
  "cache_map (sv\<lparr>world := w\<rparr>) xs = cache_map sv xs"
  by (simp_all add: table_inv_def cache_list_def cache_map_def)

lemma find_cache_world [simp]: "find_cache (sv\<lparr>world := w\<rparr>) k = find_cache sv k"
  by (simp add: find_cache_def)

lemma cache_map_Some:
  assumes "table_inv sv xs" and "a \<in> set xs"
  shows "cache_map sv xs (cidf (mem sv) a) = Some (bodyf (mem sv) a)"
  using table_invD(5,6) [OF assms(1)] assms(2)
proof (induction xs)
  case (Cons x xs)
  then show ?case by (auto simp: cache_map_def cache_list_def inj_on_def)
qed simp

lemma cache_map_None: "cache_map sv xs k = None \<longleftrightarrow> k \<notin> cidf (mem sv) ` set xs"
  by (simp add: cache_map_def cache_list_def map_of_eq_None_iff image_image)

text \<open>\<open>find_cache\<close> returns the struct whose id it is given, \<open>NULL\<close> when there is none.\<close>

lemma find_cache_cases:
  assumes inv: "table_inv sv xs"
  obtains (absent) "find_cache sv k = Some NULL" "cache_map sv xs k = None"
  | (found) a where "find_cache sv k = Some (Some a)" "a \<in> set xs" "cidf (mem sv) a = k" "live (mem sv) a"
      "cache_map sv xs k = Some (bodyf (mem sv) a)"
proof -
  note ok = table_invD(1) [OF inv]
  have f: "find_cache sv k = Some (map_of (entries (mem sv) xs) k)"
    using HASH_FIND_ok [OF ok] by (simp add: find_cache_def)
  show thesis
  proof (cases "map_of (entries (mem sv) xs) k")
    case None
    with f show thesis by (intro absent) (simp_all add: map_of_entries_None cache_map_None)
  next
    case (Some a)
    then have a: "a \<in> set xs" "cidf (mem sv) a = k"
      using map_of_entries_Some [OF table_invD(6) [OF inv]] by simp_all
    with f Some hash_okD(6) [OF ok] cache_map_Some [OF inv a(1)] show thesis
      by (intro found [of a]) simp_all
  qed
qed

lemma find_cache_defined: "table_inv sv xs \<Longrightarrow> find_cache sv k \<noteq> None"
  using find_cache_cases [of sv xs k] by (metis option.distinct(1))

section \<open>add_cache\<close>

text \<open>
  Adding a freshly allocated struct: refused when its id is taken, else the last
  of the list, and the map gets one entry.
\<close>

lemma add_cache_dup:
  assumes inv: "table_inv sv xs" and k: "cache_map sv xs k \<noteq> None"
  shows "add_cache (sv\<lparr>mem := with_new bd k (mem sv)\<rparr>) (Some (brk (elts (mem sv))))
      = Some (CACHERCISE_ERR_INVALID_CACHE, sv\<lparr>mem := with_new bd k (mem sv)\<rparr>)" (is "add_cache ?sv _ = _")
    and "table_inv (sv\<lparr>mem := with_new bd k (mem sv)\<rparr>) xs"
    and "cache_list (sv\<lparr>mem := with_new bd k (mem sv)\<rparr>) xs = cache_list sv xs"
proof -
  note ok = table_invD(1,2) [OF inv]
  have nb: "x \<noteq> brk (elts (mem sv))" if "x \<in> set xs" for x
    using that hash_okD(6) [OF ok(1)] live_not_brk [OF ok(2)] by auto
  show i: "table_inv ?sv xs"
    using inv hash_ok_with_new [OF ok] heap_wf_with_new [OF ok(2)] by (simp add: table_inv_def)
  show l: "cache_list ?sv xs = cache_list sv xs"
    using nb by (auto simp: cache_list_def)
  have "cache_map ?sv xs k \<noteq> None" using k l by (simp add: cache_map_def)
  with i obtain a where "find_cache ?sv k = Some (Some a)"
    by (cases rule: find_cache_cases [OF i, of k]) auto
  then show "add_cache ?sv (Some (brk (elts (mem sv)))) = Some (CACHERCISE_ERR_INVALID_CACHE, ?sv)"
    by (simp add: add_cache_def load_elt del: h_load_simps)
qed

lemma add_cache_new:
  assumes inv: "table_inv sv xs" and k: "cache_map sv xs k = None" and room: "table_room sv"
  shows "\<exists>sv'. add_cache (sv\<lparr>mem := with_new bd k (mem sv)\<rparr>) (Some (brk (elts (mem sv))))
      = Some (CACHERCISE_SUCCESS, sv') \<and> table_inv sv' (xs @ [brk (elts (mem sv))])
    \<and> cache_list sv' (xs @ [brk (elts (mem sv))]) = cache_list sv xs @ [(k, bd)]
    \<and> self sv' = self sv \<and> impls sv' = impls sv \<and> world sv' = world sv
    \<and> token (prov sv') = token (prov sv) \<and> num_backend_types (prov sv') = num_backend_types (prov sv)
    \<and> backend_types (prov sv') = backend_types (prov sv)
    \<and> (\<forall>n. table_space (Suc n) sv \<longrightarrow> table_space n sv')"
proof -
  note ok = table_invD(1,2) [OF inv]
  let ?a = "brk (elts (mem sv))" and ?m = "with_new bd k (mem sv)"
  let ?sv = "sv\<lparr>mem := ?m\<rparr>"
  have nb: "x \<noteq> ?a" if "x \<in> set xs" for x
    using that hash_okD(6) [OF ok(1)] live_not_brk [OF ok(2)] by auto
  have i: "table_inv ?sv xs"
    using inv hash_ok_with_new [OF ok] heap_wf_with_new [OF ok(2)] by (simp add: table_inv_def)
  have l: "cache_list ?sv xs = cache_list sv xs"
    using nb by (auto simp: cache_list_def)
  have km: "cache_map ?sv xs k = None" using k l by (simp add: cache_map_def)
  then have f: "find_cache ?sv k = Some NULL"
    by (cases rule: find_cache_cases [OF i, of k]) auto
  have kn: "cidf ?m ?a \<notin> cidf ?m ` set xs" using km by (simp add: cache_map_None)
  have len: "length xs + 1 < 2 ^ 32" using room table_invD(4) [OF inv] by (simp add: table_room_def)
  have lg: "log2_of (caches (prov sv)) ?m < 31"
    using room log2_of_with_new [OF ok] by (simp add: table_room_def)
  have "no_oom (tbls ?m)" using room by (simp add: table_room_def)
  from HASH_ADD_ok [OF table_invD(1) [OF i, simplified] _ _ kn len lg this] nb
  obtain m' where m': "HASH_ADD (caches (prov sv)) 16 (Some ?a) ?m = Some (hdp (xs @ [?a]), m')"
    "hash_ok (hdp (xs @ [?a])) m' (xs @ [?a])" "same_ids ?m m'" "no_oom (tbls m')"
    "log2_of (hdp (xs @ [?a])) m' \<le> Suc (log2_of (caches (prov sv)) ?m)" by auto
  note s = same_idsD [OF m'(3)]
  let ?sv' = "sv\<lparr>mem := m', prov := (prov sv)\<lparr>caches := hdp (xs @ [?a]),
      num_caches := num_caches (prov sv) + 1\<rparr>\<rparr>"
  have "add_cache ?sv (Some ?a) = Some (CACHERCISE_SUCCESS, ?sv')"
    using f m'(1) by (simp add: add_cache_def load_elt del: h_load_simps)
  moreover have "table_inv ?sv' (xs @ [?a])"
    using m'(2) same_ids_heap_wf [OF m'(3)] heap_wf_with_new [OF ok(2)] table_invD(3) [OF inv]
    by (simp add: table_inv_def)
  moreover have "cache_list ?sv' (xs @ [?a]) = cache_list sv xs @ [(k, bd)]"
    using nb by (auto simp: cache_list_def s(2,3))
  moreover have "table_space n ?sv'" if "table_space (Suc n) sv" for n
  proof -
    have "no_oom (elts m')" using that m'(3) by (auto simp: table_space_def no_oom_def same_ids_def with_new_def)
    moreover have "unat (num_caches (prov sv) + 1) \<le> Suc (unat (num_caches (prov sv)))" by (rule unat_inc_le)
    ultimately show ?thesis
      using that m'(4,5) log2_of_with_new [OF ok, of bd k] by (simp add: table_space_def)
  qed
  ultimately show ?thesis by auto
qed

section \<open>remove_cache\<close>

lemma cache_list_remove1:
  assumes "table_inv sv xs" and "a \<in> set xs"
  shows "map_of (cache_list sv (remove1 a xs)) = (cache_map sv xs)(cidf (mem sv) a := None)"
  using table_invD(5,6) [OF assms(1)] assms(2) unfolding cache_map_def
proof (induction xs)
  case (Cons x xs)
  show ?case
  proof (cases "x = a")
    case True
    with Cons.prems have "cidf (mem sv) a \<notin> cidf (mem sv) ` set xs" by (auto simp: inj_on_def)
    then have "map_of (cache_list sv xs) (cidf (mem sv) a) = None"
      using cache_map_None [of sv xs "cidf (mem sv) a"] by (simp add: cache_map_def)
    with True show ?thesis by (auto simp: cache_list_def fun_eq_iff)
  next
    case False
    with Cons.prems have "cidf (mem sv) x \<noteq> cidf (mem sv) a" "a \<in> set xs" by (auto simp: inj_on_def)
    with False Cons show ?thesis by (auto simp: cache_list_def fun_eq_iff inj_on_insert)
  qed
qed simp

text \<open>The state after the struct at \<open>a\<close> has been deleted and freed.\<close>

definition removed :: "'w server \<Rightarrow> addr list \<Rightarrow> addr \<Rightarrow> 'w server \<Rightarrow> bool" where
  "removed sv xs a sv' \<longleftrightarrow> table_inv sv' (remove1 a xs)
     \<and> cache_list sv' (remove1 a xs) = cache_list sv (remove1 a xs)
     \<and> self sv' = self sv \<and> impls sv' = impls sv
     \<and> token (prov sv') = token (prov sv) \<and> num_backend_types (prov sv') = num_backend_types (prov sv)
     \<and> backend_types (prov sv') = backend_types (prov sv)"

lemma removed_map:
  assumes "table_inv sv xs" and "a \<in> set xs" and "removed sv xs a sv'"
  shows "cache_map sv' (remove1 a xs) = (cache_map sv xs)(cidf (mem sv) a := None)"
  using cache_list_remove1 [OF assms(1,2)] assms(3) by (simp add: removed_def cache_map_def)

lemma remove_cache_absent:
  assumes "table_inv sv xs" and "cache_map sv xs k = None"
  shows "remove_cache sv k c = Some (CACHERCISE_ERR_INVALID_CACHE, sv)"
proof -
  from assms have "find_cache sv k = Some NULL" by (cases rule: find_cache_cases [of sv xs k]) auto
  then show ?thesis by (simp add: remove_cache_def)
qed

lemma of_nat_remove1:
  assumes "a \<in> set xs"
  shows "(of_nat (length xs) :: 'a::len word) - 1 = of_nat (length (remove1 a xs))"
proof -
  from assms have "length xs = Suc (length (remove1 a xs))"
    using length_pos_if_in_set [of a xs] by (simp add: length_remove1)
  then have "(of_nat (length xs) :: 'a word) = of_nat (Suc (length (remove1 a xs)))" by simp
  then show ?thesis by simp
qed

lemma removed_list:
  assumes "table_inv sv xs" and "a \<in> set xs" and "removed sv xs a sv'"
  shows "cache_list sv' (remove1 a xs) = filter (\<lambda>p. fst p \<noteq> cidf (mem sv) a) (cache_list sv xs)"
proof -
  have "cache_list sv (remove1 a ys) = filter (\<lambda>p. fst p \<noteq> cidf (mem sv) a) (cache_list sv ys)"
    if "distinct ys" "inj_on (cidf (mem sv)) (set ys)" "a \<in> set ys" for ys
    using that
  proof (induction ys)
    case (Cons y ys)
    show ?case
    proof (cases "y = a")
      case True
      with Cons.prems have "cidf (mem sv) z \<noteq> cidf (mem sv) a" if "z \<in> set ys" for z
        using that by (auto simp: inj_on_def)
      then have "filter (\<lambda>p. fst p \<noteq> cidf (mem sv) a) (cache_list sv ys) = cache_list sv ys"
        by (auto simp: cache_list_def filter_id_conv)
      with True show ?thesis by (simp add: cache_list_def)
    next
      case False
      with Cons.prems have "cidf (mem sv) y \<noteq> cidf (mem sv) a" by (auto simp: inj_on_def)
      with False Cons show ?thesis by (simp add: cache_list_def)
    qed
  qed simp
  from this [OF table_invD(5,6) [OF assms(1)] assms(2)] show ?thesis
    using assms(3) by (simp add: removed_def)
qed

lemma remove_cache_found:
  assumes inv: "table_inv sv xs" and a: "find_cache sv k = Some (Some a)" "a \<in> set xs"
    and b: "h_load (fst (bodyf (mem sv) a)) (impls sv) = Some b"
    and c: "close \<Longrightarrow> close_cache b (snd (bodyf (mem sv) a)) (world sv) = Some (r, w)"
    and n: "\<not> close \<Longrightarrow> r = CACHERCISE_SUCCESS \<and> w = world sv"
  shows "\<exists>sv'. remove_cache sv k close = Some (r, sv') \<and> removed sv xs a sv' \<and> world sv' = w"
proof -
  note ok = table_invD(1,2) [OF inv]
  obtain m' where m': "HASH_DEL (caches (prov sv)) (Some a) (mem sv) = Some (hdp (remove1 a xs), m')"
    "live m' a" "cidf m' = cidf (mem sv)" "bodyf m' = bodyf (mem sv)"
    "h_free (Some a) (elts m') = Some (elts (without a m'))"
    "hash_ok (hdp (remove1 a xs)) (without a m') (remove1 a xs)"
    "heap_wf (elts (without a m'))" by (rule del_then_free [OF ok(1) a(2) ok(2)])
  let ?sv' = "sv\<lparr>mem := without a m', world := w,
      prov := (prov sv)\<lparr>caches := hdp (remove1 a xs), num_caches := num_caches (prov sv) - 1\<rparr>\<rparr>"
  have "remove_cache sv k close = Some (r, ?sv')"
    using a(1) b c n m'(1,5) hash_okD(6) [OF ok(1) a(2)]
    by (cases close) (simp_all add: remove_cache_def load_elt without_elts del: h_load_simps h_free_simps)
  moreover have "x \<noteq> a" if "x \<in> set (remove1 a xs)" for x
    using that hash_okD(2) [OF ok(1)] by auto
  then have "cache_list ?sv' (remove1 a xs) = cache_list sv (remove1 a xs)"
    using m'(3,4) by (auto simp: cache_list_def)
  ultimately show ?thesis
    using m'(6,7) table_invD(3) [OF inv] of_nat_remove1 [OF a(2)]
    by (auto simp: removed_def table_inv_def)
qed

end
