(* ===== verification/Provider_Ops.thy ===== *)
theory Provider_Ops
  imports Provider_Hash
begin

text \<open>
  The handlers of the provider under the contract \<open>backends\<close>: \<open>server_ok\<close> ties the
  hash of caches to the contexts that are open at the backends, every handler
  keeps it, and each one acts on the map from ids to contexts as its RPC says.
\<close>

section \<open>Token and backend lookup\<close>

lemma streq_Some [simp]:
  "streq (Some s) (Some t) = Some (s = t)"
  "streq None t' = None"
  "streq s' None = None"
  by (simp_all add: streq_def)

lemma check_token_open: "token p = None \<Longrightarrow> check_token p tok = Some True"
  by (simp add: check_token_def)

lemma check_token_Some:
  "token p = Some t \<Longrightarrow> check_token p (Some s) = Some (t = s)"
  "token p = Some t \<Longrightarrow> check_token p None = None"
  by (simp_all add: check_token_def)

text \<open>The first registered backend of the given name.\<close>

definition backend_named :: "'w server \<Rightarrow> string \<Rightarrow> ptr" where
  "backend_named sv nm =
     (case List.find (\<lambda>f. name (the (h_load f (impls sv))) = nm) (backend_types (prov sv)) of
        None \<Rightarrow> NULL | Some f \<Rightarrow> f)"

lemma find_backend_loop_ok:
  assumes "\<And>f. f \<in> set (drop i (backend_types (prov sv))) \<Longrightarrow> h_load f (impls sv) \<noteq> None"
    and "i + n = length (backend_types (prov sv))"
  shows "find_backend_loop n i (Some nm) sv = Some
     (case List.find (\<lambda>f. name (the (h_load f (impls sv))) = nm) (drop i (backend_types (prov sv))) of
        None \<Rightarrow> NULL | Some f \<Rightarrow> f)"
  using assms
proof (induction n arbitrary: i)
  case 0
  then show ?case by simp
next
  case (Suc n)
  then have d: "drop i (backend_types (prov sv))
      = backend_types (prov sv) ! i # drop (Suc i) (backend_types (prov sv))"
    by (simp add: Cons_nth_drop_Suc)
  then obtain b where b: "h_load (backend_types (prov sv) ! i) (impls sv) = Some b"
    using Suc.prems(1) by force
  have "find_backend_loop n (Suc i) (Some nm) sv = Some
     (case List.find (\<lambda>f. name (the (h_load f (impls sv))) = nm) (drop (Suc i) (backend_types (prov sv))) of
        None \<Rightarrow> NULL | Some f \<Rightarrow> f)"
    using Suc.prems d by (intro Suc.IH) auto
  then show ?case using Suc.prems(2) b by (simp add: d)
qed

lemma find_backend_ok:
  assumes "\<And>f. f \<in> set (backend_types (prov sv)) \<Longrightarrow> h_load f (impls sv) \<noteq> None"
    and "unat (num_backend_types (prov sv)) = length (backend_types (prov sv))"
  shows "find_backend_impl sv (Some nm) = Some (backend_named sv nm)"
  using find_backend_loop_ok [of 0 sv "unat (num_backend_types (prov sv))" nm] assms
  by (simp add: find_backend_impl_def backend_named_def)

section \<open>The invariant of the server\<close>

definition impls_ok :: "(ptr \<Rightarrow> 'w cachercise_backend_impl \<Rightarrow> bool) \<Rightarrow> 'w server \<Rightarrow> ptr set \<Rightarrow> bool" where
  "impls_ok impl sv F \<longleftrightarrow> (\<forall>f \<in> F. \<exists>b. h_load f (impls sv) = Some b \<and> impl f b)"

text \<open>
  \<open>C\<close> are the contexts open at the backends; the caches of the table have one
  each.  \<open>C\<close> may be larger than the table: a context whose cache could not be
  added is never closed.
\<close>

definition server_ok ::
  "('w \<Rightarrow> open_ctx set \<Rightarrow> bool) \<Rightarrow> (ptr \<Rightarrow> 'w cachercise_backend_impl \<Rightarrow> bool)
    \<Rightarrow> 'w server \<Rightarrow> addr list \<Rightarrow> open_ctx set \<Rightarrow> bool" where
  "server_ok W impl sv xs C \<longleftrightarrow> table_inv sv xs \<and> W (world sv) C
     \<and> snd ` set (cache_list sv xs) \<subseteq> C \<and> distinct (map snd (cache_list sv xs))
     \<and> impls_ok impl sv (fst ` C \<union> set (backend_types (prov sv)))
     \<and> unat (num_backend_types (prov sv)) = length (backend_types (prov sv))"

lemma server_okD:
  assumes "server_ok W impl sv xs C"
  shows "table_inv sv xs" "W (world sv) C" "snd ` set (cache_list sv xs) \<subseteq> C"
    "distinct (map snd (cache_list sv xs))"
    "\<And>f c. (f, c) \<in> C \<Longrightarrow> \<exists>b. h_load f (impls sv) = Some b \<and> impl f b"
    "\<And>f. f \<in> set (backend_types (prov sv)) \<Longrightarrow> \<exists>b. h_load f (impls sv) = Some b \<and> impl f b"
    "unat (num_backend_types (prov sv)) = length (backend_types (prov sv))"
  using assms by (auto simp: server_ok_def impls_ok_def ball_Un)

lemma server_ok_body: "server_ok W impl sv xs C \<Longrightarrow> a \<in> set xs \<Longrightarrow> bodyf (mem sv) a \<in> C"
  by (force simp: server_ok_def cache_list_def)

lemma server_find_backend:
  assumes "server_ok W impl sv xs C"
  shows "find_backend_impl sv (Some nm) = Some (backend_named sv nm)"
    and "backend_named sv nm \<noteq> NULL \<Longrightarrow> \<exists>b. h_load (backend_named sv nm) (impls sv) = Some b
      \<and> impl (backend_named sv nm) b \<and> name b = nm \<and> backend_named sv nm \<in> set (backend_types (prov sv))"
proof -
  note D = server_okD [OF assms]
  show "find_backend_impl sv (Some nm) = Some (backend_named sv nm)"
    using D(6,7) by (intro find_backend_ok) auto
  assume "backend_named sv nm \<noteq> NULL"
  then obtain f where f: "List.find (\<lambda>f. name (the (h_load f (impls sv))) = nm) (backend_types (prov sv)) = Some f"
    "backend_named sv nm = f" by (auto simp: backend_named_def split: option.splits)
  from f(1) have "f \<in> set (backend_types (prov sv))" "name (the (h_load f (impls sv))) = nm"
    by (auto simp: find_Some_iff)
  with D(6) [of f] f(2) show "\<exists>b. h_load (backend_named sv nm) (impls sv) = Some b
      \<and> impl (backend_named sv nm) b \<and> name b = nm \<and> backend_named sv nm \<in> set (backend_types (prov sv))"
    by auto
qed

text \<open>\<open>calloc\<close>, the three assignments and \<open>add_cache\<close> of the create and open handlers.\<close>

lemma alloc_cache:
  assumes "grants (elts (mem sv)) (brk (elts (mem sv)))"
  shows "h_alloc zero_cache (elts (mem sv)) = (Some (brk (elts (mem sv))),
      (elts (mem sv))\<lparr>cells := (cells (elts (mem sv)))(brk (elts (mem sv)) \<mapsto> zero_cache),
        brk := Suc (brk (elts (mem sv)))\<rparr>)"
    and "h_update (Some (brk (elts (mem sv)))) (\<lambda>e. e\<lparr>body := bd, cid := k\<rparr>)
      ((elts (mem sv))\<lparr>cells := (cells (elts (mem sv)))(brk (elts (mem sv)) \<mapsto> zero_cache),
        brk := Suc (brk (elts (mem sv)))\<rparr>) = Some (elts (with_new bd k (mem sv)))"
  using assms by (simp_all add: h_alloc_granted with_new_def zero_cache_def)

lemma server_ok_world:
  assumes "server_ok W impl sv xs C" and "W w C"
  shows "server_ok W impl (sv\<lparr>world := w\<rparr>) xs C"
  using assms by (simp add: server_ok_def impls_ok_def)

lemma server_ok_with_new:
  assumes ok: "server_ok W impl sv xs C" and k: "cache_map sv xs k \<noteq> None"
  shows "server_ok W impl (sv\<lparr>mem := with_new bd k (mem sv)\<rparr>) xs C"
  using assms add_cache_dup(2,3) [OF server_okD(1) [OF ok] k]
  by (simp add: server_ok_def impls_ok_def)

lemma server_ok_grow:
  assumes ok: "server_ok W impl sv xs C" and W: "W w (insert (f, c) C)" and i: "impls_ok impl sv {f}"
  shows "server_ok W impl (sv\<lparr>world := w\<rparr>) xs (insert (f, c) C)"
  using assms by (auto simp: server_ok_def impls_ok_def)

lemma server_ok_added:
  assumes ok: "server_ok W impl sv xs C" and bd: "bd \<in> C" "bd \<notin> snd ` set (cache_list sv xs)"
    and t: "table_inv sv' ys" "cache_list sv' ys = cache_list sv xs @ [(k, bd)]"
    and f: "impls sv' = impls sv" "world sv' = world sv"
      "num_backend_types (prov sv') = num_backend_types (prov sv)"
      "backend_types (prov sv') = backend_types (prov sv)"
  shows "server_ok W impl sv' ys C"
  using assms by (auto simp: server_ok_def impls_ok_def)

lemma server_ok_removed:
  assumes ok: "server_ok W impl sv xs C" and a: "a \<in> set xs" and r: "removed sv xs a sv'"
    and W: "W (world sv') (C - {bodyf (mem sv) a})"
  shows "server_ok W impl sv' (remove1 a xs) (C - {bodyf (mem sv) a})"
proof -
  note D = server_okD [OF ok]
  have m: "map snd (cache_list sv ys) = map (bodyf (mem sv)) ys" for ys
    by (simp add: cache_list_def)
  have s: "snd ` set (cache_list sv ys) = bodyf (mem sv) ` set ys" for ys
    by (force simp: cache_list_def)
  have x: "set (remove1 a xs) = set xs - {a}" "distinct (remove1 a xs)"
    using table_invD(5) [OF D(1)] by simp_all
  have i: "inj_on (bodyf (mem sv)) (set xs)" using D(4) by (simp add: m distinct_map)
  then have "distinct (map snd (cache_list sv (remove1 a xs)))"
    unfolding m distinct_map x(1) using x(2) by (auto simp: inj_on_def)
  moreover have "snd ` set (cache_list sv (remove1 a xs)) \<subseteq> C - {bodyf (mem sv) a}"
    using D(3) i a unfolding s x(1) by (auto simp: inj_on_def)
  ultimately show ?thesis using ok r W
    by (auto simp: server_ok_def removed_def impls_ok_def)
qed

section \<open>The handlers\<close>

text \<open>What a successful creation does to the server.\<close>

definition attached :: "'w server \<Rightarrow> addr list \<Rightarrow> cachercise_cache_id_t \<Rightarrow> open_ctx \<Rightarrow> 'w server \<Rightarrow> addr list \<Rightarrow> bool" where
  "attached sv xs k bd sv' ys \<longleftrightarrow>
     (if cache_map sv xs k = None then cache_list sv' ys = cache_list sv xs @ [(k, bd)]
      else cache_list sv' ys = cache_list sv xs)
     \<and> token (prov sv') = token (prov sv) \<and> impls sv' = impls sv \<and> self sv' = self sv
     \<and> backend_types (prov sv') = backend_types (prov sv)
     \<and> num_backend_types (prov sv') = num_backend_types (prov sv)
     \<and> (\<forall>n. table_space (Suc n) sv \<longrightarrow> table_space n sv')"

context backends begin

abbreviation ok :: "'w server \<Rightarrow> addr list \<Rightarrow> open_ctx set \<Rightarrow> bool" where
  "ok \<equiv> server_ok W impl"

lemma attach_ok:
  assumes sv: "ok sv xs C" and room: "table_room sv" and bd: "bd = (f, c)" "bd \<notin> C"
    and W: "W w (insert bd C)" and i: "impls_ok impl sv {f}"
  shows "\<exists>r sv' ys. add_cache (sv\<lparr>world := w, mem := with_new bd k (mem sv)\<rparr>) (Some (brk (elts (mem sv))))
      = Some (r, sv') \<and> ok sv' ys (insert bd C) \<and> attached sv xs k bd sv' ys \<and> world sv' = w"
proof -
  let ?sv = "sv\<lparr>world := w\<rparr>"
  have g: "ok ?sv xs (insert bd C)" using server_ok_grow [OF sv W [unfolded bd(1)] i] bd by simp
  note inv = server_okD(1) [OF g]
  show ?thesis
  proof (cases "cache_map sv xs k")
    case None
    then have k: "cache_map ?sv xs k = None" by simp
    have "table_room ?sv" using room by (simp add: table_room_def)
    from add_cache_new [OF inv k this, of bd] obtain sv' where s: 
      "add_cache (?sv\<lparr>mem := with_new bd k (mem sv)\<rparr>) (Some (brk (elts (mem sv)))) = Some (CACHERCISE_SUCCESS, sv')"
      "table_inv sv' (xs @ [brk (elts (mem sv))])"
      "cache_list sv' (xs @ [brk (elts (mem sv))]) = cache_list ?sv xs @ [(k, bd)]"
      "impls sv' = impls ?sv" "world sv' = world ?sv"
      "num_backend_types (prov sv') = num_backend_types (prov ?sv)"
      "backend_types (prov sv') = backend_types (prov ?sv)"
      "token (prov sv') = token (prov ?sv)" "self sv' = self ?sv"
      "\<And>n. table_space (Suc n) ?sv \<Longrightarrow> table_space n sv'" by auto
    have nb: "bd \<notin> snd ` set (cache_list ?sv xs)"
      using server_okD(3) [OF sv] bd(2) unfolding table_inv_world by blast
    have "ok sv' (xs @ [brk (elts (mem sv))]) (insert bd C)"
      by (rule server_ok_added [OF g _ nb s(2,3,4,5,6,7)]) simp
    moreover have "table_space n ?sv = table_space n sv" for n by (simp add: table_space_def)
    ultimately show ?thesis using s None by (auto simp: attached_def)
  next
    case (Some y)
    then have k: "cache_map ?sv xs k \<noteq> None" by simp
    have "ok (?sv\<lparr>mem := with_new bd k (mem sv)\<rparr>) xs (insert bd C)"
      using server_ok_with_new [OF g k, of bd] by simp
    moreover have "table_space n (?sv\<lparr>mem := with_new bd k (mem sv)\<rparr>)" if "table_space (Suc n) sv" for n
      using table_space_new [OF inv, of n bd k] that by (simp add: table_space_def)
    ultimately show ?thesis using add_cache_dup(1,3) [OF inv k, of bd] Some
      by (auto simp: attached_def)
  qed
qed

lemma create_ult_ok:
  assumes sv: "ok sv xs C" and tok: "check_token (prov sv) (cc_token inp) = Some True"
    and ty: "cc_type inp = Some nm" and be: "backend_named sv nm \<noteq> NULL"
    and room: "table_room sv" "room (world sv)"
  shows "\<exists>b ret c w out sv'. impl (backend_named sv nm) b
     \<and> create_cache b (self sv) (cc_config inp) NULL (world sv) = Some (ret, c, w)
     \<and> cachercise_create_cache_ult (Some inp) out0 uid sv = Some (out, sv')
     \<and> world sv' = w \<and> cc_ret out = ret_code ret
     \<and> (if ret = CACHERCISE_SUCCESS
        then cc_id out = uid \<and> (backend_named sv nm, c) \<notin> C
          \<and> (\<exists>ys. ok sv' ys (insert (backend_named sv nm, c) C)
               \<and> attached sv xs uid (backend_named sv nm, c) sv' ys)
        else cc_id out = cc_id out0 \<and> ok sv' xs C \<and> cache_list sv' xs = cache_list sv xs
          \<and> token (prov sv') = token (prov sv))"
proof -
  let ?f = "backend_named sv nm"
  note fb = server_find_backend [OF sv, of nm]
  from fb(2) [OF be] obtain b where b: "h_load ?f (impls sv) = Some b" "impl ?f b" by blast
  from create_total [OF server_okD(2) [OF sv] b(2) room(2)] obtain ret c w
    where cr: "create_cache b (self sv) (cc_config inp) NULL (world sv) = Some (ret, c, w)"
    by (metis not_None_eq prod_cases3)
  note law = create_law [OF server_okD(2) [OF sv] b(2) cr]
  obtain f' where f': "?f = Some f'" using be by auto
  show ?thesis
  proof (cases "ret = CACHERCISE_SUCCESS")
    case False
    then have "cachercise_create_cache_ult (Some inp) out0 uid sv
        = Some (out0\<lparr>cc_ret := ret_code ret\<rparr>, sv\<lparr>world := w\<rparr>)"
      using tok ty fb(1) b(1) cr f' by (simp add: cachercise_create_cache_ult_def)
    moreover have "ok (sv\<lparr>world := w\<rparr>) xs C" using law False by (intro server_ok_world [OF sv]) simp
    ultimately show ?thesis using False b(2) cr by (intro exI [of _ b]) simp
  next
    case True
    have i: "impls_ok impl sv {?f}" using b by (simp add: impls_ok_def)
    have "(?f, c) \<notin> C" "W w (insert (?f, c) C)" using law True by simp_all
    from attach_ok [OF sv room(1) refl this i, of uid] obtain r sv' ys
      where a: "add_cache (sv\<lparr>world := w, mem := with_new (?f, c) uid (mem sv)\<rparr>) (Some (brk (elts (mem sv))))
          = Some (r, sv')" "ok sv' ys (insert (?f, c) C)" "attached sv xs uid (?f, c) sv' ys" "world sv' = w"
      by blast
    have gr: "grants (elts (mem sv)) (brk (elts (mem sv)))" using room(1) by (simp add: table_room_def)
    have "cachercise_create_cache_ult (Some inp) out0 uid sv
        = Some (out0\<lparr>cc_ret := ret_code CACHERCISE_SUCCESS, cc_id := uid\<rparr>, sv')"
      using True tok ty fb(1) b(1) cr f' alloc_cache(1) [OF gr]
        alloc_cache(2) [OF gr, where bd = "(?f, c)" and k = uid] a(1)
      by (simp add: cachercise_create_cache_ult_def with_new_elts del: h_update_simps)
    then show ?thesis using True a(2-4) \<open>(?f, c) \<notin> C\<close> b(2) cr
      by (intro exI [of _ b] exI [of _ ret] exI [of _ c] exI [of _ w]) auto
  qed
qed

lemma open_ult_ok:
  assumes sv: "ok sv xs C" and tok: "check_token (prov sv) (oc_token inp) = Some True"
    and ty: "oc_type inp = Some nm" and be: "backend_named sv nm \<noteq> NULL"
    and room: "table_room sv" "room (world sv)"
  shows "\<exists>b ret c w out sv'. impl (backend_named sv nm) b
     \<and> open_cache b (self sv) (oc_config inp) NULL (world sv) = Some (ret, c, w)
     \<and> cachercise_open_cache_ult (Some inp) out0 uid sv = Some (out, sv')
     \<and> world sv' = w \<and> oc_ret out = ret_code ret
     \<and> (if ret = CACHERCISE_SUCCESS
        then oc_id out = uid \<and> (backend_named sv nm, c) \<notin> C
          \<and> (\<exists>ys. ok sv' ys (insert (backend_named sv nm, c) C)
               \<and> attached sv xs uid (backend_named sv nm, c) sv' ys)
        else oc_id out = oc_id out0 \<and> ok sv' xs C \<and> cache_list sv' xs = cache_list sv xs
          \<and> token (prov sv') = token (prov sv))"
proof -
  let ?f = "backend_named sv nm"
  note fb = server_find_backend [OF sv, of nm]
  from fb(2) [OF be] obtain b where b: "h_load ?f (impls sv) = Some b" "impl ?f b" by blast
  from open_total [OF server_okD(2) [OF sv] b(2) room(2)] obtain ret c w
    where cr: "open_cache b (self sv) (oc_config inp) NULL (world sv) = Some (ret, c, w)"
    by (metis not_None_eq prod_cases3)
  note law = open_law [OF server_okD(2) [OF sv] b(2) cr]
  obtain f' where f': "?f = Some f'" using be by auto
  show ?thesis
  proof (cases "ret = CACHERCISE_SUCCESS")
    case False
    then have "cachercise_open_cache_ult (Some inp) out0 uid sv
        = Some (out0\<lparr>oc_ret := ret_code ret\<rparr>, sv\<lparr>world := w\<rparr>)"
      using tok ty fb(1) b(1) cr f' by (simp add: cachercise_open_cache_ult_def)
    moreover have "ok (sv\<lparr>world := w\<rparr>) xs C" using law False by (intro server_ok_world [OF sv]) simp
    ultimately show ?thesis using False b(2) cr by (intro exI [of _ b]) simp
  next
    case True
    have i: "impls_ok impl sv {?f}" using b by (simp add: impls_ok_def)
    have "(?f, c) \<notin> C" "W w (insert (?f, c) C)" using law True by simp_all
    from attach_ok [OF sv room(1) refl this i, of uid] obtain r sv' ys
      where a: "add_cache (sv\<lparr>world := w, mem := with_new (?f, c) uid (mem sv)\<rparr>) (Some (brk (elts (mem sv))))
          = Some (r, sv')" "ok sv' ys (insert (?f, c) C)" "attached sv xs uid (?f, c) sv' ys" "world sv' = w"
      by blast
    have gr: "grants (elts (mem sv)) (brk (elts (mem sv)))" using room(1) by (simp add: table_room_def)
    have "cachercise_open_cache_ult (Some inp) out0 uid sv
        = Some (out0\<lparr>oc_ret := ret_code CACHERCISE_SUCCESS, oc_id := uid\<rparr>, sv')"
      using True tok ty fb(1) b(1) cr f' alloc_cache(1) [OF gr]
        alloc_cache(2) [OF gr, where bd = "(?f, c)" and k = uid] a(1)
      by (simp add: cachercise_open_cache_ult_def with_new_elts del: h_update_simps)
    then show ?thesis using True a(2-4) \<open>(?f, c) \<notin> C\<close> b(2) cr
      by (intro exI [of _ b] exI [of _ ret] exI [of _ c] exI [of _ w]) auto
  qed
qed

lemma close_ult_ok:
  assumes sv: "ok sv xs C" and tok: "check_token (prov sv) (cl_token inp) = Some True"
    and bd: "cache_map sv xs (cl_id inp) = Some bd"
  shows "\<exists>b ret sv' ys. impl (fst bd) b \<and> close_cache b (snd bd) (world sv) = Some (ret, world sv')
     \<and> cachercise_close_cache_ult (Some inp) out0 sv = Some (out0\<lparr>cl_ret := ret_code ret\<rparr>, sv')
     \<and> ok sv' ys (C - {bd}) \<and> cache_map sv' ys = (cache_map sv xs)(cl_id inp := None)
     \<and> cache_list sv' ys = filter (\<lambda>p. fst p \<noteq> cl_id inp) (cache_list sv xs)
     \<and> token (prov sv') = token (prov sv)"
proof -
  note D = server_okD [OF sv]
  obtain a where a: "find_cache sv (cl_id inp) = Some (Some a)" "a \<in> set xs"
    "cidf (mem sv) a = cl_id inp" "bd = bodyf (mem sv) a"
    using bd by (cases rule: find_cache_cases [OF D(1), of "cl_id inp"]) auto
  have "bd \<in> C" using server_ok_body [OF sv a(2)] a(4) by simp
  then have fc: "(fst bd, snd bd) \<in> C" by simp
  from D(5) [OF this] obtain b where b: "h_load (fst bd) (impls sv) = Some b" "impl (fst bd) b" by blast
  from close_law [OF D(2) b(2) fc] obtain r w where r: "close_cache b (snd bd) (world sv) = Some (r, w)"
    "W w (C - {bd})" by auto
  from remove_cache_found [OF D(1) a(1,2), of b True r w] b r a(4) obtain sv'
    where s: "remove_cache sv (cl_id inp) True = Some (r, sv')" "removed sv xs a sv'" "world sv' = w"
    by auto
  have "ok sv' (remove1 a xs) (C - {bd})"
    using server_ok_removed [OF sv a(2) s(2)] r(2) s(3) a(4) by simp
  moreover have "cache_map sv' (remove1 a xs) = (cache_map sv xs)(cl_id inp := None)"
    using removed_map [OF D(1) a(2) s(2)] a(3) by simp
  moreover have "cache_list sv' (remove1 a xs) = filter (\<lambda>p. fst p \<noteq> cl_id inp) (cache_list sv xs)"
    using removed_list [OF D(1) a(2) s(2)] a(3) by simp
  moreover have "token (prov sv') = token (prov sv)" using s(2) by (simp add: removed_def)
  moreover have "cachercise_close_cache_ult (Some inp) out0 sv = Some (out0\<lparr>cl_ret := ret_code r\<rparr>, sv')"
    using tok s(1) by (simp add: cachercise_close_cache_ult_def)
  ultimately show ?thesis using b(2) r(1) s(3)
    by (intro exI [of _ b] exI [of _ r] exI [of _ sv'] exI [of _ "remove1 a xs"]) simp
qed

lemma destroy_ult_ok:
  assumes sv: "ok sv xs C" and tok: "check_token (prov sv) (ds_token inp) = Some True"
    and bd: "cache_map sv xs (ds_id inp) = Some bd"
  shows "\<exists>b r sv' ys. impl (fst bd) b \<and> destroy_cache b (snd bd) (world sv) = Some (r, world sv')
     \<and> cachercise_destroy_cache_ult (Some inp) out0 sv
        = Some (out0\<lparr>ds_ret := ret_code CACHERCISE_SUCCESS\<rparr>, sv')
     \<and> ok sv' ys (C - {bd}) \<and> cache_map sv' ys = (cache_map sv xs)(ds_id inp := None)
     \<and> cache_list sv' ys = filter (\<lambda>p. fst p \<noteq> ds_id inp) (cache_list sv xs)
     \<and> token (prov sv') = token (prov sv)"
proof -
  note D = server_okD [OF sv]
  obtain a where a: "find_cache sv (ds_id inp) = Some (Some a)" "a \<in> set xs"
    "cidf (mem sv) a = ds_id inp" "bd = bodyf (mem sv) a" "live (mem sv) a"
    using bd by (cases rule: find_cache_cases [OF D(1), of "ds_id inp"]) auto
  have "bd \<in> C" using server_ok_body [OF sv a(2)] a(4) by simp
  then have fc: "(fst bd, snd bd) \<in> C" by simp
  from D(5) [OF this] obtain b where b: "h_load (fst bd) (impls sv) = Some b" "impl (fst bd) b" by blast
  from destroy_law [OF D(2) b(2) fc] obtain r w where r: "destroy_cache b (snd bd) (world sv) = Some (r, w)"
    "W w (C - {bd})" by auto
  let ?sv = "sv\<lparr>world := w\<rparr>"
  have inv: "table_inv ?sv xs" using D(1) by simp
  from remove_cache_found [OF inv, of "ds_id inp" a b False CACHERCISE_SUCCESS w] b a obtain sv'
    where s: "remove_cache ?sv (ds_id inp) False = Some (CACHERCISE_SUCCESS, sv')"
      "removed ?sv xs a sv'" "world sv' = w"
    by auto
  have s2: "removed sv xs a sv'" using s(2) by (simp add: removed_def)
  have "ok sv' (remove1 a xs) (C - {bd})"
    using server_ok_removed [OF sv a(2) s2] r(2) s(3) a(4) by simp
  moreover have "cache_map sv' (remove1 a xs) = (cache_map sv xs)(ds_id inp := None)"
    using removed_map [OF D(1) a(2) s2] a(3) by simp
  moreover have "cache_list sv' (remove1 a xs) = filter (\<lambda>p. fst p \<noteq> ds_id inp) (cache_list sv xs)"
    using removed_list [OF D(1) a(2) s2] a(3) by simp
  moreover have "token (prov sv') = token (prov sv)" using s2 by (simp add: removed_def)
  moreover have "cachercise_destroy_cache_ult (Some inp) out0 sv
      = Some (out0\<lparr>ds_ret := ret_code CACHERCISE_SUCCESS\<rparr>, sv')"
    using tok a b(1) r(1) s(1)
    by (simp add: cachercise_destroy_cache_ult_def load_elt del: h_load_simps)
  ultimately show ?thesis using b(2) r(1) s(3)
    by (intro exI [of _ b] exI [of _ r] exI [of _ sv'] exI [of _ "remove1 a xs"]) simp
qed

lemma call_cache:
  assumes sv: "ok sv xs C" and bd: "cache_map sv xs k = Some (f, c)"
  obtains a b where "find_cache sv k = Some (Some a)" "live (mem sv) a" "bodyf (mem sv) a = (f, c)"
    "h_load f (impls sv) = Some b" "impl f b" "(f, c) \<in> C"
proof -
  note D = server_okD [OF sv]
  obtain a where a: "find_cache sv k = Some (Some a)" "a \<in> set xs"
    "bodyf (mem sv) a = (f, c)" "live (mem sv) a"
    using bd by (cases rule: find_cache_cases [OF D(1), of k]) auto
  have "(f, c) \<in> C" using D(3) a(2,3) by (force simp: cache_list_def)
  with D(5) [OF this] a that show thesis by blast
qed

lemma hello_ult_ok:
  assumes sv: "ok sv xs C" and bd: "cache_map sv xs (he_cache_id inp) = Some (f, c)"
  shows "\<exists>b w. impl f b \<and> hello b c (world sv) = Some w
     \<and> cachercise_hello_ult (Some inp) sv = Some (sv\<lparr>world := w\<rparr>) \<and> ok (sv\<lparr>world := w\<rparr>) xs C"
proof -
  obtain a b where a: "find_cache sv (he_cache_id inp) = Some (Some a)" "live (mem sv) a"
    "bodyf (mem sv) a = (f, c)" "h_load f (impls sv) = Some b" "impl f b" "(f, c) \<in> C"
    by (rule call_cache [OF sv bd])
  from hello_law [OF server_okD(2) [OF sv] a(5,6)] obtain w where w: "hello b c (world sv) = Some w" "W w C"
    by blast
  then show ?thesis using a server_ok_world [OF sv w(2)]
    by (auto simp: cachercise_hello_ult_def load_elt simp del: h_load_simps)
qed

lemma sum_ult_ok:
  assumes sv: "ok sv xs C" and bd: "cache_map sv xs (su_cache_id inp) = Some (f, c)"
  shows "\<exists>b. impl f b \<and> cachercise_sum_ult (Some inp) out0 sv =
      map_option (\<lambda>(s, w). (out0\<lparr>so_result := s, so_ret := ret_code CACHERCISE_SUCCESS\<rparr>, sv\<lparr>world := w\<rparr>))
        (sum_fn b c (su_x inp) (su_y inp) (world sv))
     \<and> (\<forall>s w. sum_fn b c (su_x inp) (su_y inp) (world sv) = Some (s, w) \<longrightarrow> ok (sv\<lparr>world := w\<rparr>) xs C)"
proof -
  obtain a b where a: "find_cache sv (su_cache_id inp) = Some (Some a)" "live (mem sv) a"
    "bodyf (mem sv) a = (f, c)" "h_load f (impls sv) = Some b" "impl f b" "(f, c) \<in> C"
    by (rule call_cache [OF sv bd])
  have "ok (sv\<lparr>world := w\<rparr>) xs C"
    if "sum_fn b c (su_x inp) (su_y inp) (world sv) = Some (s, w)" for s w
    using sum_law [OF server_okD(2) [OF sv] a(5,6) that] by (rule server_ok_world [OF sv])
  then show ?thesis using a
    by (intro exI [of _ b]; cases "sum_fn b c (su_x inp) (su_y inp) (world sv)")
      (auto simp: cachercise_sum_ult_def load_elt simp del: h_load_simps)
qed

lemma io_ult_ok:
  assumes sv: "ok sv xs C" and bd: "cache_map sv xs (io_cache_id inp) = Some (f, c)"
    and r: "cachercise_io_ult (Some inp) out0 sv = Some (out, sv')"
  shows "\<exists>b t scr w. impl f b
     \<and> io b c (io_count inp) (io_offset inp) [io_scratch inp] (ucast (io_kind inp)) (world sv) = Some (t, [scr], w)
     \<and> out = \<lparr>out_bytes = t * 8, out_scratch = scr, out_result = t, out_ret = 0\<rparr>
     \<and> sv' = sv\<lparr>world := w\<rparr> \<and> ok sv' xs C"
proof -
  obtain a b where a: "find_cache sv (io_cache_id inp) = Some (Some a)" "live (mem sv) a"
    "bodyf (mem sv) a = (f, c)" "h_load f (impls sv) = Some b" "impl f b" "(f, c) \<in> C"
    by (rule call_cache [OF sv bd])
  from r a obtain t buf w scr where io: "io b c (io_count inp) (io_offset inp) [io_scratch inp]
      (ucast (io_kind inp)) (world sv) = Some (t, buf, w)"
    and s: "arr_get buf 0 = Some scr" and o: "out = out0\<lparr>out_result := t, out_ret := 0, out_bytes := t * 8,
      out_scratch := scr\<rparr>" "sv' = sv\<lparr>world := w\<rparr>"
    by (auto simp: cachercise_io_ult_def load_elt bind_Some_iff simp del: h_load_simps)
  from io_law [OF server_okD(2) [OF sv] a(5,6) io] have l: "W w C" "length buf = 1" by auto
  then have "buf = [scr]" using s by (cases buf) (auto simp: arr_get_eq_Some)
  with io a(5) o server_ok_world [OF sv l(1)] show ?thesis by (cases out) auto
qed

end

section \<open>Listing\<close>

lemma list_caches_ids:
  assumes inv: "table_inv sv xs"
  shows "HASH_ITER (list_body (mem sv)) (\<lambda>_. mem sv) (caches (prov sv)) (Some (replicate (length xs) 0), 0)
    = Some (Some (map fst (cache_list sv xs)), of_nat (length xs))"
proof -
  note ok = table_invD(1) [OF inv]
  have len: "length xs < 2 ^ 32" by (rule hash_okD(4) [OF ok])
  define I where "I ys s \<longleftrightarrow> (\<exists>as. xs = as @ ys
      \<and> s = (Some (map (cidf (mem sv)) as @ replicate (length ys) 0), of_nat (length as)))"
    for ys and s :: "cachercise_cache_id_t list option \<times> u32"
  have "\<exists>s'. HASH_ITER (list_body (mem sv)) (\<lambda>_. mem sv) (hdp xs) (Some (replicate (length xs) 0), 0)
      = Some s' \<and> I [] s'"
  proof (rule HASH_ITER_rule)
    show "I xs (Some (replicate (length xs) 0), 0)" by (simp add: I_def)
  next
    fix y ys s assume "I (y # ys) s"
    then show "iter_next (Some y) (mem sv) = Some (hdp ys)"
      using ok hash_ok_next by (auto simp: I_def)
  next
    fix y ys s assume "I (y # ys) s"
    then obtain as where as: "xs = as @ y # ys"
      "s = (Some (map (cidf (mem sv)) as @ replicate (Suc (length ys)) 0), of_nat (length as))"
      by (auto simp: I_def)
    have u: "unat (of_nat (length as) :: u32) = length as" using as(1) len by (simp add: unat_of_nat)
    have l: "live (mem sv) y" using hash_okD(6) [OF ok, of y] as(1) by simp
    show "\<exists>s'. list_body (mem sv) y s = Some s' \<and> I ys s'"
      using as u l
      by (auto simp: list_body_def load_elt I_def list_update_append simp del: h_load_simps
          intro!: exI [of _ "as @ [y]"])
  qed
  then show ?thesis using hash_okD(1) [OF ok] by (auto simp: I_def cache_list_def)
qed

lemma list_ult_ok:
  assumes inv: "table_inv sv xs" and tok: "check_token (prov sv) (li_token inp) = Some True"
  shows "cachercise_list_caches_ult (Some inp) out0 True sv
    = Some (\<lparr>lo_ret = 0, lo_count = of_nat (min (length xs) (unat (li_max_ids inp))),
        lo_ids = Some (map fst (cache_list sv xs))\<rparr>, sv)"
proof -
  have "(if num_caches (prov sv) < li_max_ids inp then num_caches (prov sv) else li_max_ids inp)
      = of_nat (min (length xs) (unat (li_max_ids inp)))"
    using table_invD(3,4) [OF inv] by (auto simp: word_less_nat_alt min_def)
  then show ?thesis
    using tok list_caches_ids [OF inv] table_invD(4) [OF inv]
    by (simp add: cachercise_list_caches_ult_def Let_def)
qed

section \<open>Removing every cache\<close>

lemma remove_all_body_ok:
  assumes ok: "hash_ok (caches (prov s)) (mem s) (a # ys)" and wf: "heap_wf (elts (mem s))"
    and b: "h_load (fst (bodyf (mem s) a)) (impls s) = Some b"
    and c: "close_cache b (snd (bodyf (mem s) a)) (world s) = Some (r, w)"
  shows "\<exists>m. remove_all_body a s = Some (s\<lparr>mem := m, world := w, prov := (prov s)\<lparr>caches := hdp ys\<rparr>\<rparr>)
     \<and> hash_ok (hdp ys) m ys \<and> heap_wf (elts m)
     \<and> (\<forall>x \<in> set ys. bodyf m x = bodyf (mem s) x \<and> cidf m x = cidf (mem s) x)"
proof -
  obtain m' where m': "HASH_DEL (caches (prov s)) (Some a) (mem s) = Some (hdp ys, m')"
    "live m' a" "cidf m' = cidf (mem s)" "bodyf m' = bodyf (mem s)"
    "h_free (Some a) (elts m') = Some (elts (without a m'))"
    "hash_ok (hdp ys) (without a m') ys" "heap_wf (elts (without a m'))"
    by (rule del_then_free [OF ok _ wf, of a]) simp_all
  have "remove_all_body a s
      = Some (s\<lparr>mem := without a m', world := w, prov := (prov s)\<lparr>caches := hdp ys\<rparr>\<rparr>)"
    using m'(1,2,4,5) b c
    by (simp add: remove_all_body_def load_elt without_elts del: h_load_simps h_free_simps)
  moreover have "a \<notin> set ys" using hash_okD(2) [OF ok] by simp
  then have "bodyf (without a m') x = bodyf (mem s) x \<and> cidf (without a m') x = cidf (mem s) x"
    if "x \<in> set ys" for x
    using that m'(3,4) by (cases "x = a") auto
  ultimately show ?thesis using m'(6,7) by blast
qed

context backends begin

text \<open>Finalisation closes the context of every cache of the table, once.\<close>

lemma remove_all_ok:
  assumes sv: "ok sv xs C"
  shows "\<exists>sv'. remove_all_caches sv = Some sv' \<and> ok sv' [] (C - snd ` set (cache_list sv xs))
     \<and> caches (prov sv') = NULL \<and> num_caches (prov sv') = 0"
proof -
  note D = server_okD [OF sv]
  have bl: "snd ` set (cache_list sv ys) = bodyf (mem sv) ` set ys" for ys
    by (force simp: cache_list_def)
  have inj: "inj_on (bodyf (mem sv)) (set xs)"
    using D(4) by (simp add: cache_list_def comp_def distinct_map)
  define I where "I ys s \<longleftrightarrow> (\<exists>as. xs = as @ ys \<and> hash_ok (caches (prov s)) (mem s) ys
      \<and> heap_wf (elts (mem s)) \<and> (\<forall>x \<in> set ys. bodyf (mem s) x = bodyf (mem sv) x)
      \<and> W (world s) (C - bodyf (mem sv) ` set as) \<and> impls s = impls sv
      \<and> num_backend_types (prov s) = num_backend_types (prov sv)
      \<and> backend_types (prov s) = backend_types (prov sv))" for ys and s :: "'w server"
  have "\<exists>s'. HASH_ITER remove_all_body mem (hdp xs) sv = Some s' \<and> I [] s'"
  proof (rule HASH_ITER_rule)
    show "I xs sv" using D(1,2) by (simp add: I_def table_inv_def)
  next
    fix y ys s assume "I (y # ys) s"
    then show "iter_next (Some y) (mem s) = Some (hdp ys)"
      using hash_ok_next [of _ _ "[]" y ys] by (auto simp: I_def)
  next
    fix y ys s assume "I (y # ys) s"
    then obtain as where as: "xs = as @ y # ys" "hash_ok (caches (prov s)) (mem s) (y # ys)"
      "heap_wf (elts (mem s))" "\<And>x. x \<in> set (y # ys) \<Longrightarrow> bodyf (mem s) x = bodyf (mem sv) x"
      "W (world s) (C - bodyf (mem sv) ` set as)" "impls s = impls sv"
      "num_backend_types (prov s) = num_backend_types (prov sv)"
      "backend_types (prov s) = backend_types (prov sv)" by (auto simp: I_def)
    let ?bd = "bodyf (mem sv) y"
    have bd: "bodyf (mem s) y = ?bd" using as(4) by simp
    have yC: "?bd \<in> C" using server_ok_body [OF sv, of y] as(1) by simp
    have "?bd \<notin> bodyf (mem sv) ` set as"
      using inj as(1) table_invD(5) [OF D(1)] by (auto simp: inj_on_def)
    with yC have fc: "(fst ?bd, snd ?bd) \<in> C - bodyf (mem sv) ` set as" by simp
    from D(5) [of "fst ?bd" "snd ?bd"] yC obtain b where b: "h_load (fst ?bd) (impls sv) = Some b"
      "impl (fst ?bd) b" by auto
    from close_law [OF as(5) b(2) fc] obtain r w where r: "close_cache b (snd ?bd) (world s) = Some (r, w)"
      "W w (C - bodyf (mem sv) ` set as - {?bd})" by auto
    have e: "C - bodyf (mem sv) ` set as - {?bd} = C - insert ?bd (bodyf (mem sv) ` set as)" by auto
    from remove_all_body_ok [OF as(2,3), of b r w] b(1) r(1) as(6) bd obtain m
      where m: "remove_all_body y s = Some (s\<lparr>mem := m, world := w, prov := (prov s)\<lparr>caches := hdp ys\<rparr>\<rparr>)"
      "hash_ok (hdp ys) m ys" "heap_wf (elts m)" "\<forall>x \<in> set ys. bodyf m x = bodyf (mem s) x"
      by auto
    have "I ys (s\<lparr>mem := m, world := w, prov := (prov s)\<lparr>caches := hdp ys\<rparr>\<rparr>)"
      unfolding I_def
      using as(1,4,6-8) m(2-4) r(2) [unfolded e] by (intro exI [of _ "as @ [y]"]) simp
    with m(1) show "\<exists>s'. remove_all_body y s = Some s' \<and> I ys s'" by blast
  qed
  then obtain s' where s': "HASH_ITER remove_all_body mem (caches (prov sv)) sv = Some s'" "I [] s'"
    using hash_okD(1) [OF table_invD(1) [OF D(1)]] by auto
  let ?sv = "s'\<lparr>prov := (prov s')\<lparr>num_caches := 0\<rparr>\<rparr>"
  have "ok ?sv [] (C - snd ` set (cache_list sv xs))" "caches (prov ?sv) = NULL"
    using s'(2) D(5-7) hash_okD(1) [of "caches (prov s')" "mem s'" "[]"] bl [of xs]
    by (auto simp: I_def server_ok_def table_inv_def cache_list_def impls_ok_def)
  with s'(1) show ?thesis by (simp add: remove_all_caches_def)
qed

end

end
