(* ===== verification/Registration.thy ===== *)
theory Registration
  imports Provider_Ops
begin

text \<open>
  The life of a provider, the first part of \<open>src/provider.c\<close>: registration with
  margo, registration of backends, finalisation.

  margo is not part of the repository; its functions are the fields of \<open>margo\<close> over
  a state \<open>'g\<close>.  \<open>margo_ok\<close> names what is used of it: a registered RPC gets an id,
  under which margo keeps its handler and data until it is deregistered.
\<close>

section \<open>margo\<close>

text \<open>The handlers a provider registers, those of theory \<open>Provider\<close>.\<close>

datatype rpc_handler =
  H_create | H_open | H_close | H_destroy | H_list | H_hello | H_sum | H_io

record 'g margo =
  margo_is_listening :: "'g \<Rightarrow> bool"
  margo_provider_registered_name :: "string \<Rightarrow> u16 \<Rightarrow> 'g \<Rightarrow> bool"
  MARGO_REGISTER_PROVIDER :: "string \<Rightarrow> rpc_handler \<Rightarrow> u16 \<Rightarrow> ptr \<Rightarrow> 'g \<Rightarrow> hg_id_t \<times> 'g"
  margo_register_data :: "hg_id_t \<Rightarrow> ptr \<Rightarrow> 'g \<Rightarrow> 'g"
  margo_registered_disable_response :: "hg_id_t \<Rightarrow> 'g \<Rightarrow> 'g"
  margo_deregister :: "hg_id_t \<Rightarrow> 'g \<Rightarrow> 'g"
  margo_provider_push_finalize_callback :: "ptr \<Rightarrow> 'g \<Rightarrow> 'g"
  margo_provider_pop_finalize_callback :: "ptr \<Rightarrow> 'g \<Rightarrow> 'g"

text \<open>\<open>struct cachercise_provider_args\<close>; \<open>ABT_POOL_NULL\<close> and \<open>ABT_IO_INSTANCE_NULL\<close> are \<open>NULL\<close>.\<close>

record cachercise_provider_args =
  a_token :: "string option"
  a_config :: "string option"
  a_pool :: ptr
  a_abtio :: ptr

definition CACHERCISE_PROVIDER_ARGS_INIT :: cachercise_provider_args where
  "CACHERCISE_PROVIDER_ARGS_INIT = \<lparr>a_token = None, a_config = None, a_pool = NULL, a_abtio = NULL\<rparr>"

section \<open>Backends\<close>

text \<open>
  \<open>realloc\<close> is asked for \<open>num_backend_types\<close> bytes, not pointers; \<open>granted\<close> is its outcome,
  which the code does not check.  C lets a program use the bytes it has asked for and no
  others: the store of the last slot, eight bytes from \<open>8 * (num_backend_types - 1)\<close> on, is
  defined only if they hold it, and they never do.
\<close>

definition add_backend_impl ::
  "bool \<Rightarrow> cachercise_provider \<Rightarrow> ptr \<Rightarrow> (cachercise_return_t \<times> cachercise_provider) option" where
  "add_backend_impl granted p backend =
     (let n = num_backend_types p + 1; bytes = (if granted then unat n else 0) in
      if 8 * unat (n - 1) + 8 \<le> bytes
      then Some (CACHERCISE_SUCCESS,
             p\<lparr>num_backend_types := n,
               backend_types := take (unat (n - 1)) (backend_types p) @ [backend]\<rparr>)
      else None)"

definition cachercise_provider_register_backend ::
  "bool \<Rightarrow> cachercise_provider \<Rightarrow> ptr \<Rightarrow> (cachercise_return_t \<times> cachercise_provider) option" where
  "cachercise_provider_register_backend granted p backend_impl = add_backend_impl granted p backend_impl"

text \<open>\<open>dummy\<close> is the address of the static structure \<open>dummy_backend\<close>.\<close>

definition cachercise_provider_register_dummy_backend ::
  "bool \<Rightarrow> ptr \<Rightarrow> cachercise_provider \<Rightarrow> (cachercise_return_t \<times> cachercise_provider) option" where
  "cachercise_provider_register_dummy_backend granted dummy p =
     cachercise_provider_register_backend granted p dummy"

section \<open>Registration\<close>

text \<open>The zeroed structure with the members copied from the arguments; \<open>strdup\<close> is the copy.\<close>

definition new_provider :: "ptr \<Rightarrow> u16 \<Rightarrow> cachercise_provider_args \<Rightarrow> cachercise_provider" where
  "new_provider m pid a =
     \<lparr>mid = m, provider_id = pid, pool = a_pool a, abtio = a_abtio a,
      token = (case a_token a of Some t \<Rightarrow> if length t \<noteq> 0 then Some t else None | None \<Rightarrow> None),
      num_backend_types = 0, backend_types = [], num_caches = 0, caches = NULL, p_hoard = NULL,
      create_cache_id = 0, open_cache_id = 0, close_cache_id = 0, destroy_cache_id = 0,
      list_caches_id = 0, hello_id = 0, sum_id = 0, io_id = 0\<rparr>"

text \<open>\<open>MARGO_REGISTER_PROVIDER\<close> and \<open>margo_register_data\<close> for one RPC.\<close>

definition register_rpc ::
  "'g margo \<Rightarrow> string \<Rightarrow> rpc_handler \<Rightarrow> u16 \<Rightarrow> ptr \<Rightarrow> ptr \<Rightarrow> 'g \<Rightarrow> hg_id_t \<times> 'g" where
  "register_rpc mg nm h pid pl p g =
     (let (i, g) = MARGO_REGISTER_PROVIDER mg nm h pid pl g in (i, margo_register_data mg i p g))"

definition register_rpcs ::
  "'g margo \<Rightarrow> ptr \<Rightarrow> cachercise_provider \<Rightarrow> 'g \<Rightarrow> cachercise_provider \<times> 'g" where
  "register_rpcs mg pp p g =
     (let pid = provider_id p; pl = pool p;
          (i, g) = register_rpc mg ''cachercise_create_cache'' H_create pid pl pp g; p = p\<lparr>create_cache_id := i\<rparr>;
          (i, g) = register_rpc mg ''cachercise_open_cache'' H_open pid pl pp g; p = p\<lparr>open_cache_id := i\<rparr>;
          (i, g) = register_rpc mg ''cachercise_close_cache'' H_close pid pl pp g; p = p\<lparr>close_cache_id := i\<rparr>;
          (i, g) = register_rpc mg ''cachercise_destroy_cache'' H_destroy pid pl pp g; p = p\<lparr>destroy_cache_id := i\<rparr>;
          (i, g) = register_rpc mg ''cachercise_list_caches'' H_list pid pl pp g; p = p\<lparr>list_caches_id := i\<rparr>;
          (i, g) = register_rpc mg ''cachercise_hello'' H_hello pid pl pp g; p = p\<lparr>hello_id := i\<rparr>;
          g = margo_registered_disable_response mg i g;
          (i, g) = register_rpc mg ''cachercise_sum'' H_sum pid pl pp g; p = p\<lparr>sum_id := i\<rparr>;
          (i, g) = register_rpc mg ''cachercise_io'' H_io pid pl pp g; p = p\<lparr>io_id := i\<rparr>
      in (p, g))"

text \<open>
  \<open>pp\<close> is the result of \<open>calloc\<close> for the structure, \<open>granted\<close> the outcome of \<open>realloc\<close> in
  \<open>add_backend_impl\<close>.  A registration that succeeds returns the provider for \<open>*provider\<close>.
\<close>

definition cachercise_provider_register ::
  "'g margo \<Rightarrow> bool \<Rightarrow> ptr \<Rightarrow> ptr \<Rightarrow> ptr \<Rightarrow> u16 \<Rightarrow> cachercise_provider_args option \<Rightarrow> 'g
    \<Rightarrow> (cachercise_return_t \<times> cachercise_provider option \<times> 'g) option" where
  "cachercise_provider_register mg granted dummy pp m pid args g =
     (let a = (case args of None \<Rightarrow> CACHERCISE_PROVIDER_ARGS_INIT | Some a \<Rightarrow> a) in
      if \<not> margo_is_listening mg g then Some (CACHERCISE_ERR_INVALID_ARGS, None, g)
      else if margo_provider_registered_name mg ''cachercise_sum'' pid g
      then Some (CACHERCISE_ERR_INVALID_PROVIDER, None, g)
      else if pp = NULL then Some (CACHERCISE_ERR_ALLOCATION, None, g)
      else do {
        let (p, g) = register_rpcs mg pp (new_provider m pid a) g;
        (r, p) \<leftarrow> cachercise_provider_register_dummy_backend granted dummy p;
        Some (CACHERCISE_SUCCESS, Some p, margo_provider_push_finalize_callback mg pp g) })"

section \<open>Finalisation\<close>

text \<open>
  The provider is freed at the end: there is none at \<open>self\<close> any more.
\<close>

definition cachercise_finalize_provider ::
  "'g margo \<Rightarrow> 'w server \<Rightarrow> 'g \<Rightarrow> ('w server \<times> 'g) option" where
  "cachercise_finalize_provider mg sv g = do {
     let p = prov sv;
     let g = margo_deregister mg (create_cache_id p) g;
     let g = margo_deregister mg (open_cache_id p) g;
     let g = margo_deregister mg (close_cache_id p) g;
     let g = margo_deregister mg (destroy_cache_id p) g;
     let g = margo_deregister mg (list_caches_id p) g;
     let g = margo_deregister mg (hello_id p) g;
     let g = margo_deregister mg (sum_id p) g;
     let g = margo_deregister mg (io_id p) g;
     sv \<leftarrow> remove_all_caches sv;
     Some (sv\<lparr>self := NULL\<rparr>, g) }"

definition cachercise_provider_destroy ::
  "'g margo \<Rightarrow> 'w server \<Rightarrow> 'g \<Rightarrow> (cachercise_return_t \<times> 'w server \<times> 'g) option" where
  "cachercise_provider_destroy mg sv g = do {
     let g = margo_provider_pop_finalize_callback mg (self sv) g;
     (sv, g) \<leftarrow> cachercise_finalize_provider mg sv g;
     Some (CACHERCISE_SUCCESS, sv, g) }"

section \<open>What is used of margo\<close>

text \<open>
  \<open>regs g\<close> maps an id known to margo to the handler, the data and whether the
  response is disabled.  The id of an RPC is a function \<open>rid\<close> of its name and
  provider id.
\<close>

definition margo_ok ::
  "'g margo \<Rightarrow> ('g \<Rightarrow> hg_id_t \<rightharpoonup> rpc_handler \<times> ptr \<times> bool) \<Rightarrow> (string \<Rightarrow> u16 \<Rightarrow> hg_id_t) \<Rightarrow> bool" where
  "margo_ok mg regs rid \<longleftrightarrow>
     (\<forall>n h p q g. fst (MARGO_REGISTER_PROVIDER mg n h p q g) = rid n p
        \<and> regs (snd (MARGO_REGISTER_PROVIDER mg n h p q g)) = (regs g)(rid n p \<mapsto> (h, NULL, False)))
   \<and> (\<forall>i q g h p d. regs g i = Some (h, p, d) \<longrightarrow>
        regs (margo_register_data mg i q g) = (regs g)(i \<mapsto> (h, q, d)))
   \<and> (\<forall>i g h p d. regs g i = Some (h, p, d) \<longrightarrow>
        regs (margo_registered_disable_response mg i g) = (regs g)(i \<mapsto> (h, p, True)))
   \<and> (\<forall>i g. regs (margo_deregister mg i g) = (regs g)(i := None))
   \<and> (\<forall>q g. regs (margo_provider_push_finalize_callback mg q g) = regs g)
   \<and> (\<forall>q g. regs (margo_provider_pop_finalize_callback mg q g) = regs g)"

text \<open>The RPCs of a provider: name, handler, whether there is no response.\<close>

definition rpc_table :: "(string \<times> rpc_handler \<times> bool) list" where
  "rpc_table =
     [(''cachercise_create_cache'', H_create, False), (''cachercise_open_cache'', H_open, False),
      (''cachercise_close_cache'', H_close, False), (''cachercise_destroy_cache'', H_destroy, False),
      (''cachercise_list_caches'', H_list, False), (''cachercise_hello'', H_hello, True),
      (''cachercise_sum'', H_sum, False), (''cachercise_io'', H_io, False)]"

definition rpc_ids :: "cachercise_provider \<Rightarrow> hg_id_t list" where
  "rpc_ids p = [create_cache_id p, open_cache_id p, close_cache_id p, destroy_cache_id p,
     list_caches_id p, hello_id p, sum_id p, io_id p]"

text \<open>What margo knows after the registration of \<open>rs\<close>.\<close>

fun regs_after ::
  "(string \<Rightarrow> hg_id_t) \<Rightarrow> ptr \<Rightarrow> (string \<times> rpc_handler \<times> bool) list
    \<Rightarrow> (hg_id_t \<rightharpoonup> rpc_handler \<times> ptr \<times> bool) \<Rightarrow> (hg_id_t \<rightharpoonup> rpc_handler \<times> ptr \<times> bool)" where
  "regs_after r pp [] R = R"
| "regs_after r pp ((n, h, d) # rs) R = regs_after r pp rs (R(r n \<mapsto> (h, pp, d)))"

lemma regs_after_other: "i \<notin> r ` fst ` set rs \<Longrightarrow> regs_after r pp rs R i = R i"
  by (induction r pp rs R rule: regs_after.induct) auto

lemma regs_after_mem:
  assumes "inj_on r (fst ` set rs)" and "distinct (map fst rs)" and "(n, h, d) \<in> set rs"
  shows "regs_after r pp rs R (r n) = Some (h, pp, d)"
  using assms
proof (induction r pp rs R rule: regs_after.induct)
  case (2 r pp m h' d' rs R)
  show ?case
  proof (cases "(n, h, d) \<in> set rs")
    case True
    have "inj_on r (fst ` set rs)" using 2(2) by (rule inj_on_subset) auto
    then show ?thesis using 2(1) [OF _ _ True] 2(3) by (simp del: fun_upd_apply)
  next
    case False
    with 2(4) have e: "m = n" "h' = h" "d' = d" by auto
    have "r n \<notin> r ` fst ` set rs"
      using 2(2,3) unfolding e by (auto simp: inj_on_def image_iff)
    then show ?thesis by (simp add: e regs_after_other)
  qed
qed simp

lemma register_rpc_ok:
  assumes "margo_ok mg regs rid"
  shows "\<exists>g'. register_rpc mg nm h pid pl pp g = (rid nm pid, g')
    \<and> regs g' = (regs g)(rid nm pid \<mapsto> (h, pp, False))"
proof -
  let ?r = "MARGO_REGISTER_PROVIDER mg nm h pid pl g"
  have 1: "fst ?r = rid nm pid" "regs (snd ?r) = (regs g)(rid nm pid \<mapsto> (h, NULL, False))"
    by (use assms in \<open>simp_all add: margo_ok_def\<close>)
  then have "regs (snd ?r) (rid nm pid) = Some (h, NULL, False)" by simp
  moreover have "\<And>i q g h p d. regs g i = Some (h, p, d) \<Longrightarrow>
        regs (margo_register_data mg i q g) = (regs g)(i \<mapsto> (h, q, d))"
    using assms unfolding margo_ok_def by blast
  ultimately have "regs (margo_register_data mg (rid nm pid) pp (snd ?r)) = (regs (snd ?r))(rid nm pid \<mapsto> (h, pp, False))"
    by blast
  with 1 show ?thesis by (simp add: register_rpc_def case_prod_beta)
qed

lemma register_rpcs_ok:
  assumes mg: "margo_ok mg regs rid" and r: "register_rpcs mg pp p g = (p', g')"
  shows "rpc_ids p' = map (\<lambda>(n, h, d). rid n (provider_id p)) rpc_table"
    and "regs g' = regs_after (\<lambda>n. rid n (provider_id p)) pp rpc_table (regs g)"
    and "p' = p\<lparr>create_cache_id := create_cache_id p', open_cache_id := open_cache_id p',
      close_cache_id := close_cache_id p', destroy_cache_id := destroy_cache_id p',
      list_caches_id := list_caches_id p', hello_id := hello_id p', sum_id := sum_id p', io_id := io_id p'\<rparr>"
proof -
  let ?i = "\<lambda>n. rid n (provider_id p)"
  have dr: "regs g i = Some (h, q, d) \<Longrightarrow>
      regs (margo_registered_disable_response mg i g) = (regs g)(i \<mapsto> (h, q, True))" for i g h q d
    using mg unfolding margo_ok_def by blast
  note R = register_rpc_ok [OF mg, of _ _ "provider_id p" "pool p" pp]
  from R obtain g1 where 1: "register_rpc mg ''cachercise_create_cache'' H_create (provider_id p) (pool p) pp g = (?i ''cachercise_create_cache'', g1)"
    "regs g1 = (regs g)(?i ''cachercise_create_cache'' \<mapsto> (H_create, pp, False))" by blast
  from R obtain g2 where 2: "register_rpc mg ''cachercise_open_cache'' H_open (provider_id p) (pool p) pp g1 = (?i ''cachercise_open_cache'', g2)"
    "regs g2 = (regs g1)(?i ''cachercise_open_cache'' \<mapsto> (H_open, pp, False))" by blast
  from R obtain g3 where 3: "register_rpc mg ''cachercise_close_cache'' H_close (provider_id p) (pool p) pp g2 = (?i ''cachercise_close_cache'', g3)"
    "regs g3 = (regs g2)(?i ''cachercise_close_cache'' \<mapsto> (H_close, pp, False))" by blast
  from R obtain g4 where 4: "register_rpc mg ''cachercise_destroy_cache'' H_destroy (provider_id p) (pool p) pp g3 = (?i ''cachercise_destroy_cache'', g4)"
    "regs g4 = (regs g3)(?i ''cachercise_destroy_cache'' \<mapsto> (H_destroy, pp, False))" by blast
  from R obtain g5 where 5: "register_rpc mg ''cachercise_list_caches'' H_list (provider_id p) (pool p) pp g4 = (?i ''cachercise_list_caches'', g5)"
    "regs g5 = (regs g4)(?i ''cachercise_list_caches'' \<mapsto> (H_list, pp, False))" by blast
  from R obtain g6 where 6: "register_rpc mg ''cachercise_hello'' H_hello (provider_id p) (pool p) pp g5 = (?i ''cachercise_hello'', g6)"
    "regs g6 = (regs g5)(?i ''cachercise_hello'' \<mapsto> (H_hello, pp, False))" by blast
  let ?g6 = "margo_registered_disable_response mg (?i ''cachercise_hello'') g6"
  have "regs g6 (?i ''cachercise_hello'') = Some (H_hello, pp, False)" by (simp add: 6(2))
  from dr [OF this] have 66: "regs ?g6 = (regs g5)(?i ''cachercise_hello'' \<mapsto> (H_hello, pp, True))"
    by (simp add: 6(2))
  from R obtain g7 where 7: "register_rpc mg ''cachercise_sum'' H_sum (provider_id p) (pool p) pp ?g6 = (?i ''cachercise_sum'', g7)"
    "regs g7 = (regs ?g6)(?i ''cachercise_sum'' \<mapsto> (H_sum, pp, False))" by blast
  from R obtain g8 where 8: "register_rpc mg ''cachercise_io'' H_io (provider_id p) (pool p) pp g7 = (?i ''cachercise_io'', g8)"
    "regs g8 = (regs g7)(?i ''cachercise_io'' \<mapsto> (H_io, pp, False))" by blast
  have p': "p' = p\<lparr>create_cache_id := ?i ''cachercise_create_cache'',
      open_cache_id := ?i ''cachercise_open_cache'', close_cache_id := ?i ''cachercise_close_cache'',
      destroy_cache_id := ?i ''cachercise_destroy_cache'',
      list_caches_id := ?i ''cachercise_list_caches'', hello_id := ?i ''cachercise_hello'',
      sum_id := ?i ''cachercise_sum'', io_id := ?i ''cachercise_io''\<rparr>" and g': "g' = g8"
    using r 1(1) 2(1) 3(1) 4(1) 5(1) 6(1) 7(1) 8(1) by (simp_all add: register_rpcs_def Let_def)
  show "rpc_ids p' = map (\<lambda>(n, h, d). ?i n) rpc_table"
    by (simp add: p' rpc_ids_def rpc_table_def)
  show "regs g' = regs_after ?i pp rpc_table (regs g)"
    by (simp add: g' 1(2) 2(2) 3(2) 4(2) 5(2) 66 7(2) 8(2) rpc_table_def)
  show "p' = p\<lparr>create_cache_id := create_cache_id p', open_cache_id := open_cache_id p',
      close_cache_id := close_cache_id p', destroy_cache_id := destroy_cache_id p',
      list_caches_id := list_caches_id p', hello_id := hello_id p', sum_id := sum_id p', io_id := io_id p'\<rparr>"
    by (simp add: p')
qed

text \<open>No block of \<open>num_backend_types\<close> bytes holds that many pointers.\<close>

lemma register_backend_overflows: "cachercise_provider_register_backend granted p f = None"
proof -
  have "unat (x + 1) \<le> unat x + 1" for x :: u64 by (simp add: unat_word_ariths)
  from this [of "num_backend_types p"] show ?thesis
    by (simp add: cachercise_provider_register_backend_def add_backend_impl_def Let_def)
qed

text \<open>
  The provider when its RPCs are registered, and the end of a registration that gets so
  far: the store of the dummy backend's address.
\<close>

lemma provider_rpcs_ok:
  assumes mg: "margo_ok mg regs rid"
  shows "\<exists>p g'. register_rpcs mg pp (new_provider m pid a) g = (p, g')
     \<and> rpc_ids p = map (\<lambda>(n, h, d). rid n pid) rpc_table
     \<and> regs g' = regs_after (\<lambda>n. rid n pid) pp rpc_table (regs g)
     \<and> num_caches p = 0 \<and> caches p = NULL \<and> num_backend_types p = 0 \<and> backend_types p = []
     \<and> token p = (if a_token a = Some [] then None else a_token a)"
proof -
  obtain p1 g1 where r: "register_rpcs mg pp (new_provider m pid a) g = (p1, g1)" by fastforce
  note R = register_rpcs_ok [OF mg r]
  have i: "provider_id (new_provider m pid a) = pid" by (simp add: new_provider_def)
  have "num_backend_types p1 = 0" "backend_types p1 = []" "num_caches p1 = 0" "caches p1 = NULL"
    "token p1 = (if a_token a = Some [] then None else a_token a)"
    by (subst R(3), auto simp: new_provider_def split: option.splits)+
  then show ?thesis using r R(1,2) i by auto
qed

lemma provider_register_overflows:
  assumes "margo_is_listening mg g" "\<not> margo_provider_registered_name mg ''cachercise_sum'' pid g"
    and "pp \<noteq> NULL"
  shows "cachercise_provider_register mg granted dummy pp m pid (Some a) g = None"
  using assms
  by (simp add: cachercise_provider_register_def cachercise_provider_register_dummy_backend_def
      register_backend_overflows case_prod_beta Let_def)

lemma finalize_regs:
  assumes mg: "margo_ok mg regs rid" and r: "cachercise_finalize_provider mg sv g = Some (sv', g')"
  shows "regs g' = (\<lambda>i. if i \<in> set (rpc_ids (prov sv)) then None else regs g i)"
    and "\<exists>sv1. remove_all_caches sv = Some sv1 \<and> sv' = sv1\<lparr>self := NULL\<rparr>"
proof -
  have d: "regs (margo_deregister mg i g) = (regs g)(i := None)" for i g using mg by (simp add: margo_ok_def)
  from r show "regs g' = (\<lambda>i. if i \<in> set (rpc_ids (prov sv)) then None else regs g i)"
    by (auto simp: cachercise_finalize_provider_def bind_Some_iff Let_def d rpc_ids_def fun_eq_iff)
  from r show "\<exists>sv1. remove_all_caches sv = Some sv1 \<and> sv' = sv1\<lparr>self := NULL\<rparr>"
    by (auto simp: cachercise_finalize_provider_def bind_Some_iff Let_def)
qed

end
