(* ===== verification/System.thy ===== *)
theory System
  imports Registration
begin

text \<open>
  The server as a state machine: \<open>serve\<close> dispatches a request to its handler,
  \<open>step\<close> relates the states before and after a request, \<open>reachable\<close> collects the
  states a server can get into.  The first part holds for every set of backends
  that meets the contract; the second is about the server with the dummy
  backend.
\<close>

section \<open>Requests\<close>

text \<open>
  A request carries what its handler takes besides the server: the decoded input
  (\<open>None\<close>: it does not decode), the initial contents of \<open>out\<close>, the id
  \<open>uuid_generate\<close> returns, the outcome of \<open>calloc\<close> for a listing.
\<close>

datatype request =
    ReqCreate "create_cache_in_t option" create_cache_out_t cachercise_cache_id_t
  | ReqOpen "open_cache_in_t option" open_cache_out_t cachercise_cache_id_t
  | ReqClose "close_cache_in_t option" close_cache_out_t
  | ReqDestroy "destroy_cache_in_t option" destroy_cache_out_t
  | ReqList "list_caches_in_t option" list_caches_out_t bool
  | ReqHello "hello_in_t option"
  | ReqSum "sum_in_t option" sum_out_t
  | ReqIo "io_in_t option" io_out_t

datatype response =
    RespCreate create_cache_out_t
  | RespOpen open_cache_out_t
  | RespClose close_cache_out_t
  | RespDestroy destroy_cache_out_t
  | RespList list_caches_out_t
  | RespHello
  | RespSum sum_out_t
  | RespIo io_out_t

fun serve :: "request \<Rightarrow> 'w server \<Rightarrow> (response \<times> 'w server) option" where
  "serve (ReqCreate i o0 u) sv = map_option (apfst RespCreate) (cachercise_create_cache_ult i o0 u sv)"
| "serve (ReqOpen i o0 u) sv = map_option (apfst RespOpen) (cachercise_open_cache_ult i o0 u sv)"
| "serve (ReqClose i o0) sv = map_option (apfst RespClose) (cachercise_close_cache_ult i o0 sv)"
| "serve (ReqDestroy i o0) sv = map_option (apfst RespDestroy) (cachercise_destroy_cache_ult i o0 sv)"
| "serve (ReqList i o0 g) sv = map_option (apfst RespList) (cachercise_list_caches_ult i o0 g sv)"
| "serve (ReqHello i) sv = map_option (Pair RespHello) (cachercise_hello_ult i sv)"
| "serve (ReqSum i o0) sv = map_option (apfst RespSum) (cachercise_sum_ult i o0 sv)"
| "serve (ReqIo i o0) sv = map_option (apfst RespIo) (cachercise_io_ult i o0 sv)"

text \<open>The input of an admin request decodes, and the strings its handler compares are not \<open>NULL\<close>.\<close>

definition token_given :: "'w server \<Rightarrow> string option \<Rightarrow> bool" where
  "token_given sv t \<longleftrightarrow> token (prov sv) = None \<or> t \<noteq> None"

fun well_formed :: "request \<Rightarrow> 'w server \<Rightarrow> bool" where
  "well_formed (ReqCreate (Some i) _ _) sv \<longleftrightarrow> token_given sv (cc_token i) \<and> cc_type i \<noteq> None"
| "well_formed (ReqOpen (Some i) _ _) sv \<longleftrightarrow> token_given sv (oc_token i) \<and> oc_type i \<noteq> None"
| "well_formed (ReqClose (Some i) _) sv \<longleftrightarrow> token_given sv (cl_token i)"
| "well_formed (ReqDestroy (Some i) _) sv \<longleftrightarrow> token_given sv (ds_token i)"
| "well_formed (ReqList (Some i) _ _) sv \<longleftrightarrow> token_given sv (li_token i)"
| "well_formed (ReqCreate None _ _) sv \<longleftrightarrow> False"
| "well_formed (ReqOpen None _ _) sv \<longleftrightarrow> False"
| "well_formed (ReqClose None _) sv \<longleftrightarrow> False"
| "well_formed (ReqDestroy None _) sv \<longleftrightarrow> False"
| "well_formed (ReqList None _ _) sv \<longleftrightarrow> False"
| "well_formed _ sv \<longleftrightarrow> True"

text \<open>The memory a request needs is there; \<open>rm\<close> is the backends' part of it.\<close>

fun has_room :: "('w \<Rightarrow> bool) \<Rightarrow> request \<Rightarrow> 'w server \<Rightarrow> bool" where
  "has_room rm (ReqCreate _ _ _) sv \<longleftrightarrow> table_room sv \<and> rm (world sv)"
| "has_room rm (ReqOpen _ _ _) sv \<longleftrightarrow> table_room sv \<and> rm (world sv)"
| "has_room rm (ReqList _ _ g) sv \<longleftrightarrow> g"
| "has_room rm _ sv \<longleftrightarrow> True"

section \<open>The step relation\<close>

inductive step :: "('w \<Rightarrow> bool) \<Rightarrow> 'w server \<Rightarrow> request \<Rightarrow> response \<Rightarrow> 'w server \<Rightarrow> bool"
  for rm :: "'w \<Rightarrow> bool" where
  step_serve: "has_room rm req sv \<Longrightarrow> serve req sv = Some (resp, sv') \<Longrightarrow> step rm sv req resp sv'"

inductive reachable :: "('w \<Rightarrow> bool) \<Rightarrow> 'w server \<Rightarrow> 'w server \<Rightarrow> bool"
  for rm :: "'w \<Rightarrow> bool" and sv0 :: "'w server" where
  reach_init: "reachable rm sv0 sv0"
| reach_step: "reachable rm sv0 sv \<Longrightarrow> step rm sv req resp sv' \<Longrightarrow> reachable rm sv0 sv'"

inductive_cases step_elim: "step rm sv req resp sv'"

inductive_simps step_iff: "step rm sv req resp sv'"

section \<open>The handlers on every input\<close>

lemma find_backend_NULL: "find_backend_impl sv None = Some be \<Longrightarrow> be = NULL"
  by (cases "unat (num_backend_types (prov sv))") (auto simp: find_backend_impl_def bind_Some_iff)

lemma create_ult_cases:
  assumes r: "cachercise_create_cache_ult inp out0 uid sv = Some (out, sv')"
  obtains "sv' = sv" "cc_ret out \<noteq> 0"
  | i nm be where "inp = Some i" "check_token (prov sv) (cc_token i) = Some True" "cc_type i = Some nm"
      "find_backend_impl sv (Some nm) = Some be" "be \<noteq> NULL"
proof (cases inp)
  case None
  with r that(1) show thesis by (auto simp: cachercise_create_cache_ult_def)
next
  case (Some i)
  with r obtain t where t: "check_token (prov sv) (cc_token i) = Some t"
    by (auto simp: cachercise_create_cache_ult_def bind_Some_iff)
  show thesis
  proof (cases t)
    case False
    with r Some t that(1) show thesis by (auto simp: cachercise_create_cache_ult_def)
  next
    case True
    with r Some t obtain be where be: "find_backend_impl sv (cc_type i) = Some be"
      by (auto simp: cachercise_create_cache_ult_def bind_Some_iff)
    show thesis
    proof (cases "be = NULL")
      case True
      with r Some t \<open>t\<close> be that(1) show thesis by (auto simp: cachercise_create_cache_ult_def)
    next
      case False
      with be find_backend_NULL [of sv be] obtain nm where "cc_type i = Some nm"
        by (cases "cc_type i") auto
      with that(2) Some t True be False show thesis by simp
    qed
  qed
qed

lemma open_ult_cases:
  assumes r: "cachercise_open_cache_ult inp out0 uid sv = Some (out, sv')"
  obtains "sv' = sv" "oc_ret out \<noteq> 0"
  | i nm be where "inp = Some i" "check_token (prov sv) (oc_token i) = Some True" "oc_type i = Some nm"
      "find_backend_impl sv (Some nm) = Some be" "be \<noteq> NULL"
proof (cases inp)
  case None
  with r that(1) show thesis by (auto simp: cachercise_open_cache_ult_def)
next
  case (Some i)
  with r obtain t where t: "check_token (prov sv) (oc_token i) = Some t"
    by (auto simp: cachercise_open_cache_ult_def bind_Some_iff)
  show thesis
  proof (cases t)
    case False
    with r Some t that(1) show thesis by (auto simp: cachercise_open_cache_ult_def)
  next
    case True
    with r Some t obtain be where be: "find_backend_impl sv (oc_type i) = Some be"
      by (auto simp: cachercise_open_cache_ult_def bind_Some_iff)
    show thesis
    proof (cases "be = NULL")
      case True
      with r Some t \<open>t\<close> be that(1) show thesis by (auto simp: cachercise_open_cache_ult_def)
    next
      case False
      with be find_backend_NULL [of sv be] obtain nm where "oc_type i = Some nm"
        by (cases "oc_type i") auto
      with that(2) Some t True be False show thesis by simp
    qed
  qed
qed

text \<open>The remaining handlers change the state only when the token is good and the cache is known.\<close>

lemma close_ult_cases:
  assumes inv: "table_inv sv xs" and r: "cachercise_close_cache_ult inp out0 sv = Some (out, sv')"
  obtains "sv' = sv" "cl_ret out \<noteq> 0"
  | i bd where "inp = Some i" "check_token (prov sv) (cl_token i) = Some True" "cache_map sv xs (cl_id i) = Some bd"
proof (cases inp)
  case None
  with r that(1) show thesis by (auto simp: cachercise_close_cache_ult_def)
next
  case (Some i)
  with r obtain t where t: "check_token (prov sv) (cl_token i) = Some t"
    by (auto simp: cachercise_close_cache_ult_def bind_Some_iff)
  show thesis
  proof (cases "t \<and> cache_map sv xs (cl_id i) \<noteq> None")
    case True
    with Some t that(2) show thesis by auto
  next
    case False
    then have "t \<Longrightarrow> remove_cache sv (cl_id i) True = Some (CACHERCISE_ERR_INVALID_CACHE, sv)"
      using remove_cache_absent [OF inv] by blast
    with r Some t that(1) show thesis
      by (cases t) (auto simp: cachercise_close_cache_ult_def)
  qed
qed

lemma destroy_ult_cases:
  assumes inv: "table_inv sv xs" and r: "cachercise_destroy_cache_ult inp out0 sv = Some (out, sv')"
  obtains "sv' = sv" "ds_ret out \<noteq> 0"
  | i bd where "inp = Some i" "check_token (prov sv) (ds_token i) = Some True" "cache_map sv xs (ds_id i) = Some bd"
proof (cases inp)
  case None
  with r that(1) show thesis by (auto simp: cachercise_destroy_cache_ult_def)
next
  case (Some i)
  with r obtain t where t: "check_token (prov sv) (ds_token i) = Some t"
    by (auto simp: cachercise_destroy_cache_ult_def bind_Some_iff)
  show thesis
  proof (cases "t \<and> cache_map sv xs (ds_id i) \<noteq> None")
    case True
    with Some t that(2) show thesis by auto
  next
    case False
    then have "t \<Longrightarrow> find_cache sv (ds_id i) = Some NULL"
      by (cases rule: find_cache_cases [OF inv, of "ds_id i"]) auto
    with False r Some t that(1) show thesis
      by (cases t) (auto simp: cachercise_destroy_cache_ult_def)
  qed
qed

lemma list_ult_same: "cachercise_list_caches_ult inp out0 g sv = Some (out, sv') \<Longrightarrow> sv' = sv"
  by (cases inp) (auto simp: cachercise_list_caches_ult_def bind_Some_iff Let_def split: if_splits)

lemma hello_ult_cases:
  assumes inv: "table_inv sv xs" and r: "cachercise_hello_ult inp sv = Some sv'"
  obtains "sv' = sv" | i bd where "inp = Some i" "cache_map sv xs (he_cache_id i) = Some bd"
proof (cases inp)
  case None
  with r that(1) show thesis by (auto simp: cachercise_hello_ult_def)
next
  case (Some i)
  show thesis
    by (cases rule: find_cache_cases [OF inv, of "he_cache_id i"])
      (use r Some that in \<open>auto simp: cachercise_hello_ult_def\<close>)
qed

lemma sum_ult_cases:
  assumes inv: "table_inv sv xs" and r: "cachercise_sum_ult inp out0 sv = Some (out, sv')"
  obtains "sv' = sv" "so_ret out \<noteq> 0" | i bd where "inp = Some i" "cache_map sv xs (su_cache_id i) = Some bd"
proof (cases inp)
  case None
  with r that(1) show thesis by (auto simp: cachercise_sum_ult_def)
next
  case (Some i)
  show thesis
    by (cases rule: find_cache_cases [OF inv, of "su_cache_id i"])
      (use r Some that in \<open>auto simp: cachercise_sum_ult_def\<close>)
qed

lemma scast_ret_nonzero: "ret \<noteq> CACHERCISE_SUCCESS \<Longrightarrow> (scast (ret_code ret) :: i64) \<noteq> 0"
  by (cases ret) (simp_all add: ret_code_def)

lemma io_ult_cases:
  assumes inv: "table_inv sv xs" and r: "cachercise_io_ult inp out0 sv = Some (out, sv')"
  obtains "sv' = sv" "out_ret out \<noteq> 0" | i bd where "inp = Some i" "cache_map sv xs (io_cache_id i) = Some bd"
proof (cases inp)
  case None
  with r that(1) show thesis by (auto simp: cachercise_io_ult_def scast_ret_nonzero)
next
  case (Some i)
  show thesis
    by (cases rule: find_cache_cases [OF inv, of "io_cache_id i"])
      (use r Some that in \<open>auto simp: cachercise_io_ult_def scast_ret_nonzero\<close>)
qed

section \<open>Invariant\<close>

context backends begin

text \<open>Every answered request leaves a consistent server behind.\<close>

lemma serve_inv:
  assumes sv: "ok sv xs C" and room: "has_room room req sv" and r: "serve req sv = Some (resp, sv')"
  shows "\<exists>ys C'. ok sv' ys C'"
proof -
  note inv = server_okD(1) [OF sv]
  have same: ?thesis if "sv' = sv" using that sv by blast
  show ?thesis
  proof (cases req)
    case (ReqCreate inp o0 u)
    with r obtain out where h: "cachercise_create_cache_ult inp o0 u sv = Some (out, sv')" by auto
    then show ?thesis
    proof (cases rule: create_ult_cases)
      case (2 i nm be)
      with server_find_backend(1) [OF sv, of nm] have "backend_named sv nm \<noteq> NULL" by simp
      from create_ult_ok [OF sv 2(2,3) this, of o0 u] room ReqCreate h 2(1) show ?thesis
        by (auto split: if_splits)
    qed (rule same)
  next
    case (ReqOpen inp o0 u)
    with r obtain out where h: "cachercise_open_cache_ult inp o0 u sv = Some (out, sv')" by auto
    then show ?thesis
    proof (cases rule: open_ult_cases)
      case (2 i nm be)
      with server_find_backend(1) [OF sv, of nm] have "backend_named sv nm \<noteq> NULL" by simp
      from open_ult_ok [OF sv 2(2,3) this, of o0 u] room ReqOpen h 2(1) show ?thesis
        by (auto split: if_splits)
    qed (rule same)
  next
    case (ReqClose inp o0)
    with r obtain out where h: "cachercise_close_cache_ult inp o0 sv = Some (out, sv')" by auto
    from inv h show ?thesis
    proof (cases rule: close_ult_cases)
      case (2 i bd)
      from close_ult_ok [OF sv 2(2,3), of o0] h 2(1) show ?thesis by auto
    qed (rule same)
  next
    case (ReqDestroy inp o0)
    with r obtain out where h: "cachercise_destroy_cache_ult inp o0 sv = Some (out, sv')" by auto
    from inv h show ?thesis
    proof (cases rule: destroy_ult_cases)
      case (2 i bd)
      from destroy_ult_ok [OF sv 2(2,3), of o0] h 2(1) show ?thesis by auto
    qed (rule same)
  next
    case (ReqList inp o0 g)
    with r obtain out where "cachercise_list_caches_ult inp o0 g sv = Some (out, sv')" by auto
    from list_ult_same [OF this] show ?thesis by (rule same)
  next
    case (ReqHello inp)
    with r have h: "cachercise_hello_ult inp sv = Some sv'" by auto
    from inv h show ?thesis
    proof (cases rule: hello_ult_cases)
      case (2 i bd)
      obtain f c where "bd = (f, c)" by (cases bd)
      from hello_ult_ok [OF sv 2(2) [unfolded this]] h 2(1) show ?thesis by auto
    qed (rule same)
  next
    case (ReqSum inp o0)
    with r obtain out where h: "cachercise_sum_ult inp o0 sv = Some (out, sv')" by auto
    from inv h show ?thesis
    proof (cases rule: sum_ult_cases)
      case (2 i bd)
      obtain f c where "bd = (f, c)" by (cases bd)
      from sum_ult_ok [OF sv 2(2) [unfolded this], of o0] obtain b :: "'w cachercise_backend_impl"
        where b: "cachercise_sum_ult (Some i) o0 sv =
          map_option (\<lambda>(s, w). (o0\<lparr>so_result := s, so_ret := ret_code CACHERCISE_SUCCESS\<rparr>, sv\<lparr>world := w\<rparr>))
            (sum_fn b c (su_x i) (su_y i) (world sv))"
          "\<forall>s w. sum_fn b c (su_x i) (su_y i) (world sv) = Some (s, w) \<longrightarrow> ok (sv\<lparr>world := w\<rparr>) xs C"
        by blast
      show ?thesis
        using b h 2(1) by (cases "sum_fn b c (su_x i) (su_y i) (world sv)") auto
    qed (rule same)
  next
    case (ReqIo inp o0)
    with r obtain out where h: "cachercise_io_ult inp o0 sv = Some (out, sv')" by auto
    from inv h show ?thesis
    proof (cases rule: io_ult_cases)
      case (2 i bd)
      obtain f c where "bd = (f, c)" by (cases bd)
      from io_ult_ok [OF sv 2(2) [unfolded this]] h [unfolded 2(1)] show ?thesis by blast
    qed (rule same)
  qed
qed

lemma reachable_inv:
  assumes "reachable room sv0 sv" and "ok sv0 xs0 C0"
  shows "\<exists>xs C. ok sv xs C"
  using assms
proof (induction rule: reachable.induct)
  case reach_init
  then show ?case by blast
next
  case (reach_step sv req resp sv')
  then obtain xs C where "ok sv xs C" by blast
  with reach_step.hyps(2) serve_inv show ?case by (auto simp: step_iff)
qed

end

section \<open>Progress\<close>

lemma check_token_defined: "token_given sv t \<Longrightarrow> \<exists>r. check_token (prov sv) t = Some r"
  by (cases "token (prov sv)"; cases t) (auto simp: token_given_def check_token_def)

context backends begin

text \<open>
  Well-formed requests are answered, with the memory they need; sums and I/O are
  as defined as the backend's operation.
\<close>

lemma serve_progress:
  assumes sv: "ok sv xs C" and wf: "well_formed req sv" and room: "has_room room req sv"
    and nb: "\<And>i o0. req \<noteq> ReqSum (Some i) o0" "\<And>i o0. req \<noteq> ReqIo (Some i) o0"
  shows "serve req sv \<noteq> None"
proof (cases req)
  case (ReqCreate inp o0 u)
  show ?thesis
  proof (cases inp)
    case (Some i)
    from wf ReqCreate Some obtain t nm where t: "check_token (prov sv) (cc_token i) = Some t" "cc_type i = Some nm"
      using check_token_defined by fastforce
    note fb = server_find_backend(1) [OF sv, of nm]
    show ?thesis
    proof (cases "t \<and> backend_named sv nm \<noteq> NULL")
      case True
      with create_ult_ok [OF sv _ t(2), of o0 u] t(1) room ReqCreate Some show ?thesis by fastforce
    qed (use ReqCreate Some t fb in \<open>auto simp: cachercise_create_cache_ult_def\<close>)
  qed (use wf ReqCreate in simp)
next
  case (ReqOpen inp o0 u)
  show ?thesis
  proof (cases inp)
    case (Some i)
    from wf ReqOpen Some obtain t nm where t: "check_token (prov sv) (oc_token i) = Some t" "oc_type i = Some nm"
      using check_token_defined by fastforce
    note fb = server_find_backend(1) [OF sv, of nm]
    show ?thesis
    proof (cases "t \<and> backend_named sv nm \<noteq> NULL")
      case True
      with open_ult_ok [OF sv _ t(2), of o0 u] t(1) room ReqOpen Some show ?thesis by fastforce
    qed (use ReqOpen Some t fb in \<open>auto simp: cachercise_open_cache_ult_def\<close>)
  qed (use wf ReqOpen in simp)
next
  case (ReqClose inp o0)
  show ?thesis
  proof (cases inp)
    case (Some i)
    from wf ReqClose Some obtain t where t: "check_token (prov sv) (cl_token i) = Some t"
      using check_token_defined by fastforce
    show ?thesis
    proof (cases "cache_map sv xs (cl_id i)")
      case None
      with remove_cache_absent [OF server_okD(1) [OF sv], of "cl_id i" True] ReqClose Some t show ?thesis
        by (auto simp: cachercise_close_cache_ult_def)
    next
      case (Some bd)
      with close_ult_ok [OF sv _ Some, of o0] ReqClose \<open>inp = Some i\<close> t show ?thesis
        by (cases t) (auto simp: cachercise_close_cache_ult_def)
    qed
  qed (use wf ReqClose in simp)
next
  case (ReqDestroy inp o0)
  show ?thesis
  proof (cases inp)
    case (Some i)
    from wf ReqDestroy Some obtain t where t: "check_token (prov sv) (ds_token i) = Some t"
      using check_token_defined by fastforce
    show ?thesis
    proof (cases "cache_map sv xs (ds_id i)")
      case None
      then have "find_cache sv (ds_id i) = Some NULL"
        by (cases rule: find_cache_cases [OF server_okD(1) [OF sv], of "ds_id i"]) auto
      with ReqDestroy Some t show ?thesis by (auto simp: cachercise_destroy_cache_ult_def)
    next
      case (Some bd)
      with destroy_ult_ok [OF sv _ Some, of o0] ReqDestroy \<open>inp = Some i\<close> t show ?thesis
        by (cases t) (auto simp: cachercise_destroy_cache_ult_def)
    qed
  qed (use wf ReqDestroy in simp)
next
  case (ReqList inp o0 g)
  show ?thesis
  proof (cases inp)
    case (Some i)
    from wf ReqList Some obtain t where t: "check_token (prov sv) (li_token i) = Some t"
      using check_token_defined by fastforce
    show ?thesis
      using ReqList Some t room list_ult_ok [OF server_okD(1) [OF sv], of i o0]
      by (cases t) (auto simp: cachercise_list_caches_ult_def)
  qed (use wf ReqList in simp)
next
  case (ReqHello inp)
  show ?thesis
  proof (cases inp)
    case (Some i)
    show ?thesis
    proof (cases "cache_map sv xs (he_cache_id i)")
      case None
      then have "find_cache sv (he_cache_id i) = Some NULL"
        by (cases rule: find_cache_cases [OF server_okD(1) [OF sv], of "he_cache_id i"]) auto
      with ReqHello Some show ?thesis by (simp add: cachercise_hello_ult_def)
    next
      case (Some bd)
      obtain f c where "bd = (f, c)" by (cases bd)
      with hello_ult_ok [OF sv, of i f c] Some ReqHello \<open>inp = Some i\<close> show ?thesis by auto
    qed
  qed (simp add: ReqHello cachercise_hello_ult_def)
next
  case (ReqSum inp o0)
  with nb(1) show ?thesis by (cases inp) (auto simp: cachercise_sum_ult_def)
next
  case (ReqIo inp o0)
  with nb(2) show ?thesis by (cases inp) (auto simp: cachercise_io_ult_def)
qed

end

section \<open>Authorisation\<close>

text \<open>The token an admin request carries, and the code a response carries.\<close>

fun request_token :: "request \<Rightarrow> string option option" where
  "request_token (ReqCreate (Some i) _ _) = Some (cc_token i)"
| "request_token (ReqOpen (Some i) _ _) = Some (oc_token i)"
| "request_token (ReqClose (Some i) _) = Some (cl_token i)"
| "request_token (ReqDestroy (Some i) _) = Some (ds_token i)"
| "request_token (ReqList (Some i) _ _) = Some (li_token i)"
| "request_token _ = None"

fun response_code :: "response \<Rightarrow> i64 option" where
  "response_code (RespCreate o1) = Some (scast (cc_ret o1))"
| "response_code (RespOpen o1) = Some (scast (oc_ret o1))"
| "response_code (RespClose o1) = Some (scast (cl_ret o1))"
| "response_code (RespDestroy o1) = Some (scast (ds_ret o1))"
| "response_code (RespList o1) = Some (scast (lo_ret o1))"
| "response_code RespHello = None"
| "response_code (RespSum o1) = Some (scast (so_ret o1))"
| "response_code (RespIo o1) = Some (out_ret o1)"

lemma serve_unauthorised:
  assumes "token (prov sv) = Some t" and "request_token req = Some (Some s)" and "s \<noteq> t"
  shows "\<exists>resp. serve req sv = Some (resp, sv)
    \<and> response_code resp = Some (scast (ret_code CACHERCISE_ERR_INVALID_TOKEN))"
proof -
  have c: "check_token (prov sv) (Some s) = Some False"
    using assms(1,3) by (simp add: check_token_Some)
  show ?thesis
    using assms(2) c
    by (cases req rule: request_token.cases)
      (auto simp: cachercise_create_cache_ult_def cachercise_open_cache_ult_def
        cachercise_close_cache_ult_def cachercise_destroy_cache_ult_def
        cachercise_list_caches_ult_def)
qed

text \<open>A \<open>NULL\<close> token where one is required ends in \<open>strcmp\<close>.\<close>

lemma serve_null_token:
  assumes "token (prov sv) = Some t" and "request_token req = Some None"
  shows "serve req sv = None"
proof -
  have c: "check_token (prov sv) None = None" using assms(1) by (simp add: check_token_Some)
  show ?thesis
    using assms(2) c
    by (cases req rule: request_token.cases)
      (auto simp: cachercise_create_cache_ult_def cachercise_open_cache_ult_def
        cachercise_close_cache_ult_def cachercise_destroy_cache_ult_def
        cachercise_list_caches_ult_def)
qed

text \<open>
  An admin request whose input does not decode: its handler frees strings it never got.
\<close>

fun undecoded :: "request \<Rightarrow> bool" where
  "undecoded (ReqCreate i _ _) \<longleftrightarrow> i = None"
| "undecoded (ReqOpen i _ _) \<longleftrightarrow> i = None"
| "undecoded (ReqClose i _) \<longleftrightarrow> i = None"
| "undecoded (ReqDestroy i _) \<longleftrightarrow> i = None"
| "undecoded (ReqList i _ _) \<longleftrightarrow> i = None"
| "undecoded _ \<longleftrightarrow> False"

lemma serve_undecoded: "undecoded req \<Longrightarrow> serve req sv = None"
  by (cases req) (simp_all add: cachercise_create_cache_ult_def cachercise_open_cache_ult_def
    cachercise_close_cache_ult_def cachercise_destroy_cache_ult_def cachercise_list_caches_ult_def)

section \<open>Unknown caches and backends\<close>

text \<open>The cache a request names.\<close>

fun request_cache :: "request \<Rightarrow> cachercise_cache_id_t option" where
  "request_cache (ReqClose (Some i) _) = Some (cl_id i)"
| "request_cache (ReqDestroy (Some i) _) = Some (ds_id i)"
| "request_cache (ReqHello (Some i)) = Some (he_cache_id i)"
| "request_cache (ReqSum (Some i) _) = Some (su_cache_id i)"
| "request_cache (ReqIo (Some i) _) = Some (io_cache_id i)"
| "request_cache _ = None"

text \<open>The request passes the check of its token, if it has one.\<close>

definition admitted :: "request \<Rightarrow> 'w server \<Rightarrow> bool" where
  "admitted req sv \<longleftrightarrow> (case request_token req of None \<Rightarrow> True
     | Some t \<Rightarrow> check_token (prov sv) t = Some True)"

lemma serve_unknown_cache:
  assumes inv: "table_inv sv xs" and k: "request_cache req = Some k" "cache_map sv xs k = None"
    and t: "admitted req sv"
  shows "\<exists>resp. serve req sv = Some (resp, sv)
    \<and> (response_code resp = None \<or> response_code resp = Some (scast (ret_code CACHERCISE_ERR_INVALID_CACHE)))"
proof -
  have f: "find_cache sv k = Some NULL"
    using k(2) by (cases rule: find_cache_cases [OF inv, of k]) auto
  have r: "remove_cache sv k True = Some (CACHERCISE_ERR_INVALID_CACHE, sv)"
    by (rule remove_cache_absent [OF inv k(2)])
  show ?thesis
    using k(1) t f r unfolding admitted_def
    by (cases req rule: request_cache.cases)
      (auto simp: cachercise_close_cache_ult_def cachercise_destroy_cache_ult_def
        cachercise_hello_ult_def cachercise_sum_ult_def cachercise_io_ult_def)
qed

text \<open>The backend a request names.\<close>

fun request_backend :: "request \<Rightarrow> string option" where
  "request_backend (ReqCreate (Some i) _ _) = cc_type i"
| "request_backend (ReqOpen (Some i) _ _) = oc_type i"
| "request_backend _ = None"

lemma serve_unknown_backend:
  assumes sv: "server_ok W impl sv xs C" and nm: "request_backend req = Some nm" "backend_named sv nm = NULL"
    and t: "admitted req sv"
  shows "\<exists>resp. serve req sv = Some (resp, sv)
    \<and> response_code resp = Some (scast (ret_code CACHERCISE_ERR_INVALID_BACKEND))"
proof -
  have f: "find_backend_impl sv (Some nm) = Some NULL"
    using server_find_backend(1) [OF sv, of nm] nm(2) by simp
  show ?thesis
    using nm(1) t f unfolding admitted_def
    by (cases req rule: request_backend.cases)
      (auto simp: cachercise_create_cache_ult_def cachercise_open_cache_ult_def)
qed

end
