(* ===== verification/Dummy_System.thy ===== *)
theory Dummy_System
  imports System
begin

text \<open>
  The server with the dummy backend at address \<open>D\<close>: the results of \<open>System\<close> through
  the interpretation \<open>dm\<close> of the contract, the initial state, and I/O end to end,
  from the RPC handler down to the vector.
\<close>

section \<open>Its invariant\<close>

definition dummy_server ::
  "'l ext \<Rightarrow> ('l \<Rightarrow> addr set) \<Rightarrow> ('l \<Rightarrow> addr set) \<Rightarrow> ptr \<Rightarrow> 'l dworld server \<Rightarrow> addr list \<Rightarrow> open_ctx set \<Rightarrow> bool" where
  "dummy_server e jl ml D sv xs C \<longleftrightarrow>
     server_ok (dummy_W e jl ml D) (\<lambda>f b. f = D \<and> b = dummy_backend e) sv xs C"

lemma dummy_serverD:
  assumes "dummy_server e jl ml D sv xs C"
  shows "table_inv sv xs" "dummy_ok e jl ml (world sv)"
    "(f, c) \<in> C \<longleftrightarrow> f = D \<and> (\<exists>a x. c = Some a \<and> cells (ctxs (world sv)) a = Some x)"
    "cache_map sv xs k = Some bd \<Longrightarrow> bd \<in> C"
proof -
  note D = server_okD [OF assms [unfolded dummy_server_def]]
  show "table_inv sv xs" by (rule D(1))
  show "dummy_ok e jl ml (world sv)" using D(2) by (simp add: dummy_W_def)
  show "(f, c) \<in> C \<longleftrightarrow> f = D \<and> (\<exists>a x. c = Some a \<and> cells (ctxs (world sv)) a = Some x)"
    by (rule dummy_W_iff [OF D(2)])
  show "cache_map sv xs k = Some bd \<Longrightarrow> bd \<in> C"
    using D(3) by (force simp: cache_map_def dest: map_of_SomeD)
qed

text \<open>A server as a registration means to leave it: no cache, no context.\<close>

lemma dummy_server_init:
  assumes "caches (prov sv) = NULL" "num_caches (prov sv) = 0" "num_backend_types (prov sv) = 1"
    "backend_types (prov sv) = [Some d]" "cells (impls sv) d = Some (dummy_backend e)"
    "heap_wf (elts (mem sv))" "heap_wf (tbls (mem sv))"
    and w: "ext_ok e jl ml" "heap_wf (ctxs (world sv))" "heap_wf (hoards (world sv))"
      "cells (ctxs (world sv)) = Map.empty" "cells (hoards (world sv)) = Map.empty"
  shows "dummy_server e jl ml (Some d) sv [] {}"
  using assms
  by (simp add: dummy_server_def server_ok_def table_inv_def hash_ok_empty dummy_W_def dummy_ok_def
      unshared_def impls_ok_def cache_list_def)

section \<open>I/O on the backend\<close>

text \<open>The data of the cache whose context is at \<open>a\<close>.\<close>

definition cache_hoard :: "'l dworld \<Rightarrow> ptr \<Rightarrow> ptr" where
  "cache_hoard w c = (case h_load c (ctxs w) of None \<Rightarrow> NULL | Some x \<Rightarrow> ctx_h x)"

definition cache_data :: "'l dworld \<Rightarrow> ptr \<Rightarrow> nat \<Rightarrow> i64" where
  "cache_data w c = hoard_read (cache_hoard w c) (hoards w)"

definition cache_size :: "'l dworld \<Rightarrow> ptr \<Rightarrow> nat" where
  "cache_size w c = hoard_size (cache_hoard w c) (hoards w)"

lemma div_8_one: "unat n div 8 = 1 \<Longrightarrow> n div 8 = (1 :: u64)"
  by (rule word_unat_eq_iff [THEN iffD2]) (simp add: unat_div)

lemma dummy_io_write:
  assumes ok: "dummy_ok e jl ml w" and a: "cells (ctxs w) a = Some x" and h: "ctx_h x \<noteq> NULL"
    and n: "unat n div 8 = 1" and fits: "hoard_fits (ctx_h x) (hoards w) 1 (unat off)"
  shows "\<exists>w'. dummy_io e (Some a) n off [v] CACHERCISE_WRITE w = Some (1, [v], w') \<and> ctxs w' = ctxs w
     \<and> cache_data w' (Some a) = (cache_data w (Some a))(unat off := v)
     \<and> max (cache_size w (Some a)) (unat off + 1) \<le> cache_size w' (Some a)
     \<and> grants (hoards w') = grants (hoards w)
     \<and> (\<forall>b y. cells (ctxs w) b = Some y \<longrightarrow> b \<noteq> a \<longrightarrow> cache_data w' (Some b) = cache_data w (Some b))"
proof -
  note D = dummy_okD [OF ok]
  have cx: "ctx_ok jl ml w x" by (rule D(4) [OF a])
  have ho: "hoard_ok (ctx_h x) (hoards w)" using cx h by (simp add: ctx_ok_def)
  obtain p where p: "ctx_h x = Some p" using h by auto
  obtain l where l: "ABT_mutex_lock e (hoard_mutex x) (lib w) = Some l"
    "jl l = jl (lib w)" "ml l = ml (lib w)"
    using cx by (elim ext_ok_lockE [OF D(1), of "hoard_mutex x", rotated]) (auto simp: ctx_ok_def)
  obtain l' where l': "ABT_mutex_unlock e (hoard_mutex x) l = Some l'"
    by (rule ext_ok_unlockE [OF D(1), of "hoard_mutex x" l]) (use cx l(3) in \<open>auto simp: ctx_ok_def\<close>)
  have f: "hoard_fits (ctx_h x) (hoards w) (unat (1 :: u64)) (unat off)" using fits by simp
  from hoard_put_read [OF ho f, of "[v]"] obtain hs where hs:
    "hoard_put (ctx_h x) [v] 1 off (hoards w) = Some (1, hs)"
    "max (hoard_size (ctx_h x) (hoards w)) (unat off + 1) \<le> hoard_size (ctx_h x) hs"
    "hoard_read (ctx_h x) hs = (\<lambda>j. if unat off \<le> j \<and> j < unat off + 1 then [v] ! (j - unat off)
        else hoard_read (ctx_h x) (hoards w) j)"
    "\<And>q. q \<noteq> p \<Longrightarrow> cells hs q = cells (hoards w) q" "grants hs = grants (hoards w)" using p by auto
  have r: "hoard_read (ctx_h x) hs = (hoard_read (ctx_h x) (hoards w))(unat off := v)"
    unfolding hs(3) by (auto simp: fun_eq_iff)
  let ?w = "w\<lparr>hoards := hs, lib := l'\<rparr>"
  have "dummy_io e (Some a) n off [v] CACHERCISE_WRITE w = Some (1, [v], ?w)"
    using a l(1) l' hs(1) div_8_one [OF n] by (simp add: dummy_io_def)
  moreover have "cache_data ?w (Some b) = cache_data w (Some b)"
    if "cells (ctxs w) b = Some y" "b \<noteq> a" for b y
  proof -
    have "ctx_h y \<noteq> Some p" using D(6) a that p unfolding unshared_def by blast
    then show ?thesis using that hs(4)
      by (cases "ctx_h y") (auto simp: cache_data_def cache_hoard_def hoard_read_def)
  qed
  ultimately show ?thesis
    using a r hs(2,5) by (intro exI [of _ ?w]) (auto simp: cache_data_def cache_hoard_def cache_size_def)
qed

lemma dummy_io_read:
  assumes ok: "dummy_ok e jl ml w" and a: "cells (ctxs w) a = Some x"
    and k: "k \<noteq> CACHERCISE_WRITE"
    and n: "unat n div 8 = 1" and i: "unat off < cache_size w (Some a)"
  shows "dummy_io e (Some a) n off [v] k w = Some (1, [cache_data w (Some a) (unat off)], w)"
proof -
  have cx: "ctx_ok jl ml w x" by (rule dummy_okD(4) [OF ok a])
  have "ctx_h x \<noteq> NULL" using i a by (cases "ctx_h x") (auto simp: cache_size_def cache_hoard_def)
  then have "hoard_ok (ctx_h x) (hoards w)" using cx by (simp add: ctx_ok_def)
  from hoard_get_ok [OF this, of off 1 "[v]"] i a k div_8_one [OF n] show ?thesis
    by (simp add: dummy_io_def cache_size_def cache_data_def cache_hoard_def)
qed

text \<open>
  An I/O request that is carried out has stayed inside the one element of the
  caller's buffer and, for a read, inside the vector.
\<close>

lemma dummy_io_bounds:
  assumes ok: "dummy_ok e jl ml w" and a: "cells (ctxs w) a = Some x"
    and r: "dummy_io e (Some a) n off [v] k w = Some r" and n: "8 \<le> unat n"
  shows "unat n < 16" "ctx_h x \<noteq> NULL"
    "k \<noteq> CACHERCISE_WRITE \<Longrightarrow> unat off < cache_size w (Some a)"
    "unat off < vector_max_size"
proof -
  note D = dummy_okD [OF ok]
  have cx: "ctx_ok jl ml w x" by (rule D(4) [OF a])
  have m: "0 < unat (n div 8)" using n by (simp add: unat_div)
  have h: "ctx_h x \<noteq> NULL"
    using r a by (cases "ctx_h x") (auto simp: dummy_io_def bind_Some_iff split: if_splits)
  then have ho: "hoard_ok (ctx_h x) (hoards w)" using cx by (simp add: ctx_ok_def)
  have sz: "hoard_size (ctx_h x) (hoards w) \<le> vector_max_size"
    using ho by (auto simp: hoard_ok_def hoard_size_def)
  have b: "unat (n div 8) \<le> 1 \<and> unat off < vector_max_size
      \<and> (k \<noteq> CACHERCISE_WRITE \<longrightarrow> unat off < cache_size w (Some a))"
  proof (cases "k = CACHERCISE_WRITE")
    case True
    with r a obtain q where "hoard_put (ctx_h x) [v] (n div 8) off (hoards w) = Some q"
      by (auto simp: dummy_io_def bind_Some_iff)
    from hoard_put_no_wrap [OF ho m this] True m show ?thesis by simp
  next
    case False
    with r a have "hoard_get (ctx_h x) [v] (n div 8) off (hoards w) \<noteq> None"
      by (auto simp: dummy_io_def bind_Some_iff)
    with hoard_get_defined [OF ho m] False m sz a show ?thesis
      by (auto simp: cache_size_def cache_hoard_def)
  qed
  then have "unat n div 8 < 2" by (simp add: unat_div)
  then show "unat n < 16" by (simp add: div_less_iff_less_mult)
  show "ctx_h x \<noteq> NULL" by (rule h)
  show "k \<noteq> CACHERCISE_WRITE \<Longrightarrow> unat off < cache_size w (Some a)" "unat off < vector_max_size"
    using b by auto
qed

lemma one_element: "8 \<le> unat n \<Longrightarrow> unat n < 16 \<Longrightarrow> unat (n :: u64) div 8 = 1"
  by linarith

lemma dummy_io_fits:
  assumes ok: "dummy_ok e jl ml w" and a: "cells (ctxs w) a = Some x" and n: "8 \<le> unat n"
    and r: "dummy_io e (Some a) n off [v] CACHERCISE_WRITE w = Some r"
  shows "hoard_fits (ctx_h x) (hoards w) 1 (unat off)"
proof -
  note B = dummy_io_bounds [OF ok a r n]
  have n1: "unat n div 8 = 1" using n B(1) by (rule one_element)
  obtain q where "hoard_put (ctx_h x) [v] (n div 8) off (hoards w) = Some q"
    using r a by (auto simp: dummy_io_def bind_Some_iff)
  moreover have "hoard_ok (ctx_h x) (hoards w)"
    using dummy_okD(4) [OF ok a] B(2) by (simp add: ctx_ok_def)
  ultimately show ?thesis
    using hoard_put_fits [of "ctx_h x" "hoards w" "n div 8" "[v]" off q] n1 by (simp add: unat_div)
qed

section \<open>I/O on the server\<close>

lemma io_ult_run:
  assumes sv: "dummy_server e jl ml D sv xs C" and k: "cache_map sv xs (io_cache_id i) = Some (f, c)"
  shows "f = D \<and> (\<exists>a x. c = Some a \<and> cells (ctxs (world sv)) a = Some x)"
    and "cachercise_io_ult (Some i) out0 sv =
      (case dummy_io e c (io_count i) (io_offset i) [io_scratch i] (ucast (io_kind i)) (world sv) of
         Some (t, [s], w) \<Rightarrow> Some (\<lparr>out_bytes = t * 8, out_scratch = s, out_result = t, out_ret = 0\<rparr>,
                              sv\<lparr>world := w\<rparr>)
       | _ \<Rightarrow> None)"
proof -
  note D = dummy_serverD [OF sv]
  show fc: "f = D \<and> (\<exists>a x. c = Some a \<and> cells (ctxs (world sv)) a = Some x)"
    using D(3) D(4) [OF k] by blast
  obtain a b where a: "find_cache sv (io_cache_id i) = Some (Some a)" "live (mem sv) a"
    "bodyf (mem sv) a = (f, c)" "h_load f (impls sv) = Some b" "f = D \<and> b = dummy_backend e"
    by (rule dm.call_cache [OF sv [unfolded dummy_server_def] k])
  obtain a' x where x: "c = Some a'" "cells (ctxs (world sv)) a' = Some x" using fc by blast
  show "cachercise_io_ult (Some i) out0 sv =
      (case dummy_io e c (io_count i) (io_offset i) [io_scratch i] (ucast (io_kind i)) (world sv) of
         Some (t, [s], w) \<Rightarrow> Some (\<lparr>out_bytes = t * 8, out_scratch = s, out_result = t, out_ret = 0\<rparr>,
                              sv\<lparr>world := w\<rparr>)
       | _ \<Rightarrow> None)"
  proof (cases "dummy_io e c (io_count i) (io_offset i) [io_scratch i] (ucast (io_kind i)) (world sv)")
    case None
    then show ?thesis using a
      by (simp add: cachercise_io_ult_def load_elt dummy_backend_def del: h_load_simps)
  next
    case (Some r)
    obtain t buf w where r: "r = (t, buf, w)" by (cases r)
    from dummy_io_ok [OF D(2) x(2), of "io_count i" "io_offset i" "[io_scratch i]"] Some r x(1)
    have "length buf = 1" by auto
    then obtain s where "buf = [s]" by (cases buf) auto
    with Some r a show ?thesis
      by (simp add: cachercise_io_ult_def load_elt dummy_backend_def del: h_load_simps)
  qed
qed

text \<open>One write and one read on the server, with what they do to the contents of the cache.\<close>

lemma io_ult_write:
  assumes sv: "dummy_server e jl ml D sv xs C" and k: "cache_map sv xs (io_cache_id i) = Some (f, c)"
    and h: "cache_hoard (world sv) c \<noteq> NULL"
    and wr: "ucast (io_kind i) = CACHERCISE_WRITE" and n: "unat (io_count i) div 8 = 1"
    and fits: "hoard_fits (cache_hoard (world sv) c) (hoards (world sv)) 1 (unat (io_offset i))"
  shows "\<exists>w. cachercise_io_ult (Some i) out0 sv
      = Some (\<lparr>out_bytes = 8, out_scratch = io_scratch i, out_result = 1, out_ret = 0\<rparr>, sv\<lparr>world := w\<rparr>)
    \<and> dummy_server e jl ml D (sv\<lparr>world := w\<rparr>) xs C
    \<and> cache_hoard w c = cache_hoard (world sv) c
    \<and> cache_data w c = (cache_data (world sv) c)(unat (io_offset i) := io_scratch i)
    \<and> max (cache_size (world sv) c) (unat (io_offset i) + 1) \<le> cache_size w c
    \<and> grants (hoards w) = grants (hoards (world sv))"
proof -
  note D = dummy_serverD [OF sv]
  note run = io_ult_run [OF sv k]
  from run(1) obtain a x where f: "f = D" and a: "c = Some a" "cells (ctxs (world sv)) a = Some x" by blast
  have hx: "cache_hoard (world sv) c = ctx_h x" using a by (simp add: cache_hoard_def)
  from dummy_io_write [OF D(2) a(2) h [unfolded hx] n fits [unfolded hx], of "io_scratch i"]
  obtain w where w: "dummy_io e c (io_count i) (io_offset i) [io_scratch i] CACHERCISE_WRITE (world sv)
      = Some (1, [io_scratch i], w)" "ctxs w = ctxs (world sv)"
    "cache_data w c = (cache_data (world sv) c)(unat (io_offset i) := io_scratch i)"
    "max (cache_size (world sv) c) (unat (io_offset i) + 1) \<le> cache_size w c"
    "grants (hoards w) = grants (hoards (world sv))" by (auto simp: a(1))
  have r1: "cachercise_io_ult (Some i) out0 sv
      = Some (\<lparr>out_bytes = 8, out_scratch = io_scratch i, out_result = 1, out_ret = 0\<rparr>, sv\<lparr>world := w\<rparr>)"
    using run(2) [of out0] w(1) wr by simp
  from dm.io_ult_ok [OF sv [unfolded dummy_server_def] k r1]
  have "dummy_server e jl ml D (sv\<lparr>world := w\<rparr>) xs C" by (auto simp: dummy_server_def)
  moreover have "cache_hoard w c = cache_hoard (world sv) c" using w(2) by (simp add: cache_hoard_def)
  ultimately show ?thesis using r1 w(3-5) by blast
qed

lemma io_ult_read:
  assumes sv: "dummy_server e jl ml D sv xs C" and k: "cache_map sv xs (io_cache_id i) = Some (f, c)"
    and rd: "ucast (io_kind i) \<noteq> CACHERCISE_WRITE" and n: "unat (io_count i) div 8 = 1"
    and off: "unat (io_offset i) < cache_size (world sv) c"
  shows "cachercise_io_ult (Some i) out0 sv
    = Some (\<lparr>out_bytes = 8, out_scratch = cache_data (world sv) c (unat (io_offset i)), out_result = 1, out_ret = 0\<rparr>, sv)"
proof -
  note run = io_ult_run [OF sv k]
  from run(1) obtain a x where a: "c = Some a" "cells (ctxs (world sv)) a = Some x" by blast
  from dummy_io_read [OF dummy_serverD(2) [OF sv] a(2) rd n off [unfolded a(1)], of "io_scratch i"] run(2) [of out0]
  show ?thesis by (simp add: a(1))
qed

text \<open>A write of one element that fits, then a read of it, on one cache.\<close>

lemma io_write_then_read:
  assumes sv: "dummy_server e jl ml D sv xs C" and k: "cache_map sv xs (io_cache_id i) = Some (f, c)"
    and h: "cache_hoard (world sv) c \<noteq> NULL"
    and wr: "ucast (io_kind i) = CACHERCISE_WRITE" and n: "unat (io_count i) div 8 = 1"
    and fits: "hoard_fits (cache_hoard (world sv) c) (hoards (world sv)) 1 (unat (io_offset i))"
    and j: "io_cache_id j = io_cache_id i" "io_offset j = io_offset i" "unat (io_count j) div 8 = 1"
      "ucast (io_kind j) \<noteq> CACHERCISE_WRITE"
  shows "\<exists>sv'. cachercise_io_ult (Some i) out0 sv
      = Some (\<lparr>out_bytes = 8, out_scratch = io_scratch i, out_result = 1, out_ret = 0\<rparr>, sv')
    \<and> dummy_server e jl ml D sv' xs C
    \<and> cachercise_io_ult (Some j) out1 sv'
      = Some (\<lparr>out_bytes = 8, out_scratch = io_scratch i, out_result = 1, out_ret = 0\<rparr>, sv')"
proof -
  from io_ult_write [OF sv k h wr n fits, of out0] obtain w where
    w: "cachercise_io_ult (Some i) out0 sv
      = Some (\<lparr>out_bytes = 8, out_scratch = io_scratch i, out_result = 1, out_ret = 0\<rparr>, sv\<lparr>world := w\<rparr>)"
    "dummy_server e jl ml D (sv\<lparr>world := w\<rparr>) xs C"
    "cache_data w c = (cache_data (world sv) c)(unat (io_offset i) := io_scratch i)"
    "unat (io_offset i) < cache_size w c" by auto
  have "cache_map (sv\<lparr>world := w\<rparr>) xs (io_cache_id j) = Some (f, c)" using k j(1) by simp
  from io_ult_read [OF w(2) this j(4,3), of out1] w(3,4) j(2) w show ?thesis by auto
qed

text \<open>Bounds of every I/O request the server answers.\<close>

lemma io_ult_bounds:
  assumes sv: "dummy_server e jl ml D sv xs C" and k: "cache_map sv xs (io_cache_id i) = Some (f, c)"
    and r: "cachercise_io_ult (Some i) out0 sv \<noteq> None" and n: "8 \<le> unat (io_count i)"
  shows "unat (io_count i) < 16" "cache_hoard (world sv) c \<noteq> NULL"
    "unat (io_offset i) < vector_max_size"
    "ucast (io_kind i) \<noteq> CACHERCISE_WRITE \<Longrightarrow> unat (io_offset i) < cache_size (world sv) c"
proof -
  note run = io_ult_run [OF sv k]
  from run(1) obtain a x where a: "c = Some a" "cells (ctxs (world sv)) a = Some x" by blast
  have hx: "cache_hoard (world sv) (Some a) = ctx_h x" using a by (simp add: cache_hoard_def)
  from r run(2) [of out0] obtain q where
    q: "dummy_io e (Some a) (io_count i) (io_offset i) [io_scratch i] (ucast (io_kind i)) (world sv) = Some q"
    by (auto simp: a(1) split: option.splits)
  from dummy_io_bounds [OF dummy_serverD(2) [OF sv] a(2) q n]
  show "unat (io_count i) < 16" "cache_hoard (world sv) c \<noteq> NULL"
    "unat (io_offset i) < vector_max_size"
    "ucast (io_kind i) \<noteq> CACHERCISE_WRITE \<Longrightarrow> unat (io_offset i) < cache_size (world sv) c"
    by (simp_all add: hx a(1))
qed

text \<open>The element an answered write wrote lies in the vector as it is afterwards.\<close>

lemma io_ult_written:
  assumes sv: "dummy_server e jl ml D sv xs C" and k: "cache_map sv xs (io_cache_id i) = Some (f, c)"
    and r: "cachercise_io_ult (Some i) out0 sv = Some (out, sv')" and n: "8 \<le> unat (io_count i)"
    and wr: "ucast (io_kind i) = CACHERCISE_WRITE"
  shows "unat (io_offset i) < cache_size (world sv') c"
proof -
  note run = io_ult_run [OF sv k]
  from run(1) obtain a x where a: "c = Some a" "cells (ctxs (world sv)) a = Some x" by blast
  have hx: "cache_hoard (world sv) c = ctx_h x" using a by (simp add: cache_hoard_def)
  from r run(2) [of out0] obtain q where
    q: "dummy_io e (Some a) (io_count i) (io_offset i) [io_scratch i] CACHERCISE_WRITE (world sv) = Some q"
    by (auto simp: a(1) wr split: option.splits)
  have "\<exists>w. cachercise_io_ult (Some i) out0 sv
      = Some (\<lparr>out_bytes = 8, out_scratch = io_scratch i, out_result = 1, out_ret = 0\<rparr>, sv\<lparr>world := w\<rparr>)
    \<and> max (cache_size (world sv) c) (unat (io_offset i) + 1) \<le> cache_size w c"
    using io_ult_write [OF sv k _ wr one_element [OF n], of out0]
      dummy_io_bounds(1,2) [OF dummy_serverD(2) [OF sv] a(2) q n]
      dummy_io_fits [OF dummy_serverD(2) [OF sv] a(2) n q] unfolding hx by blast
  then show ?thesis using r by auto
qed

text \<open>An opened cache has no hoard: its first I/O request dereferences \<open>NULL\<close>.\<close>

lemma io_ult_no_hoard:
  assumes sv: "dummy_server e jl ml D sv xs C" and k: "cache_map sv xs (io_cache_id i) = Some (f, c)"
    and h: "cache_hoard (world sv) c = NULL"
  shows "cachercise_io_ult (Some i) out0 sv = None"
proof -
  note run = io_ult_run [OF sv k]
  from run(1) obtain a x where a: "c = Some a" "cells (ctxs (world sv)) a = Some x" by blast
  have "ctx_h x = NULL" using h a by (simp add: cache_hoard_def)
  then have "dummy_io e c (io_count i) (io_offset i) [io_scratch i] (ucast (io_kind i)) (world sv) = None"
    using a by (auto simp: dummy_io_def bind_eq_None_conv)
  then show ?thesis using run(2) by simp
qed

section \<open>Sums and destruction\<close>

lemma sum_ult_run:
  assumes sv: "dummy_server e jl ml D sv xs C" and k: "cache_map sv xs (su_cache_id i) = Some bd"
  shows "cachercise_sum_ult (Some i) out0 sv =
    (let s = sint (su_x i) + sint (su_y i) in
     if - (2 ^ 31) \<le> s \<and> s < 2 ^ 31 then Some (\<lparr>so_result = word_of_int s, so_ret = 0\<rparr>, sv) else None)"
proof -
  obtain f c where bd: "bd = (f, c)" by (cases bd)
  from dm.sum_ult_ok [OF sv [unfolded dummy_server_def] k [unfolded bd], of out0]
  show ?thesis by (auto simp: dummy_backend_def dummy_compute_sum_def Let_def)
qed

lemma provider_destroy_run:
  assumes sv: "dummy_server e jl ml D sv xs C" and mg: "margo_ok mg regs rid"
  shows "\<exists>sv' g'. cachercise_provider_destroy mg sv g = Some (CACHERCISE_SUCCESS, sv', g')
    \<and> dummy_server e jl ml D sv' [] (C - snd ` set (cache_list sv xs))
    \<and> regs g' = (\<lambda>i. if i \<in> set (rpc_ids (prov sv)) then None else regs g i) \<and> self sv' = NULL"
proof -
  let ?g = "margo_provider_pop_finalize_callback mg (self sv) g"
  from dm.remove_all_ok [OF sv [unfolded dummy_server_def]] obtain sv1
    where r: "remove_all_caches sv = Some sv1"
      "server_ok (dummy_W e jl ml D) (\<lambda>f b. f = D \<and> b = dummy_backend e) sv1 [] (C - snd ` set (cache_list sv xs))"
    by blast
  then obtain g' where f: "cachercise_finalize_provider mg sv ?g = Some (sv1\<lparr>self := NULL\<rparr>, g')"
    by (auto simp: cachercise_finalize_provider_def Let_def)
  have e: "regs ?g = regs g" using mg by (simp add: margo_ok_def)
  have "server_ok W I (sv1\<lparr>self := NULL\<rparr>) [] X" if "server_ok W I sv1 [] X" for W I X
    using that by (simp add: server_ok_def table_inv_def cache_list_def impls_ok_def)
  then show ?thesis
    using r f finalize_regs(1) [OF mg f, unfolded e] by (simp add: cachercise_provider_destroy_def dummy_server_def)
qed

end
