(* ===== verification/Instance.thy ===== *)
theory Instance
  imports Dummy_System
begin

text \<open>
  Concrete libraries, a concrete allocator and a concrete server, at which the
  theorems of the development are evaluated.  The library state of \<open>ref_ext\<close> lists the live JSON objects and the live
  mutexes; its parser accepts the texts that start with an opening brace.
\<close>

section \<open>Libraries\<close>

type_synonym ref_lib = "nat list \<times> nat list"

definition new_obj :: "nat list \<Rightarrow> nat" where
  "new_obj xs = Suc (sum_list xs)"

definition ref_release :: "nat \<Rightarrow> nat list \<Rightarrow> nat list option" where
  "ref_release a xs = (if a \<in> set xs then Some (removeAll a xs) else None)"

definition ref_ext :: "ref_lib ext" where
  "ref_ext =
     \<lparr>json_parse = (\<lambda>s (js, ms). if s \<noteq> [] \<and> hd s = CHR ''{''
                      then (Some (new_obj js), (new_obj js # js, ms)) else (None, (js, ms))),
      json_object_new_object = (\<lambda>(js, ms). (Some (new_obj js), (new_obj js # js, ms))),
      json_object_put = (\<lambda>p (js, ms). case p of None \<Rightarrow> Some (js, ms)
                      | Some a \<Rightarrow> map_option (\<lambda>js. (js, ms)) (ref_release a js)),
      ABT_mutex_create = (\<lambda>(js, ms). (Some (new_obj ms), (js, new_obj ms # ms))),
      ABT_mutex_lock = (\<lambda>p l. Some l),
      ABT_mutex_unlock = (\<lambda>p l. Some l),
      ABT_mutex_free = (\<lambda>p (js, ms). case p of None \<Rightarrow> Some (js, ms)
                      | Some a \<Rightarrow> map_option (\<lambda>ms. (js, ms)) (ref_release a ms))\<rparr>"

definition ref_jl :: "ref_lib \<Rightarrow> addr set" where "ref_jl l = set (fst l)"
definition ref_ml :: "ref_lib \<Rightarrow> addr set" where "ref_ml l = set (snd l)"

lemma new_obj_fresh: "new_obj xs \<notin> set xs"
  using member_le_sum_list [of "new_obj xs" xs] by (auto simp: new_obj_def)

lemma ref_ext_ok: "ext_ok ref_ext ref_jl ref_ml"
  using new_obj_fresh
  by (auto simp: ext_ok_def creates_def releases_def ref_ext_def ref_jl_def ref_ml_def ref_release_def
      split: option.splits if_splits)

section \<open>A server without caches\<close>

text \<open>An allocator that never refuses.\<close>

definition plenty :: "'a heap" where
  "plenty = empty_heap (\<lambda>_. True)"

definition world0 :: "ref_lib dworld" where
  "world0 = \<lparr>ctxs = plenty, hoards = plenty, lib = ([], []), stdout = []\<rparr>"

definition prov0 :: cachercise_provider where
  "prov0 = \<lparr>mid = Some 0, provider_id = 42, pool = NULL, abtio = NULL, token = Some ''ABCDEFGH'',
     num_backend_types = 1, backend_types = [Some 0], num_caches = 0, caches = NULL, p_hoard = NULL,
     create_cache_id = 1, open_cache_id = 2, close_cache_id = 3, destroy_cache_id = 4,
     list_caches_id = 5, hello_id = 6, sum_id = 7, io_id = 8\<rparr>"

definition server0 :: "ref_lib dworld server" where
  "server0 = \<lparr>self = Some 0, prov = prov0, mem = \<lparr>elts = plenty, tbls = plenty\<rparr>,
     impls = plenty\<lparr>cells := [0 \<mapsto> dummy_backend ref_ext], brk := 1\<rparr>, world = world0\<rparr>"

abbreviation ref_server :: "ref_lib dworld server \<Rightarrow> addr list \<Rightarrow> open_ctx set \<Rightarrow> bool" where
  "ref_server \<equiv> dummy_server ref_ext ref_jl ref_ml (Some 0)"

lemma plenty_simps [simp]:
  "cells plenty = Map.empty" "brk plenty = 0" "grants plenty n" "heap_wf plenty" "no_oom plenty"
  by (simp_all add: plenty_def empty_heap_def heap_wf_def no_oom_def)

lemma server0_ok: "ref_server server0 [] {}"
  by (rule dummy_server_init) (simp_all add: server0_def prov0_def world0_def ref_ext_ok)

lemma server0_room: "table_room server0" "dummy_room (world server0)"
  by (simp_all add: table_room_def dummy_room_def server0_def prov0_def world0_def log2_of_def
      the_tbl_def tblp_def)

lemma server0_space: "table_space n server0" if "n \<le> 26"
  using that by (simp add: table_space_def server0_def prov0_def log2_of_def the_tbl_def tblp_def)

lemma server0_token: "check_token (prov server0) (Some ''ABCDEFGH'') = Some True"
  by (simp add: server0_def prov0_def check_token_def)

lemma server0_backend: "backend_named server0 ''dummy'' = Some 0"
  by (simp add: backend_named_def server0_def prov0_def dummy_backend_def)

section \<open>A server with one cache\<close>

definition create_in :: create_cache_in_t where
  "create_in = \<lparr>cc_type = Some ''dummy'', cc_config = Some ''{}'', cc_token = Some ''ABCDEFGH''\<rparr>"

definition create_out :: create_cache_out_t where
  "create_out = \<lparr>cc_ret = 99, cc_id = 99\<rparr>"

definition open_in :: open_cache_in_t where
  "open_in = \<lparr>oc_type = Some ''dummy'', oc_config = Some ''{}'', oc_token = Some ''ABCDEFGH''\<rparr>"

definition open_out :: open_cache_out_t where
  "open_out = \<lparr>oc_ret = 99, oc_id = 99\<rparr>"

definition server1 :: "ref_lib dworld server" where
  "server1 = snd (the (cachercise_create_cache_ult (Some create_in) create_out 7 server0))"

text \<open>The state of the backend after the creation: one context, its hoard, its mutex.\<close>

definition world1 :: "ref_lib dworld" where
  "world1 = \<lparr>ctxs = plenty\<lparr>cells := [0 \<mapsto> \<lparr>config = Some 1, ctx_h = Some 0, hoard_mutex = Some 1\<rparr>], brk := 1\<rparr>,
     hoards = plenty\<lparr>cells := [0 \<mapsto> \<lparr>m_hoard = []\<rparr>], brk := 1\<rparr>, lib = ([1], [1]), stdout = []\<rparr>"

lemma create_world0:
  "dummy_create_cache ref_ext p (Some ''{}'') c world0 = Some (CACHERCISE_SUCCESS, Some 0, world1)"
  by (simp add: dummy_create_cache_def read_config_def ref_ext_def new_obj_def world0_def world1_def
      hoard_init_def h_alloc_granted zero_context_def)

text \<open>A second creation, and an opening, in that state.\<close>

lemma create_world1:
  "\<exists>w. dummy_create_cache ref_ext p (Some ''{}'') c world1 = Some (CACHERCISE_SUCCESS, Some 1, w)"
  by (simp add: dummy_create_cache_def read_config_def ref_ext_def new_obj_def world1_def
      hoard_init_def h_alloc_granted zero_context_def)

lemma open_world1:
  "\<exists>w. dummy_open_cache ref_ext p (Some ''{}'') c world1 = Some (CACHERCISE_SUCCESS, Some 1, w)"
  by (simp add: dummy_open_cache_def read_config_def ref_ext_def new_obj_def world1_def
      h_alloc_granted zero_context_def)

lemma server0_simps:
  "token (prov server0) = Some ''ABCDEFGH''" "world server0 = world0" "self server0 = Some 0"
  "cache_list server0 [] = []" "cache_map server0 [] k = None"
  by (simp_all add: server0_def prov0_def cache_list_def cache_map_def)

lemma server1_ok:
  shows "\<exists>a. ref_server server1 [a] {(Some 0, Some 0)} \<and> cache_list server1 [a] = [(7, (Some 0, Some 0))]"
    and "world server1 = world1" and "token (prov server1) = Some ''ABCDEFGH''"
    and "cachercise_create_cache_ult (Some create_in) create_out 7 server0
      = Some (\<lparr>cc_ret = 0, cc_id = 7\<rparr>, server1)"
    and "self server1 = Some 0" "backend_named server1 ''dummy'' = Some 0" "table_space 25 server1"
proof -
  have tok: "check_token (prov server0) (cc_token create_in) = Some True"
    and ty: "cc_type create_in = Some ''dummy''"
    using server0_token by (simp_all add: create_in_def)
  have be: "backend_named server0 ''dummy'' \<noteq> NULL" by (simp add: server0_backend)
  let ?ok = "server_ok (dummy_W ref_ext ref_jl ref_ml (Some 0)) (\<lambda>f b. f = Some 0 \<and> b = dummy_backend ref_ext)"
  from dm.create_ult_ok [OF server0_ok [unfolded dummy_server_def] tok ty be server0_room, of create_out 7,
      unfolded server0_backend]
  obtain b ret c w out sv' where b: "Some 0 = (Some 0 :: ptr) \<and> b = dummy_backend ref_ext"
    and cr: "create_cache b (self server0) (cc_config create_in) NULL (world server0) = Some (ret, c, w)"
    and r2: "cachercise_create_cache_ult (Some create_in) create_out 7 server0 = Some (out, sv')"
      "world sv' = w" "cc_ret out = ret_code ret"
    and i: "if ret = CACHERCISE_SUCCESS
        then cc_id out = 7 \<and> (Some 0, c) \<notin> ({} :: open_ctx set)
          \<and> (\<exists>ys. ?ok sv' ys {(Some 0, c)} \<and> attached server0 [] 7 (Some 0, c) sv' ys)
        else cc_id out = cc_id create_out \<and> ?ok sv' [] {} \<and> cache_list sv' [] = cache_list server0 []
          \<and> token (prov sv') = token (prov server0)"
    by blast
  have "dummy_create_cache ref_ext (self server0) (cc_config create_in) NULL (world server0) = Some (ret, c, w)"
    using b cr by (simp add: dummy_backend_def)
  note r = this r2
  from r(1) have e: "ret = CACHERCISE_SUCCESS" "c = Some 0" "w = world1"
    by (simp_all add: create_in_def server0_simps create_world0)
  have s: "sv' = server1" using r(2) by (simp add: server1_def)
  from i e obtain ys where ys: "ref_server server1 ys {(Some 0, Some 0)}"
    "attached server0 [] 7 (Some 0, Some 0) server1 ys" "cc_id out = 7"
    by (auto simp: dummy_server_def s)
  then have l: "cache_list server1 ys = [(7, (Some 0, Some 0))]"
    and t: "token (prov server1) = Some ''ABCDEFGH''"
    by (simp_all add: attached_def server0_simps)
  then obtain a where "ys = [a]" by (auto simp: cache_list_def)
  with ys(1) l show "\<exists>a. ref_server server1 [a] {(Some 0, Some 0)}
      \<and> cache_list server1 [a] = [(7, (Some 0, Some 0))]" by blast
  show "world server1 = world1" using r(3) s e by simp
  show "token (prov server1) = Some ''ABCDEFGH''" by (rule t)
  show "cachercise_create_cache_ult (Some create_in) create_out 7 server0
      = Some (\<lparr>cc_ret = 0, cc_id = 7\<rparr>, server1)"
    using r(2,4) s e ys(3) by (cases out) simp
  show "self server1 = Some 0" "backend_named server1 ''dummy'' = Some 0"
    using ys(2) server0_backend by (simp_all add: attached_def server0_simps backend_named_def)
  show "table_space 25 server1"
    using ys(2) server0_space [of 26] by (simp add: attached_def)
qed

lemma server1_room: "table_room server1" "dummy_room (world server1)"
  using table_space_room [of 24 server1] server1_ok(2,7)
  by (simp_all add: dummy_room_def world1_def eval_nat_numeral)

text \<open>The address of its struct.\<close>

definition addr1 :: addr where
  "addr1 = the (caches (prov server1))"

lemma server1_addr:
  "ref_server server1 [addr1] {(Some 0, Some 0)}" "cache_list server1 [addr1] = [(7, (Some 0, Some 0))]"
  "cache_map server1 [addr1] 7 = Some (Some 0, Some 0)" "k \<noteq> 7 \<Longrightarrow> cache_map server1 [addr1] k = None"
proof -
  from server1_ok(1) obtain a where a: "ref_server server1 [a] {(Some 0, Some 0)}"
    "cache_list server1 [a] = [(7, (Some 0, Some 0))]" by blast
  from dummy_serverD(1) [OF a(1)] have "caches (prov server1) = Some a"
    using hash_okD(1) table_invD(1) by fastforce
  with a show "ref_server server1 [addr1] {(Some 0, Some 0)}"
    "cache_list server1 [addr1] = [(7, (Some 0, Some 0))]"
    "cache_map server1 [addr1] 7 = Some (Some 0, Some 0)" "k \<noteq> 7 \<Longrightarrow> cache_map server1 [addr1] k = None"
    by (simp_all add: addr1_def cache_map_def)
qed

lemma server1_hash:
  "hash_ok (caches (prov server1)) (mem server1) [addr1]" "cidf (mem server1) addr1 = 7"
  "caches (prov server1) = Some addr1" "log2_of (caches (prov server1)) (mem server1) \<le> 6"
  "no_oom (tbls (mem server1))"
proof -
  note i = dummy_serverD(1) [OF server1_addr(1)]
  show "hash_ok (caches (prov server1)) (mem server1) [addr1]" by (rule table_invD(1) [OF i])
  show "cidf (mem server1) addr1 = 7" using server1_addr(2) by (simp add: cache_list_def)
  show "caches (prov server1) = Some addr1" using hash_okD(1) [OF table_invD(1) [OF i]] by simp
  show "log2_of (caches (prov server1)) (mem server1) \<le> 6" "no_oom (tbls (mem server1))"
    using server1_ok(7) by (simp_all add: table_space_def)
qed

lemma server1_token: "check_token (prov server1) (Some ''ABCDEFGH'') = Some True"
  by (simp add: check_token_def server1_ok(3))

text \<open>What \<open>out\<close> holds when a handler starts.\<close>

definition io_out0 :: io_out_t where
  "io_out0 = \<lparr>out_bytes = 99, out_scratch = 99, out_result = 99, out_ret = 99\<rparr>"

definition sum_out0 :: sum_out_t where
  "sum_out0 = \<lparr>so_result = 99, so_ret = 99\<rparr>"

section \<open>A server with an opened cache besides\<close>

definition server2 :: "ref_lib dworld server" where
  "server2 = snd (the (cachercise_open_cache_ult (Some open_in) open_out 8 server1))"

lemma server2_ok:
  shows "\<exists>xs C. ref_server server2 xs C \<and> cache_list server2 xs = [(7, (Some 0, Some 0)), (8, (Some 0, Some 1))]"
    and "cache_hoard (world server2) (Some 1) = NULL"
    and "\<exists>out sv'. cachercise_open_cache_ult (Some open_in) open_out 8 server1 = Some (out, sv')
      \<and> oc_ret out = 0"
proof -
  have tok: "check_token (prov server1) (oc_token open_in) = Some True"
    and ty: "oc_type open_in = Some ''dummy''"
    using server1_token by (simp_all add: open_in_def)
  have be: "backend_named server1 ''dummy'' \<noteq> NULL" by (simp add: server1_ok(6))
  obtain w1 where op: "dummy_open_cache ref_ext (Some 0) (Some ''{}'') NULL world1 = Some (CACHERCISE_SUCCESS, Some 1, w1)"
    using open_world1 by blast
  let ?ok = "server_ok (dummy_W ref_ext ref_jl ref_ml (Some 0)) (\<lambda>f b. f = Some 0 \<and> b = dummy_backend ref_ext)"
  from dm.open_ult_ok [OF server1_addr(1) [unfolded dummy_server_def] tok ty be server1_room, of open_out 8,
      unfolded server1_ok(6)]
  obtain b ret c w out sv' where b: "Some 0 = (Some 0 :: ptr) \<and> b = dummy_backend ref_ext"
    and cr: "open_cache b (self server1) (oc_config open_in) NULL (world server1) = Some (ret, c, w)"
    and r2: "cachercise_open_cache_ult (Some open_in) open_out 8 server1 = Some (out, sv')" "world sv' = w"
      "oc_ret out = ret_code ret"
    and i: "if ret = CACHERCISE_SUCCESS
        then oc_id out = 8 \<and> (Some 0, c) \<notin> {(Some 0, Some 0) :: open_ctx}
          \<and> (\<exists>ys. ?ok sv' ys {(Some 0, c), (Some 0, Some 0)} \<and> attached server1 [addr1] 8 (Some 0, c) sv' ys)
        else oc_id out = oc_id open_out \<and> ?ok sv' [addr1] {(Some 0, Some 0)}
          \<and> cache_list sv' [addr1] = cache_list server1 [addr1]
          \<and> token (prov sv') = token (prov server1)"
    by blast
  have rs: "ret = CACHERCISE_SUCCESS \<and> c = Some 1 \<and> w = w1"
    using b cr op by (simp add: dummy_backend_def open_in_def server1_ok(2,5))
  with r2 show "\<exists>out sv'. cachercise_open_cache_ult (Some open_in) open_out 8 server1 = Some (out, sv') \<and> oc_ret out = 0"
    by (simp add: ret_code_def)
  note rs
  moreover have s: "sv' = server2" using r2(1) by (simp add: server2_def)
  ultimately obtain ys where ys: "ref_server server2 ys {(Some 0, Some 1), (Some 0, Some 0)}"
    "attached server1 [addr1] 8 (Some 0, Some 1) server2 ys" "world server2 = w1"
    using i r2(2) by (auto simp: dummy_server_def)
  then show "\<exists>xs C. ref_server server2 xs C \<and> cache_list server2 xs = [(7, (Some 0, Some 0)), (8, (Some 0, Some 1))]"
    using server1_addr(2,4) by (auto simp: attached_def)
  show "cache_hoard (world server2) (Some 1) = NULL"
    using dummy_open_ok [OF _ op, of ref_jl ref_ml] dummy_serverD(2) [OF server1_addr(1)] ys(3)
    by (auto simp: server1_ok(2) cache_hoard_def)
qed

section \<open>One struct that is in no table\<close>

definition mem_one :: "open_ctx umem" where
  "mem_one = \<lparr>elts = plenty\<lparr>cells := [0 \<mapsto> \<lparr>body = (NULL, NULL), cid = 7, hh = zero_handle\<rparr>], brk := 1\<rparr>,
     tbls = plenty\<rparr>"

lemma mem_one:
  "hash_ok None mem_one []" "live mem_one 0" "cidf mem_one 0 = 7" "log2_of None mem_one = 5"
  "no_oom (tbls mem_one)" "tbls mem_one = plenty"
  by (simp_all add: mem_one_def hash_ok_empty live_def cidf_def log2_of_def the_tbl_def tblp_def)

section \<open>One empty hoard\<close>

definition hoards1 :: "Hoard heap" where
  "hoards1 = plenty\<lparr>cells := [0 \<mapsto> \<lparr>m_hoard = []\<rparr>], brk := 1\<rparr>"

lemma hoards1:
  "hoard_ok (Some 0) hoards1" "hoard_size (Some 0) hoards1 = 0"
  "2 * (off + n) \<le> vector_max_size \<Longrightarrow> hoard_fits (Some 0) hoards1 n off"
  "hoard_read (Some 0) hoards1 = (\<lambda>_. 0)"
  by (auto simp: hoards1_def hoard_ok_def hoard_size_def hoard_fits_def hoard_read_def hoard_at_def)

text \<open>The same hoard after a \<open>put\<close> of one value at position 0: its size is 2.\<close>

definition hoards2 :: "Hoard heap" where
  "hoards2 = plenty\<lparr>cells := [0 \<mapsto> \<lparr>m_hoard = [5, 0]\<rparr>], brk := 2\<rparr>"

lemma hoards2:
  "hoard_ok (Some 0) hoards2" "hoard_size (Some 0) hoards2 = 2"
  "2 * (2 + (off + n)) \<le> vector_max_size \<Longrightarrow> hoard_fits (Some 0) hoards2 n off"
  by (auto simp: hoards2_def hoard_ok_def hoard_size_def hoard_fits_def vector_max_size_def)

section \<open>A margo\<close>

text \<open>It keeps the table of registrations and numbers the RPCs.\<close>

type_synonym ref_margo_state = "hg_id_t \<rightharpoonup> rpc_handler \<times> ptr \<times> bool"

definition ref_rid :: "string \<Rightarrow> u16 \<Rightarrow> hg_id_t" where
  "ref_rid n p = (case map_of (zip (map fst rpc_table) [1, 2, 3, 4, 5, 6, 7, 8]) n of
     None \<Rightarrow> 0 | Some i \<Rightarrow> i)"

definition ref_margo :: "ref_margo_state margo" where
  "ref_margo = \<lparr>margo_is_listening = (\<lambda>g. True),
     margo_provider_registered_name = (\<lambda>n p g. g (ref_rid n p) \<noteq> None),
     MARGO_REGISTER_PROVIDER = (\<lambda>n h p q g. (ref_rid n p, g(ref_rid n p \<mapsto> (h, NULL, False)))),
     margo_register_data = (\<lambda>i q g. g(i := map_option (\<lambda>(h, _, d). (h, q, d)) (g i))),
     margo_registered_disable_response = (\<lambda>i g. g(i := map_option (\<lambda>(h, q, _). (h, q, True)) (g i))),
     margo_deregister = (\<lambda>i g. g(i := None)),
     margo_provider_push_finalize_callback = (\<lambda>q g. g),
     margo_provider_pop_finalize_callback = (\<lambda>q g. g)\<rparr>"

lemma ref_margo_ok: "margo_ok ref_margo (\<lambda>g. g) ref_rid"
  by (auto simp: margo_ok_def ref_margo_def)

lemma ref_rid_inj: "inj_on (\<lambda>n. ref_rid n p) (fst ` set rpc_table)"
  by (auto simp: inj_on_def rpc_table_def ref_rid_def)

lemma rpc_table_distinct: "distinct (map fst rpc_table)"
  by (simp add: rpc_table_def)

lemma ref_rid_ids: "map (\<lambda>(n, h, d). ref_rid n p) rpc_table = [1, 2, 3, 4, 5, 6, 7, 8]"
  by (simp add: rpc_table_def ref_rid_def)

end
