(* ===== verification/Component_Properties.thy ===== *)
theory Component_Properties
  imports Instance
begin

text \<open>
  The properties of the single components: the uthash table, the hoard, the dummy
  backend and the registration of a provider, each with an instance at the
  concrete states of \<open>Instance\<close>.
\<close>

section \<open>uthash\<close>

text \<open>
  C32: \<open>HASH_FIND\<close> returns the struct of the table with that key, \<open>NULL\<close> exactly when
  there is none; it walks one bucket chain only.
\<close>

theorem hash_find_correct:
  assumes "hash_ok head m xs"
  shows "(HASH_FIND head (uuid_bytes k) 16 m = Some (Some a) \<longleftrightarrow> a \<in> set xs \<and> cidf m a = k)
    \<and> (HASH_FIND head (uuid_bytes k) 16 m = Some NULL \<longleftrightarrow> k \<notin> cidf m ` set xs)"
  using ut.find_Some_iff [OF assms] ut.find_None_iff [OF assms] by blast

lemma hash_find_correct_witness:
  "HASH_FIND (Some addr1) (uuid_bytes 7) 16 (mem server1) = Some (Some addr1)
    \<and> HASH_FIND (Some addr1) (uuid_bytes 8) 16 (mem server1) = Some NULL"
  using hash_find_correct [OF server1_hash(1), of 7 addr1] hash_find_correct [OF server1_hash(1), of 8 addr1]
  by (simp add: server1_hash(2,3))

text \<open>
  C33: \<open>HASH_ADD\<close> appends a struct with a new key to the application order and keeps
  the table well formed, the first insertion and bucket expansion included; the
  number of buckets at most doubles.
\<close>

theorem hash_add_correct:
  assumes "hash_ok head m xs" and "live m a" and "a \<notin> set xs" and "cidf m a \<notin> cidf m ` set xs"
    and "length xs + 1 < 2 ^ 32" and "log2_of head m < 31" and "no_oom (tbls m)"
  shows "\<exists>m'. HASH_ADD head 16 (Some a) m = Some (hdp (xs @ [a]), m')
     \<and> hash_ok (hdp (xs @ [a])) m' (xs @ [a]) \<and> log2_of (hdp (xs @ [a])) m' \<le> Suc (log2_of head m)"
  using HASH_ADD_ok [OF assms] by blast

lemma hash_add_correct_witness:
  "\<exists>m'. HASH_ADD NULL 16 (Some 0) mem_one = Some (Some 0, m') \<and> hash_ok (Some 0) m' [0]"
  using hash_add_correct [OF mem_one(1,2)] mem_one by auto

text \<open>C34: after \<open>HASH_DEL\<close> a lookup of its key finds nothing and is unchanged for other keys.\<close>

theorem hash_find_after_del:
  assumes "hash_ok head m xs" and "a \<in> set xs"
  shows "\<exists>head' m'. HASH_DEL head (Some a) m = Some (head', m') \<and> hash_ok head' m' (remove1 a xs) \<and>
    (\<forall>k. HASH_FIND head' (uuid_bytes k) 16 m' =
       (if k = cidf m a then Some NULL else HASH_FIND head (uuid_bytes k) 16 m))"
  using ut.find_after_del [OF assms] HASH_DEL_ok [OF assms] by auto

lemma hash_find_after_del_witness:
  "\<exists>head' m'. HASH_DEL (Some addr1) (Some addr1) (mem server1) = Some (head', m')
    \<and> hash_ok head' m' [] \<and> HASH_FIND head' (uuid_bytes 7) 16 m' = Some NULL"
proof -
  from hash_find_after_del [OF server1_hash(1), of addr1] obtain head' m'
    where "HASH_DEL (Some addr1) (Some addr1) (mem server1) = Some (head', m')" "hash_ok head' m' []"
      "\<forall>k. HASH_FIND head' (uuid_bytes k) 16 m' = (if k = cidf (mem server1) addr1 then Some NULL
         else HASH_FIND (Some addr1) (uuid_bytes k) 16 (mem server1))" by (auto simp: server1_hash(3))
  then show ?thesis using server1_hash(2) by (intro exI [of _ head'] exI [of _ m']) simp
qed

text \<open>
  \<open>HASH_EXPAND_BUCKETS\<close> doubles the bucket array and moves every struct to the
  chain of its hash value: the chains stay well formed and hold the same structs.
\<close>

theorem hash_expand_correct:
  assumes "tblf m tp = Some t" and "table_geom t" and "unat (log2_num_buckets t) < 31"
    and "chains_ok m (num_buckets t) (buckets t) X cs" and "\<And>a. a \<in> X \<Longrightarrow> live m a"
    and "grants (tbls m) (brk (tbls m))"
  shows "\<exists>m' t' cs'. HASH_EXPAND_BUCKETS (Some tp) m = Some m' \<and> tblf m' tp = Some t'
     \<and> table_geom t' \<and> log2_num_buckets t' = log2_num_buckets t + 1 \<and> num_items t' = num_items t
     \<and> chains_ok m' (num_buckets t') (buckets t') X cs'"
  using expand_buckets_ok [OF assms(1-4) _ assms(6)] assms(5) by fastforce

lemma hash_expand_correct_witness:
  "\<exists>tp t m' t' cs'. tblf (mem server1) tp = Some t \<and> HASH_EXPAND_BUCKETS (Some tp) (mem server1) = Some m'
     \<and> tblf m' tp = Some t' \<and> log2_num_buckets t' = log2_num_buckets t + 1
     \<and> chains_ok m' (num_buckets t') (buckets t') {addr1} cs'"
proof (rule hash_ok_tblE [OF server1_hash(1)])
  fix tp t cs
  assume t: "tblf (mem server1) tp = Some t" "\<And>a. a \<in> set [addr1] \<Longrightarrow> handle_ok (mem server1) tp a"
    "table_geom t" "chains_ok (mem server1) (num_buckets t) (buckets t) (set [addr1]) cs"
  have "live (mem server1) addr1" "tbl (hnd (mem server1) addr1) = Some tp"
    using t(2) [of addr1] by (simp_all add: handle_ok_def)
  with server1_hash(3,4) t(1) have "unat (log2_num_buckets t) < 31"
    by (simp add: log2_of_def the_tbl_live)
  from hash_expand_correct [OF t(1,3) this t(4)] server1_hash(5) \<open>live (mem server1) addr1\<close> t(1)
  show ?thesis by (intro exI [of _ tp] exI [of _ t]) (auto simp: no_oom_def)
qed simp

text \<open>\<open>HASH_JEN_MIX\<close> permutes the triples of 32-bit words: mixing loses no key.\<close>

theorem jenkins_mix_bijective:
  "bij HASH_JEN_MIX"
  by (rule bij_HASH_JEN_MIX)

section \<open>The hoard\<close>

text \<open>C38: a \<open>get\<close> of the range that a \<open>put\<close> has written returns the values written.\<close>

theorem hoard_get_after_put:
  assumes "hoard_ok p hs" and "hoard_fits p hs (length xs) off"
  shows "\<exists>hs'. hoard_store p xs off hs = Some hs' \<and> hoard_ok p hs' \<and> hoard_fetch p (length xs) off hs' = Some xs"
  using assms by (rule hd.get_put)

lemma hoard_get_after_put_witness:
  "\<exists>hs'. hoard_store (Some 0) [1, 2, 3] 5 hoards1 = Some hs' \<and> hoard_fetch (Some 0) 3 5 hs' = Some [1, 2, 3]"
proof -
  have l: "length [1, 2, 3 :: i64] = 3" by simp
  have "hoard_fits (Some 0) hoards1 (length [1, 2, 3 :: i64]) 5"
    unfolding l using hoards1(3) [of 5 3] by (simp add: vector_max_size_def)
  from hoard_get_after_put [OF hoards1(1) this] show ?thesis unfolding l by blast
qed

text \<open>
  C39: a \<open>put\<close> of at least one element that comes back, whatever its offset, leaves every
  range of the vector disjoint from its own as it was, also when the vector grows.  A \<open>put\<close>
  of no element need not (see \<open>hoard_empty_put_cuts\<close> below).  The bounds are those of the
  \<open>size_t\<close> arguments.
\<close>

theorem hoard_put_elsewhere:
  assumes "hoard_ok p hs" and "xs \<noteq> []" and "length xs < 2 ^ 64" and "off < 2 ^ 64"
    and "hoard_store p xs off hs = Some hs'" and "off' + n \<le> hoard_size p hs"
    and "off' + n \<le> off \<or> off + length xs \<le> off'"
  shows "hoard_ok p hs' \<and> (\<exists>vs. hoard_fetch p n off' hs = Some vs \<and> hoard_fetch p n off' hs' = Some vs)"
proof -
  have "hoard_fits p hs (length xs) off" using hoard_store_fits [OF assms(1,2) _ _ assms(5)] assms(3,4) by simp
  from hd.get_put_disjoint [OF assms(1) this assms(6,7)] assms(5) hd.get_law [OF assms(1,6)]
  show ?thesis by auto
qed

lemma hoard_put_elsewhere_witness:
  "\<exists>hs'. hoard_store (Some 0) [1, 2] 5 hoards2 = Some hs' \<and> hoard_fetch (Some 0) 2 0 hs' = Some [5, 0]"
proof -
  have f: "hoard_fetch (Some 0) 2 0 hoards2 = Some [5, 0]"
    using hd.get_law [OF hoards2(1), of 0 2] hoards2(2)
    by (simp add: hoard_read_def hoards2_def hoard_at_def numeral_2_eq_2)
  have "hoard_fits (Some 0) hoards2 (length [1, 2 :: i64]) 5" by (rule hoards2(3)) (simp add: vector_max_size_def)
  from hd.get_put [OF hoards2(1) this] obtain hs' where s: "hoard_store (Some 0) [1, 2] 5 hoards2 = Some hs'"
    by blast
  from hoard_put_elsewhere [OF hoards2(1) _ _ _ s, of 0 2] hoards2(2) f s show ?thesis by auto
qed

text \<open>
  A \<open>get\<close> of at least one element is defined exactly when the range lies inside
  the vector and the buffer has room: the code itself checks neither.
\<close>

theorem hoard_get_bounds:
  assumes "hoard_ok p hs" and "0 < unat n"
  shows "hoard_get p dest n off hs \<noteq> None \<longleftrightarrow> unat off + unat n \<le> hoard_size p hs \<and> unat n \<le> length dest"
  using assms by (rule hoard_get_defined)

lemma hoard_get_bounds_witness:
  "hoard_get (Some 0) [0, 0] 2 0 hoards2 \<noteq> None \<and> hoard_get (Some 0) [0, 0] 2 1 hoards2 = None"
  using hoard_get_bounds [OF hoards2(1), of 2 "[0, 0]" 0] hoard_get_bounds [OF hoards2(1), of 2 "[0, 0]" 1]
  by (simp add: hoards2(2) del: not_None_eq)

text \<open>
  C40: a \<open>put\<close> of no element may destroy data.  At the offset \<open>2 ^ 63 - k\<close> the sum
  \<open>offset + size\<close> stays below \<open>2 ^ 64\<close> but twice it does not, so that \<open>resize\<close> cuts the vector,
  to twice the number of elements it has beyond \<open>k\<close>; the rest then reads as zero.
\<close>

theorem hoard_empty_put_cuts:
  assumes "hoard_ok p hs" and "k \<le> hoard_size p hs" and "hoard_size p hs \<le> 2 * k"
  shows "\<exists>hs'. hoard_put p src 0 (of_nat (2 ^ 63 - k)) hs = Some (0, hs')
     \<and> hoard_size p hs' = 2 * (hoard_size p hs - k)
     \<and> hoard_read p hs' = (\<lambda>j. if j < 2 * (hoard_size p hs - k) then hoard_read p hs j else 0)"
  using hoard_put_zero_cuts [OF assms] by blast

lemma hoard_empty_put_cuts_witness:
  "\<exists>hs'. hoard_put (Some 0) [] 0 (of_nat (2 ^ 63 - 2)) hoards2 = Some (0, hs')
    \<and> hoard_read (Some 0) hoards2 0 = 5 \<and> hoard_read (Some 0) hs' 0 = 0"
proof -
  have "hoard_read (Some 0) hoards2 0 = 5"
    by (simp add: hoard_read_def hoards2_def hoard_at_def)
  then show ?thesis
    using hoard_empty_put_cuts [OF hoards2(1), of 2 "[]"] hoards2(2) by auto
qed

section \<open>The dummy backend\<close>

text \<open>
  Destroying the cache a creation has made gives back everything the creation
  took: contexts, hoards, JSON objects and mutexes are as before.
\<close>

theorem dummy_destroy_undoes_create:
  assumes "dummy_ok e jl ml w" and "dummy_create_cache e p cfg c0 w = Some (CACHERCISE_SUCCESS, c, w1)"
    and "dummy_ok e jl ml w1"
  shows "\<exists>w2. dummy_destroy_cache e c w1 = Some (CACHERCISE_SUCCESS, w2)
    \<and> cells (ctxs w2) = cells (ctxs w) \<and> cells (hoards w2) = cells (hoards w)
    \<and> jl (lib w2) = jl (lib w) \<and> ml (lib w2) = ml (lib w)"
proof -
  note D = dummy_okD [OF assms(1)]
  from dummy_create_effect [OF assms(1,2)] obtain x where x: "c = Some (brk (ctxs w))"
    "cells (ctxs w1) = (cells (ctxs w))(brk (ctxs w) \<mapsto> x)" "ctx_h x = Some (brk (hoards w))"
    "cells (hoards w1) = (cells (hoards w))(brk (hoards w) \<mapsto> \<lparr>m_hoard = []\<rparr>)"
    "jl (lib w1) - set_option (config x) = jl (lib w)"
    "ml (lib w1) = ml (lib w) \<union> set_option (hoard_mutex x)" "set_option (hoard_mutex x) \<inter> ml (lib w) = {}" by blast
  have "cells (ctxs w1) (brk (ctxs w)) = Some x" by (simp add: x(2))
  from dummy_destroy_ok [OF assms(3) this] x D(2,3) show ?thesis
    by (auto simp: fun_eq_iff)
qed

lemma dummy_destroy_undoes_create_witness:
  "\<exists>w2. dummy_destroy_cache ref_ext (Some 0) world1 = Some (CACHERCISE_SUCCESS, w2)
    \<and> cells (ctxs w2) = Map.empty \<and> ref_ml (lib w2) = {}"
  using dummy_destroy_undoes_create [OF dummy_serverD(2) [OF server0_ok], of NULL "Some ''{}''" NULL "Some 0" world1]
    dummy_serverD(2) [OF server1_addr(1)] create_world0 [of NULL NULL]
  by (auto simp: server0_simps server1_ok(2) world0_def ref_ml_def)

text \<open>
  Closing it instead leaves its mutex behind: the mutex stays allocated, while
  no context refers to it any more.
\<close>

theorem dummy_close_leaks_mutex:
  assumes "dummy_ok e jl ml w" and "dummy_create_cache e p cfg c0 w = Some (CACHERCISE_SUCCESS, c, w1)"
    and "dummy_ok e jl ml w1" and "h_load c (ctxs w1) = Some x" and "hoard_mutex x = Some q"
  shows "\<exists>w2. dummy_close_cache e c w1 = Some (CACHERCISE_SUCCESS, w2)
    \<and> cells (ctxs w2) = cells (ctxs w) \<and> jl (lib w2) = jl (lib w) \<and> ml (lib w2) = insert q (ml (lib w))
    \<and> (\<forall>a y. cells (ctxs w2) a = Some y \<longrightarrow> hoard_mutex y \<noteq> Some q)"
proof -
  note D = dummy_okD [OF assms(1)]
  from dummy_create_effect [OF assms(1,2)] obtain y where y: "c = Some (brk (ctxs w))"
    "cells (ctxs w1) = (cells (ctxs w))(brk (ctxs w) \<mapsto> y)"
    "jl (lib w1) - set_option (config y) = jl (lib w)"
    "ml (lib w1) = ml (lib w) \<union> set_option (hoard_mutex y)" "set_option (hoard_mutex y) \<inter> ml (lib w) = {}" by blast
  have xy: "x = y" using assms(4) y by simp
  have a: "cells (ctxs w1) (brk (ctxs w)) = Some y" by (simp add: y(2))
  have "hoard_mutex z \<noteq> Some q" if "cells (ctxs w) b = Some z" for b z
    using D(4) [OF that] y(5) assms(5) xy by (auto simp: ctx_ok_def)
  with dummy_close_ok [OF assms(3) a] y D(2) assms(5) xy show ?thesis
    by (auto simp: fun_eq_iff)
qed

lemma dummy_close_leaks_mutex_witness:
  "\<exists>w2. dummy_close_cache ref_ext (Some 0) world1 = Some (CACHERCISE_SUCCESS, w2)
    \<and> cells (ctxs w2) = Map.empty \<and> ref_ml (lib w2) = {1}"
  using dummy_close_leaks_mutex [OF dummy_serverD(2) [OF server0_ok], of NULL "Some ''{}''" NULL "Some 0" world1
      "\<lparr>config = Some 1, ctx_h = Some 0, hoard_mutex = Some 1\<rparr>" 1]
    dummy_serverD(2) [OF server1_addr(1)] create_world0 [of NULL NULL]
  by (auto simp: server0_simps server1_ok(2) world0_def world1_def ref_ml_def)

section \<open>Registration\<close>

text \<open>
  C10: the registration of a provider that gets past its checks makes margo route each of
  the eight RPCs to its own handler with the provider as data, without a response for
  \<open>hello\<close> only; the provider has no caches and no backends yet.  It then registers the
  dummy backend, which stores a pointer of eight bytes in a block it has asked to be one
  byte long: no registration comes to a defined end.
\<close>

theorem provider_register_routes:
  assumes "margo_ok mg regs rid" and "inj_on (\<lambda>n. rid n pid) (fst ` set rpc_table)"
    and "margo_is_listening mg g" and "\<not> margo_provider_registered_name mg ''cachercise_sum'' pid g"
    and "pp \<noteq> NULL"
  shows "\<exists>p g'. register_rpcs mg pp (new_provider m pid a) g = (p, g')
     \<and> (\<forall>(n, h, d) \<in> set rpc_table. rid n pid \<in> set (rpc_ids p) \<and> regs g' (rid n pid) = Some (h, pp, d))
     \<and> caches p = NULL \<and> num_caches p = 0 \<and> backend_types p = [] \<and> num_backend_types p = 0
     \<and> cachercise_provider_register_dummy_backend granted dummy p = None
     \<and> cachercise_provider_register mg granted dummy pp m pid (Some a) g = None"
proof -
  have d: "distinct (map fst rpc_table)" by (rule rpc_table_distinct)
  from provider_rpcs_ok [OF assms(1), of pp m pid a g] obtain p g' where
    r: "register_rpcs mg pp (new_provider m pid a) g = (p, g')"
    "rpc_ids p = map (\<lambda>(n, h, d). rid n pid) rpc_table"
    "regs g' = regs_after (\<lambda>n. rid n pid) pp rpc_table (regs g)"
    "num_caches p = 0" "caches p = NULL" "num_backend_types p = 0" "backend_types p = []" by blast
  have "rid n pid \<in> set (rpc_ids p) \<and> regs g' (rid n pid) = Some (h, pp, d)" if "(n, h, d) \<in> set rpc_table" for n h d
    using that r(2,3) regs_after_mem [OF assms(2) \<open>distinct _\<close> that] by force
  moreover have "cachercise_provider_register_dummy_backend granted dummy p = None"
    by (simp add: cachercise_provider_register_dummy_backend_def register_backend_overflows)
  ultimately show ?thesis using r provider_register_overflows [OF assms(3-5)] by blast
qed

lemma provider_register_routes_witness:
  "\<exists>p g'. register_rpcs ref_margo (Some 9) (new_provider NULL 42 CACHERCISE_PROVIDER_ARGS_INIT) Map.empty = (p, g')
    \<and> g' (ref_rid ''cachercise_io'' 42) = Some (H_io, Some 9, False)
    \<and> g' (ref_rid ''cachercise_hello'' 42) = Some (H_hello, Some 9, True)
    \<and> cachercise_provider_register ref_margo True (Some 0) (Some 9) NULL 42
        (Some CACHERCISE_PROVIDER_ARGS_INIT) Map.empty = None"
proof -
  have "margo_is_listening ref_margo Map.empty" "\<not> margo_provider_registered_name ref_margo ''cachercise_sum'' 42 Map.empty"
    by (simp_all add: ref_margo_def)
  from provider_register_routes [where pp = "Some 9" and granted = True and dummy = "Some 0" and m = NULL
      and a = CACHERCISE_PROVIDER_ARGS_INIT, OF ref_margo_ok ref_rid_inj this]
  show ?thesis by (fastforce simp: rpc_table_def)
qed

end
