(* ===== verification/Bytes.thy ===== *)
theory Bytes
  imports Common
begin

text \<open>
  Objects as byte sequences, in memory order on a little-endian machine: what
  \<open>memcpy\<close> moves between an integer and a buffer.
\<close>

definition le_bytes :: "nat \<Rightarrow> 'a::len word \<Rightarrow> u8 list" where
  "le_bytes n w = map (\<lambda>i. ucast (drop_bit (8 * i) w)) [0..<n]"

definition of_le_bytes :: "u8 list \<Rightarrow> 'a::len word" where
  "of_le_bytes bs = foldr (\<lambda>b w. push_bit 8 w OR ucast b) bs 0"

lemma length_le_bytes [simp]: "length (le_bytes n w) = n"
  by (simp add: le_bytes_def)

lemma bit_u8_less: "bit (b :: u8) n \<Longrightarrow> n < 8"
  using bit_imp_le_length [of b n] by simp

lemma bit_of_le_bytes:
  "bit (of_le_bytes bs :: 'a::len word) n
    \<longleftrightarrow> n < LENGTH('a) \<and> n div 8 < length bs \<and> bit (bs ! (n div 8)) (n mod 8)"
proof (induction bs arbitrary: n)
  case Nil
  then show ?case by (simp add: of_le_bytes_def)
next
  case (Cons b bs)
  have r: "(of_le_bytes (b # bs) :: 'a word) = push_bit 8 (of_le_bytes bs) OR ucast b"
    by (simp add: of_le_bytes_def)
  show ?case
  proof (cases "n < 8")
    case True
    then show ?thesis by (auto simp: r bit_or_iff bit_push_bit_iff bit_ucast_iff)
  next
    case False
    then have e: "n div 8 = Suc ((n - 8) div 8)" "(n - 8) mod 8 = n mod 8"
      by (simp_all add: le_div_geq le_mod_geq)
    have "\<not> bit b n" using bit_u8_less [of b n] False by blast
    then show ?thesis using False Cons.IH [of "n - 8"]
      by (auto simp: r bit_or_iff bit_push_bit_iff bit_ucast_iff e dest: bit_imp_le_length)
  qed
qed

lemma bit_le_bytes:
  "i < n \<Longrightarrow> bit (le_bytes n w ! i) k \<longleftrightarrow> k < 8 \<and> bit w (8 * i + k)"
  by (auto simp: le_bytes_def bit_ucast_iff bit_drop_bit_eq)

lemma of_le_bytes_le_bytes:
  assumes "8 * n = LENGTH('a)"
  shows "of_le_bytes (le_bytes n w) = (w :: 'a::len word)"
proof (rule bit_word_eqI)
  fix k assume "k < LENGTH('a)"
  moreover from this assms have "k div 8 < n" by linarith
  ultimately show "bit (of_le_bytes (le_bytes n w) :: 'a word) k \<longleftrightarrow> bit w k"
    by (simp add: bit_of_le_bytes bit_le_bytes)
qed

lemma le_bytes_of_le_bytes:
  assumes "8 * n = LENGTH('a)" and "length bs = n"
  shows "le_bytes n (of_le_bytes bs :: 'a::len word) = bs"
proof (rule nth_equalityI)
  fix i assume "i < length (le_bytes n (of_le_bytes bs :: 'a word))"
  then have i: "i < n" by simp
  show "le_bytes n (of_le_bytes bs :: 'a word) ! i = bs ! i"
  proof (rule bit_word_eqI)
    fix k assume "k < LENGTH(8)"
    with i assms show "bit (le_bytes n (of_le_bytes bs :: 'a word) ! i) k \<longleftrightarrow> bit (bs ! i) k"
      by (simp add: bit_of_le_bytes bit_le_bytes)
  qed
qed (use assms in simp)

text \<open>\<open>memcpy(dst, src, n)\<close>: both arrays must have \<open>n\<close> bytes.\<close>

definition memcpy :: "u8 list \<Rightarrow> u8 list \<Rightarrow> nat \<Rightarrow> u8 list option" where
  "memcpy dst src n =
     (if n \<le> length dst \<and> n \<le> length src then Some (take n src @ drop n dst) else None)"

lemma memcpy_ok [simp]:
  "n \<le> length dst \<Longrightarrow> n \<le> length src \<Longrightarrow> memcpy dst src n = Some (take n src @ drop n dst)"
  by (simp add: memcpy_def)

lemma memcpy_Some_iff:
  "memcpy dst src n = Some d \<longleftrightarrow> n \<le> length dst \<and> n \<le> length src \<and> d = take n src @ drop n dst"
  by (auto simp: memcpy_def)

section \<open>Cache identifiers\<close>

lemma uuid_bytes_le: "uuid_bytes w = le_bytes 16 w"
  by (simp add: uuid_bytes_def le_bytes_def)

lemma uuid_of_bytes_le: "uuid_of_bytes bs = of_le_bytes bs"
  by (simp add: uuid_of_bytes_def of_le_bytes_def)

lemma uuid_round_trip [simp]:
  "uuid_of_bytes (uuid_bytes w) = w"
  "length bs = 16 \<Longrightarrow> uuid_bytes (uuid_of_bytes bs) = bs"
  by (simp_all add: uuid_bytes_le uuid_of_bytes_le of_le_bytes_le_bytes le_bytes_of_le_bytes)

text \<open>Arrays of identifiers.\<close>

fun ids_of_bytes :: "nat \<Rightarrow> u8 list \<Rightarrow> cachercise_cache_id_t list" where
  "ids_of_bytes 0 bs = []"
| "ids_of_bytes (Suc n) bs = uuid_of_bytes (take 16 bs) # ids_of_bytes n (drop 16 bs)"

definition ids_bytes :: "cachercise_cache_id_t list \<Rightarrow> u8 list" where
  "ids_bytes ids = concat (map uuid_bytes ids)"

lemma length_ids_bytes [simp]: "length (ids_bytes ids) = 16 * length ids"
  by (induction ids) (simp_all add: ids_bytes_def)

lemma take_ids_bytes: "take (16 * n) (ids_bytes ids) = ids_bytes (take n ids)"
proof (induction ids arbitrary: n)
  case (Cons i ids)
  then show ?case by (cases n) (simp_all add: ids_bytes_def)
qed (simp add: ids_bytes_def)

lemma ids_round_trip: "ids_of_bytes (length ids) (ids_bytes ids @ r) = ids"
  by (induction ids) (simp_all add: ids_bytes_def)

end
