(* ===== verification/Wire.thy ===== *)
theory Wire
  imports Types Bytes
begin

text \<open>
  The serialization of the RPC structures, \<open>src/types.h\<close>.  Mercury is not part of
  the repository: the procs of its basic types are the fields of \<open>procs\<close>, and
  \<open>procs_ok\<close> is what is used of them, that decoding gives back what was encoded and
  leaves the rest of the buffer.  \<open>MERCURY_GEN_PROC\<close> runs the procs of the members
  in the order of their declaration; the proc of \<open>list_caches_out_t\<close> is written by
  hand.
\<close>

section \<open>Mercury procs\<close>

text \<open>A proc in its modes \<open>HG_ENCODE\<close> and \<open>HG_DECODE\<close>.  \<open>None\<close> is any code but \<open>HG_SUCCESS\<close>.\<close>

record 'a proc =
  encode :: "'a \<Rightarrow> u8 list"
  decode :: "u8 list \<Rightarrow> ('a \<times> u8 list) option"

record procs =
  hg_proc_hg_string_t :: "string option proc"
  hg_proc_int32_t :: "i32 proc"
  hg_proc_hg_size_t :: "u64 proc"
  hg_proc_uint64_t :: "u64 proc"
  hg_proc_int64_t :: "i64 proc"
  hg_proc_memcpy :: "nat \<Rightarrow> u8 list proc"

definition proc_ok :: "'a proc \<Rightarrow> bool" where
  "proc_ok p \<longleftrightarrow> (\<forall>x r. decode p (encode p x @ r) = Some (x, r))"

definition procs_ok :: "procs \<Rightarrow> bool" where
  "procs_ok P \<longleftrightarrow> proc_ok (hg_proc_hg_string_t P) \<and> proc_ok (hg_proc_int32_t P)
     \<and> proc_ok (hg_proc_hg_size_t P) \<and> proc_ok (hg_proc_uint64_t P) \<and> proc_ok (hg_proc_int64_t P)
     \<and> (\<forall>n bs r. length bs = n \<longrightarrow>
          decode (hg_proc_memcpy P n) (encode (hg_proc_memcpy P n) bs @ r) = Some (bs, r))"

lemma proc_okD: "proc_ok p \<Longrightarrow> decode p (encode p x @ r) = Some (x, r)"
  by (simp add: proc_ok_def)

lemma procs_okD:
  assumes "procs_ok P"
  shows "decode (hg_proc_hg_string_t P) (encode (hg_proc_hg_string_t P) s @ r) = Some (s, r)"
    and "decode (hg_proc_int32_t P) (encode (hg_proc_int32_t P) i @ r) = Some (i, r)"
    and "decode (hg_proc_hg_size_t P) (encode (hg_proc_hg_size_t P) z @ r) = Some (z, r)"
    and "decode (hg_proc_uint64_t P) (encode (hg_proc_uint64_t P) u @ r) = Some (u, r)"
    and "decode (hg_proc_int64_t P) (encode (hg_proc_int64_t P) l @ r) = Some (l, r)"
    and "length bs = n \<Longrightarrow> decode (hg_proc_memcpy P n) (encode (hg_proc_memcpy P n) bs @ r) = Some (bs, r)"
  using assms by (auto simp: procs_ok_def proc_ok_def)

section \<open>The interface of a proc\<close>

text \<open>What the users of a proc rely on, whatever structure it is for.\<close>

locale codec =
  fixes pr :: "procs \<Rightarrow> 'a proc"
  assumes ok: "procs_ok P \<Longrightarrow> proc_ok (pr P)"
begin

lemma round_trip: "procs_ok P \<Longrightarrow> decode (pr P) (encode (pr P) x @ r) = Some (x, r)"
  by (rule proc_okD) (rule ok)

lemma message: "procs_ok P \<Longrightarrow> decode (pr P) (encode (pr P) x) = Some (x, [])"
  using round_trip [of P x "[]"] by simp

lemma unambiguous:
  assumes "procs_ok P" and "encode (pr P) x @ r = encode (pr P) y @ s"
  shows "x = y \<and> r = s"
proof -
  have "Some (x, r) = decode (pr P) (encode (pr P) y @ s)"
    unfolding assms(2) [symmetric] by (rule round_trip [OF assms(1), symmetric])
  also have "\<dots> = Some (y, s)" by (rule round_trip [OF assms(1)])
  finally show ?thesis by simp
qed

end

section \<open>Cache identifiers\<close>

definition hg_proc_cachercise_cache_id_t :: "procs \<Rightarrow> cachercise_cache_id_t proc" where
  "hg_proc_cachercise_cache_id_t P =
     \<lparr>encode = (\<lambda>i. encode (hg_proc_memcpy P 16) (uuid_bytes i)),
      decode = (\<lambda>b. do {
        (bs, b) \<leftarrow> decode (hg_proc_memcpy P 16) b;
        Some (uuid_of_bytes bs, b) })\<rparr>"

interpretation cache_id: codec hg_proc_cachercise_cache_id_t
  by unfold_locales (simp add: proc_ok_def hg_proc_cachercise_cache_id_t_def procs_okD)

lemmas wire_simps = proc_ok_def procs_okD cache_id.round_trip

section \<open>Admin RPCs\<close>

definition hg_proc_create_cache_in_t :: "procs \<Rightarrow> create_cache_in_t proc" where
  "hg_proc_create_cache_in_t P =
     \<lparr>encode = (\<lambda>s. encode (hg_proc_hg_string_t P) (cc_type s)
          @ encode (hg_proc_hg_string_t P) (cc_config s)
          @ encode (hg_proc_hg_string_t P) (cc_token s)),
      decode = (\<lambda>b. do {
        (type, b) \<leftarrow> decode (hg_proc_hg_string_t P) b;
        (config, b) \<leftarrow> decode (hg_proc_hg_string_t P) b;
        (token, b) \<leftarrow> decode (hg_proc_hg_string_t P) b;
        Some (\<lparr>cc_type = type, cc_config = config, cc_token = token\<rparr>, b) })\<rparr>"

interpretation create_cache_in: codec hg_proc_create_cache_in_t
  by unfold_locales (simp add: wire_simps hg_proc_create_cache_in_t_def)

definition hg_proc_create_cache_out_t :: "procs \<Rightarrow> create_cache_out_t proc" where
  "hg_proc_create_cache_out_t P =
     \<lparr>encode = (\<lambda>s. encode (hg_proc_int32_t P) (cc_ret s)
          @ encode (hg_proc_cachercise_cache_id_t P) (cc_id s)),
      decode = (\<lambda>b. do {
        (ret, b) \<leftarrow> decode (hg_proc_int32_t P) b;
        (id, b) \<leftarrow> decode (hg_proc_cachercise_cache_id_t P) b;
        Some (\<lparr>cc_ret = ret, cc_id = id\<rparr>, b) })\<rparr>"

interpretation create_cache_out: codec hg_proc_create_cache_out_t
  by unfold_locales (simp add: wire_simps hg_proc_create_cache_out_t_def)

definition hg_proc_open_cache_in_t :: "procs \<Rightarrow> open_cache_in_t proc" where
  "hg_proc_open_cache_in_t P =
     \<lparr>encode = (\<lambda>s. encode (hg_proc_hg_string_t P) (oc_type s)
          @ encode (hg_proc_hg_string_t P) (oc_config s)
          @ encode (hg_proc_hg_string_t P) (oc_token s)),
      decode = (\<lambda>b. do {
        (type, b) \<leftarrow> decode (hg_proc_hg_string_t P) b;
        (config, b) \<leftarrow> decode (hg_proc_hg_string_t P) b;
        (token, b) \<leftarrow> decode (hg_proc_hg_string_t P) b;
        Some (\<lparr>oc_type = type, oc_config = config, oc_token = token\<rparr>, b) })\<rparr>"

interpretation open_cache_in: codec hg_proc_open_cache_in_t
  by unfold_locales (simp add: wire_simps hg_proc_open_cache_in_t_def)

definition hg_proc_open_cache_out_t :: "procs \<Rightarrow> open_cache_out_t proc" where
  "hg_proc_open_cache_out_t P =
     \<lparr>encode = (\<lambda>s. encode (hg_proc_int32_t P) (oc_ret s)
          @ encode (hg_proc_cachercise_cache_id_t P) (oc_id s)),
      decode = (\<lambda>b. do {
        (ret, b) \<leftarrow> decode (hg_proc_int32_t P) b;
        (id, b) \<leftarrow> decode (hg_proc_cachercise_cache_id_t P) b;
        Some (\<lparr>oc_ret = ret, oc_id = id\<rparr>, b) })\<rparr>"

interpretation open_cache_out: codec hg_proc_open_cache_out_t
  by unfold_locales (simp add: wire_simps hg_proc_open_cache_out_t_def)

definition hg_proc_close_cache_in_t :: "procs \<Rightarrow> close_cache_in_t proc" where
  "hg_proc_close_cache_in_t P =
     \<lparr>encode = (\<lambda>s. encode (hg_proc_hg_string_t P) (cl_token s)
          @ encode (hg_proc_cachercise_cache_id_t P) (cl_id s)),
      decode = (\<lambda>b. do {
        (token, b) \<leftarrow> decode (hg_proc_hg_string_t P) b;
        (id, b) \<leftarrow> decode (hg_proc_cachercise_cache_id_t P) b;
        Some (\<lparr>cl_token = token, cl_id = id\<rparr>, b) })\<rparr>"

interpretation close_cache_in: codec hg_proc_close_cache_in_t
  by unfold_locales (simp add: wire_simps hg_proc_close_cache_in_t_def)

definition hg_proc_close_cache_out_t :: "procs \<Rightarrow> close_cache_out_t proc" where
  "hg_proc_close_cache_out_t P =
     \<lparr>encode = (\<lambda>s. encode (hg_proc_int32_t P) (cl_ret s)),
      decode = (\<lambda>b. do {
        (ret, b) \<leftarrow> decode (hg_proc_int32_t P) b;
        Some (\<lparr>cl_ret = ret\<rparr>, b) })\<rparr>"

interpretation close_cache_out: codec hg_proc_close_cache_out_t
  by unfold_locales (simp add: wire_simps hg_proc_close_cache_out_t_def)

definition hg_proc_destroy_cache_in_t :: "procs \<Rightarrow> destroy_cache_in_t proc" where
  "hg_proc_destroy_cache_in_t P =
     \<lparr>encode = (\<lambda>s. encode (hg_proc_hg_string_t P) (ds_token s)
          @ encode (hg_proc_cachercise_cache_id_t P) (ds_id s)),
      decode = (\<lambda>b. do {
        (token, b) \<leftarrow> decode (hg_proc_hg_string_t P) b;
        (id, b) \<leftarrow> decode (hg_proc_cachercise_cache_id_t P) b;
        Some (\<lparr>ds_token = token, ds_id = id\<rparr>, b) })\<rparr>"

interpretation destroy_cache_in: codec hg_proc_destroy_cache_in_t
  by unfold_locales (simp add: wire_simps hg_proc_destroy_cache_in_t_def)

definition hg_proc_destroy_cache_out_t :: "procs \<Rightarrow> destroy_cache_out_t proc" where
  "hg_proc_destroy_cache_out_t P =
     \<lparr>encode = (\<lambda>s. encode (hg_proc_int32_t P) (ds_ret s)),
      decode = (\<lambda>b. do {
        (ret, b) \<leftarrow> decode (hg_proc_int32_t P) b;
        Some (\<lparr>ds_ret = ret\<rparr>, b) })\<rparr>"

interpretation destroy_cache_out: codec hg_proc_destroy_cache_out_t
  by unfold_locales (simp add: wire_simps hg_proc_destroy_cache_out_t_def)

definition hg_proc_list_caches_in_t :: "procs \<Rightarrow> list_caches_in_t proc" where
  "hg_proc_list_caches_in_t P =
     \<lparr>encode = (\<lambda>s. encode (hg_proc_hg_string_t P) (li_token s)
          @ encode (hg_proc_hg_size_t P) (li_max_ids s)),
      decode = (\<lambda>b. do {
        (token, b) \<leftarrow> decode (hg_proc_hg_string_t P) b;
        (max_ids, b) \<leftarrow> decode (hg_proc_hg_size_t P) b;
        Some (\<lparr>li_token = token, li_max_ids = max_ids\<rparr>, b) })\<rparr>"

interpretation list_caches_in: codec hg_proc_list_caches_in_t
  by unfold_locales (simp add: wire_simps hg_proc_list_caches_in_t_def)

section \<open>Client RPCs\<close>

definition hg_proc_hello_in_t :: "procs \<Rightarrow> hello_in_t proc" where
  "hg_proc_hello_in_t P =
     \<lparr>encode = (\<lambda>s. encode (hg_proc_cachercise_cache_id_t P) (he_cache_id s)),
      decode = (\<lambda>b. do {
        (cache_id, b) \<leftarrow> decode (hg_proc_cachercise_cache_id_t P) b;
        Some (\<lparr>he_cache_id = cache_id\<rparr>, b) })\<rparr>"

interpretation hello_in: codec hg_proc_hello_in_t
  by unfold_locales (simp add: wire_simps hg_proc_hello_in_t_def)

definition hg_proc_sum_in_t :: "procs \<Rightarrow> sum_in_t proc" where
  "hg_proc_sum_in_t P =
     \<lparr>encode = (\<lambda>s. encode (hg_proc_cachercise_cache_id_t P) (su_cache_id s)
          @ encode (hg_proc_int32_t P) (su_x s)
          @ encode (hg_proc_int32_t P) (su_y s)),
      decode = (\<lambda>b. do {
        (cache_id, b) \<leftarrow> decode (hg_proc_cachercise_cache_id_t P) b;
        (x, b) \<leftarrow> decode (hg_proc_int32_t P) b;
        (y, b) \<leftarrow> decode (hg_proc_int32_t P) b;
        Some (\<lparr>su_cache_id = cache_id, su_x = x, su_y = y\<rparr>, b) })\<rparr>"

interpretation sum_in: codec hg_proc_sum_in_t
  by unfold_locales (simp add: wire_simps hg_proc_sum_in_t_def)

definition hg_proc_sum_out_t :: "procs \<Rightarrow> sum_out_t proc" where
  "hg_proc_sum_out_t P =
     \<lparr>encode = (\<lambda>s. encode (hg_proc_int32_t P) (so_result s)
          @ encode (hg_proc_int32_t P) (so_ret s)),
      decode = (\<lambda>b. do {
        (result, b) \<leftarrow> decode (hg_proc_int32_t P) b;
        (ret, b) \<leftarrow> decode (hg_proc_int32_t P) b;
        Some (\<lparr>so_result = result, so_ret = ret\<rparr>, b) })\<rparr>"

interpretation sum_out: codec hg_proc_sum_out_t
  by unfold_locales (simp add: wire_simps hg_proc_sum_out_t_def)

definition hg_proc_io_in_t :: "procs \<Rightarrow> io_in_t proc" where
  "hg_proc_io_in_t P =
     \<lparr>encode = (\<lambda>s. encode (hg_proc_cachercise_cache_id_t P) (io_cache_id s)
          @ encode (hg_proc_uint64_t P) (io_count s)
          @ encode (hg_proc_int64_t P) (io_offset s)
          @ encode (hg_proc_int64_t P) (io_scratch s)
          @ encode (hg_proc_int64_t P) (io_kind s)),
      decode = (\<lambda>b. do {
        (cache_id, b) \<leftarrow> decode (hg_proc_cachercise_cache_id_t P) b;
        (count, b) \<leftarrow> decode (hg_proc_uint64_t P) b;
        (offset, b) \<leftarrow> decode (hg_proc_int64_t P) b;
        (scratch, b) \<leftarrow> decode (hg_proc_int64_t P) b;
        (kind, b) \<leftarrow> decode (hg_proc_int64_t P) b;
        Some (\<lparr>io_cache_id = cache_id, io_count = count, io_offset = offset, io_scratch = scratch, io_kind = kind\<rparr>, b) })\<rparr>"

interpretation io_in: codec hg_proc_io_in_t
  by unfold_locales (simp add: wire_simps hg_proc_io_in_t_def)

definition hg_proc_io_out_t :: "procs \<Rightarrow> io_out_t proc" where
  "hg_proc_io_out_t P =
     \<lparr>encode = (\<lambda>s. encode (hg_proc_uint64_t P) (out_bytes s)
          @ encode (hg_proc_int64_t P) (out_scratch s)
          @ encode (hg_proc_int64_t P) (out_result s)
          @ encode (hg_proc_int64_t P) (out_ret s)),
      decode = (\<lambda>b. do {
        (bytes, b) \<leftarrow> decode (hg_proc_uint64_t P) b;
        (scratch, b) \<leftarrow> decode (hg_proc_int64_t P) b;
        (result, b) \<leftarrow> decode (hg_proc_int64_t P) b;
        (ret, b) \<leftarrow> decode (hg_proc_int64_t P) b;
        Some (\<lparr>out_bytes = bytes, out_scratch = scratch, out_result = result, out_ret = ret\<rparr>, b) })\<rparr>"

interpretation io_out: codec hg_proc_io_out_t
  by unfold_locales (simp add: wire_simps hg_proc_io_out_t_def)

section \<open>The reply to a listing\<close>

text \<open>
  \<open>HG_ENCODE\<close> copies \<open>count\<close> ids out of the array, \<open>HG_DECODE\<close> into an array it
  allocates.  \<open>granted\<close> is the outcome of \<open>calloc\<close>, which also refuses a product
  that overflows.  Both do nothing when the array is \<open>NULL\<close>.  \<open>HG_FREE\<close> frees the
  array.
\<close>

definition encode_list_caches_out_t :: "procs \<Rightarrow> list_caches_out_t \<Rightarrow> u8 list option" where
  "encode_list_caches_out_t P out =
     (let head = encode (hg_proc_int32_t P) (lo_ret out) @ encode (hg_proc_hg_size_t P) (lo_count out);
          n = unat (16 * lo_count out) in
      case lo_ids out of
        None \<Rightarrow> Some head
      | Some ids \<Rightarrow>
          if n \<le> length (ids_bytes ids)
          then Some (head @ encode (hg_proc_memcpy P n) (take n (ids_bytes ids)))
          else None)"

definition decode_list_caches_out_t ::
  "procs \<Rightarrow> bool \<Rightarrow> u8 list \<Rightarrow> (list_caches_out_t \<times> u8 list) option" where
  "decode_list_caches_out_t P granted b = do {
     (ret, b) \<leftarrow> decode (hg_proc_int32_t P) b;
     (count, b) \<leftarrow> decode (hg_proc_hg_size_t P) b;
     if granted \<and> unat count * 16 < 2 ^ 64
     then do {
       (bs, b) \<leftarrow> decode (hg_proc_memcpy P (unat (16 * count))) b;
       Some (\<lparr>lo_ret = ret, lo_count = count, lo_ids = Some (ids_of_bytes (unat count) bs)\<rparr>, b) }
     else Some (\<lparr>lo_ret = ret, lo_count = count, lo_ids = None\<rparr>, b) }"

lemma unat_16_times: "unat c * 16 < 2 ^ 64 \<Longrightarrow> unat (16 * c) = 16 * unat c" for c :: u64
  by (simp add: unat_word_ariths)

text \<open>A listing that carries an array: the receiver gets the first \<open>count\<close> ids.\<close>

lemma list_reply_round_trip:
  assumes P: "procs_ok P" and ids: "lo_ids out = Some ids" and n: "unat (lo_count out) \<le> length ids"
    and fits: "unat (lo_count out) * 16 < 2 ^ 64"
  shows "\<exists>bs. encode_list_caches_out_t P out = Some bs
    \<and> decode_list_caches_out_t P True (bs @ r)
       = Some (out\<lparr>lo_ids := Some (take (unat (lo_count out)) ids)\<rparr>, r)"
proof -
  let ?c = "unat (lo_count out)"
  have e: "take (unat (16 * lo_count out)) (ids_bytes ids) = ids_bytes (take ?c ids)"
    by (simp only: unat_16_times [OF fits] take_ids_bytes)
  have l: "length (ids_bytes (take ?c ids)) = unat (16 * lo_count out)"
    using n by (simp add: unat_16_times [OF fits])
  have i: "ids_of_bytes ?c (ids_bytes (take ?c ids)) = take ?c ids"
    using ids_round_trip [of "take ?c ids" "[]"] n by simp
  have h: "unat (16 * lo_count out) \<le> length (ids_bytes ids)"
    using n by (simp add: unat_16_times [OF fits])
  have "encode_list_caches_out_t P out
      = Some ((encode (hg_proc_int32_t P) (lo_ret out) @ encode (hg_proc_hg_size_t P) (lo_count out))
          @ encode (hg_proc_memcpy P (unat (16 * lo_count out))) (ids_bytes (take ?c ids)))"
    using h by (simp add: encode_list_caches_out_t_def ids e)
  then show ?thesis
    using fits by (simp add: decode_list_caches_out_t_def procs_okD(1-5) [OF P]
        procs_okD(6) [OF P l, simplified] i ids)
qed

text \<open>
  A reply without an array: the receiver reads \<open>16 * count\<close> bytes past the end of
  what was encoded, unless its allocation fails.
\<close>

lemma list_error_decode:
  assumes P: "procs_ok P" and ids: "lo_ids out = None"
  shows "\<exists>bs. encode_list_caches_out_t P out = Some bs
    \<and> decode_list_caches_out_t P granted (bs @ r)
       = (if granted \<and> unat (lo_count out) * 16 < 2 ^ 64
          then map_option (\<lambda>(x, b). (out\<lparr>lo_ids := Some (ids_of_bytes (unat (lo_count out)) x)\<rparr>, b))
                 (decode (hg_proc_memcpy P (unat (16 * lo_count out))) r)
          else Some (out, r))"
  by (cases "decode (hg_proc_memcpy P (unat (16 * lo_count out))) r")
    (auto simp: encode_list_caches_out_t_def decode_list_caches_out_t_def procs_okD [OF P] ids)

section \<open>Concrete procs\<close>

text \<open>
  Little-endian integers, raw bytes, and strings as a list of characters each
  preceded by 1, with 0 at the end; the byte before tells \<open>NULL\<close> from a string.
\<close>

fun put_chars :: "string \<Rightarrow> u8 list" where
  "put_chars [] = [0]"
| "put_chars (c # s) = 1 # of_nat (of_char c) # put_chars s"

fun get_chars :: "u8 list \<Rightarrow> (string \<times> u8 list) option" where
  "get_chars (t # b) = (if t = 0 then Some ([], b) else
     (case b of [] \<Rightarrow> None
      | c # b' \<Rightarrow> map_option (apfst (Cons (char_of (unat c)))) (get_chars b')))"
| "get_chars [] = None"

definition raw_proc :: "nat \<Rightarrow> u8 list proc" where
  "raw_proc n = \<lparr>encode = id, decode = (\<lambda>b. if n \<le> length b then Some (take n b, drop n b) else None)\<rparr>"

definition le_proc :: "nat \<Rightarrow> 'a::len word proc" where
  "le_proc n = \<lparr>encode = le_bytes n,
     decode = (\<lambda>b. if n \<le> length b then Some (of_le_bytes (take n b), drop n b) else None)\<rparr>"

definition string_proc :: "string option proc" where
  "string_proc = \<lparr>encode = (\<lambda>s. case s of None \<Rightarrow> [0] | Some s \<Rightarrow> 1 # put_chars s),
     decode = (\<lambda>b. case b of [] \<Rightarrow> None
        | t # b \<Rightarrow> if t = 0 then Some (None, b) else map_option (apfst Some) (get_chars b))\<rparr>"

definition ref_procs :: procs where
  "ref_procs = \<lparr>hg_proc_hg_string_t = string_proc, hg_proc_int32_t = le_proc 4, hg_proc_hg_size_t = le_proc 8,
     hg_proc_uint64_t = le_proc 8, hg_proc_int64_t = le_proc 8, hg_proc_memcpy = raw_proc\<rparr>"

lemma le_proc_ok: "8 * n = LENGTH('a) \<Longrightarrow> proc_ok (le_proc n :: 'a::len word proc)"
  by (simp add: proc_ok_def le_proc_def of_le_bytes_le_bytes)

lemma get_put_chars: "get_chars (put_chars s @ r) = Some (s, r)"
proof (induction s)
  case (Cons c s)
  have "(of_char c :: nat) < 256" by (rule nat_of_char_less_256)
  then have "unat (of_nat (of_char c) :: u8) = of_char c" by (simp add: unat_of_nat)
  then show ?case using Cons.IH by simp
qed simp

lemma string_proc_ok: "proc_ok string_proc"
  by (simp add: proc_ok_def string_proc_def get_put_chars split: option.split)

lemma ref_procs_ok: "procs_ok ref_procs"
  by (simp add: procs_ok_def ref_procs_def le_proc_ok string_proc_ok raw_proc_def)

end
