(* ===== verification/Net.thy ===== *)
theory Net
  imports Wire
begin

text \<open>
  margo as the client side uses it.  margo is not part of the repository: its
  functions are the fields of \<open>net\<close> over a state \<open>'n\<close>.  What is used of them is
  \<open>net_ok\<close>: an RPC handle lives from \<open>margo_create\<close> to \<open>margo_destroy\<close>, an output is
  held from a \<open>margo_get_output\<close> that succeeds to the \<open>margo_free_output\<close> for it, and
  forwarding returns, with a code.
\<close>

section \<open>The interface\<close>

text \<open>
  Addresses and handles are numbers.  \<open>margo_registered_name\<close> gives the id and
  \<open>flag\<close>.  The input of an RPC crosses the interface in encoded form; a reply is
  accepted by \<open>margo_get_output\<close> when the proc registered for the RPC, here its
  third argument, can decode it.  \<open>None\<close> for an address, a handle or a reply, and
  \<open>False\<close> for \<open>margo_provider_forward\<close>, stand for a code other than \<open>HG_SUCCESS\<close>.
  The outer option is \<open>None\<close> when execution does not get past the call.
\<close>

record 'n net =
  margo_addr_dup :: "ptr \<Rightarrow> 'n \<Rightarrow> ptr \<times> 'n"
  margo_addr_free :: "ptr \<Rightarrow> 'n \<Rightarrow> 'n"
  margo_registered_name :: "string \<Rightarrow> 'n \<Rightarrow> hg_id_t \<times> bool"
  MARGO_REGISTER :: "string \<Rightarrow> 'n \<Rightarrow> hg_id_t \<times> 'n"
  margo_disable_response :: "hg_id_t \<Rightarrow> 'n \<Rightarrow> 'n"
  margo_create :: "ptr \<Rightarrow> hg_id_t \<Rightarrow> 'n \<Rightarrow> ptr \<times> 'n"
  margo_provider_forward :: "u16 \<Rightarrow> nat \<Rightarrow> u8 list \<Rightarrow> 'n \<Rightarrow> (bool \<times> 'n) option"
  margo_get_output :: "nat \<Rightarrow> (u8 list \<Rightarrow> bool) \<Rightarrow> 'n \<Rightarrow> u8 list option \<times> 'n"
  margo_free_output :: "nat \<Rightarrow> 'n \<Rightarrow> 'n option"
  margo_destroy :: "nat \<Rightarrow> 'n \<Rightarrow> 'n option"

text \<open>\<open>hs n\<close> maps the live handles of \<open>n\<close> to whether their output is held.\<close>

definition net_ok :: "'n net \<Rightarrow> ('n \<Rightarrow> nat \<rightharpoonup> bool) \<Rightarrow> bool" where
  "net_ok N hs \<longleftrightarrow>
     (\<forall>a i n n'. margo_create N a i n = (None, n') \<longrightarrow> hs n' = hs n) \<and>
     (\<forall>a i n h n'. margo_create N a i n = (Some h, n') \<longrightarrow> hs n h = None \<and> hs n' = (hs n)(h \<mapsto> False)) \<and>
     (\<forall>p h b n r n'. margo_provider_forward N p h b n = Some (r, n') \<longrightarrow> hs n' = hs n) \<and>
     (\<forall>h q n n'. margo_get_output N h q n = (None, n') \<longrightarrow> hs n' = hs n) \<and>
     (\<forall>h q n b n'. hs n h = Some False \<longrightarrow> margo_get_output N h q n = (Some b, n')
        \<longrightarrow> q b \<and> hs n' = (hs n)(h \<mapsto> True)) \<and>
     (\<forall>h n. hs n h = Some True \<longrightarrow> (\<exists>n'. margo_free_output N h n = Some n' \<and> hs n' = (hs n)(h \<mapsto> False))) \<and>
     (\<forall>h n. hs n h = Some False \<longrightarrow> margo_free_output N h n = None) \<and>
     (\<forall>h n. hs n h = Some False \<longrightarrow> (\<exists>n'. margo_destroy N h n = Some n' \<and> hs n' = (hs n)(h := None))) \<and>
     (\<forall>p h b n. hs n h = Some False \<longrightarrow> margo_provider_forward N p h b n \<noteq> None)"

section \<open>A call that cleans up after itself\<close>

text \<open>
  The sequence the five functions of \<open>src/admin.c\<close> share: \<open>margo_create\<close>,
  \<open>margo_provider_forward\<close>, \<open>margo_get_output\<close>, each with its early return, the last
  two after \<open>margo_destroy\<close>.  The result is \<open>None\<close> for an early return, otherwise the
  handle and the output, which is still held.
\<close>

definition rpc ::
  "'n net \<Rightarrow> ptr \<Rightarrow> hg_id_t \<Rightarrow> u16 \<Rightarrow> u8 list \<Rightarrow> (u8 list \<Rightarrow> 'o option) \<Rightarrow> 'n
    \<Rightarrow> ((nat \<times> 'o) option \<times> 'n) option" where
  "rpc N address rid provider_id inp dec n =
     (case margo_create N address rid n of
        (None, n) \<Rightarrow> Some (None, n)
      | (Some h, n) \<Rightarrow> do {
          (ok, n) \<leftarrow> margo_provider_forward N provider_id h inp n;
          if \<not> ok then do { n \<leftarrow> margo_destroy N h n; Some (None, n) }
          else case margo_get_output N h (\<lambda>b. dec b \<noteq> None) n of
              (None, n) \<Rightarrow> do { n \<leftarrow> margo_destroy N h n; Some (None, n) }
            | (Some b, n) \<Rightarrow> do { out \<leftarrow> dec b; Some (Some (h, out), n) } })"

text \<open>\<open>margo_free_output(h, &out); margo_destroy(h);\<close>\<close>

definition release :: "'n net \<Rightarrow> nat \<Rightarrow> 'n \<Rightarrow> 'n option" where
  "release N h n = do { n \<leftarrow> margo_free_output N h n; margo_destroy N h n }"

section \<open>Handles are released\<close>

locale margo_net =
  fixes N :: "'n net" and hs :: "'n \<Rightarrow> nat \<rightharpoonup> bool"
  assumes ok: "net_ok N hs"
begin

lemmas laws = ok [unfolded net_ok_def]

lemma create_none: "margo_create N a i n = (None, n') \<Longrightarrow> hs n' = hs n"
  by (rule laws [THEN conjunct1, rule_format])

lemma create_some: "margo_create N a i n = (Some h, n') \<Longrightarrow> hs n h = None \<and> hs n' = (hs n)(h \<mapsto> False)"
  by (rule laws [THEN conjunct2, THEN conjunct1, rule_format])

lemma forward: "margo_provider_forward N p h b n = Some (r, n') \<Longrightarrow> hs n' = hs n"
  by (rule laws [THEN conjunct2, THEN conjunct2, THEN conjunct1, rule_format])

lemma output_none: "margo_get_output N h q n = (None, n') \<Longrightarrow> hs n' = hs n"
  by (rule laws [THEN conjunct2, THEN conjunct2, THEN conjunct2, THEN conjunct1, rule_format])

lemma output_some: "hs n h = Some False \<Longrightarrow> margo_get_output N h q n = (Some b, n')
    \<Longrightarrow> q b \<and> hs n' = (hs n)(h \<mapsto> True)"
  by (rule laws [THEN conjunct2, THEN conjunct2, THEN conjunct2, THEN conjunct2, THEN conjunct1, rule_format])

lemma free_held: "hs n h = Some True \<Longrightarrow> \<exists>n'. margo_free_output N h n = Some n' \<and> hs n' = (hs n)(h \<mapsto> False)"
  by (rule laws [THEN conjunct2, THEN conjunct2, THEN conjunct2, THEN conjunct2, THEN conjunct2, THEN conjunct1, rule_format])

lemma free_not_held: "hs n h = Some False \<Longrightarrow> margo_free_output N h n = None"
  by (rule laws [THEN conjunct2, THEN conjunct2, THEN conjunct2, THEN conjunct2, THEN conjunct2, THEN conjunct2, THEN conjunct1, rule_format])

lemma destroy: "hs n h = Some False \<Longrightarrow> \<exists>n'. margo_destroy N h n = Some n' \<and> hs n' = (hs n)(h := None)"
  by (rule laws [THEN conjunct2, THEN conjunct2, THEN conjunct2, THEN conjunct2, THEN conjunct2, THEN conjunct2, THEN conjunct2, THEN conjunct1, rule_format])

lemma forwards: "hs n h = Some False \<Longrightarrow> \<exists>r n'. margo_provider_forward N p h b n = Some (r, n')"
  using laws [THEN conjunct2, THEN conjunct2, THEN conjunct2, THEN conjunct2, THEN conjunct2, THEN conjunct2, THEN conjunct2, THEN conjunct2, rule_format, of n h p b]
  by auto

lemma release_ok:
  assumes "hs n h = Some True"
  shows "\<exists>n'. release N h n = Some n' \<and> hs n' = (hs n)(h := None)"
proof -
  obtain n1 where n1: "margo_free_output N h n = Some n1" "hs n1 = (hs n)(h \<mapsto> False)"
    using free_held [OF assms] by blast
  then show ?thesis using destroy [of n1 h] by (auto simp: release_def)
qed

lemma destroy_fresh:
  assumes "hs n h = None" and "hs n2 = (hs n)(h \<mapsto> False)"
  shows "\<exists>n'. margo_destroy N h n2 = Some n' \<and> hs n' = hs n"
  using destroy [of n2 h] assms by (fastforce simp: fun_upd_idem)

text \<open>
  \<open>rpc\<close> returns and keeps every handle but the one it returns, whose output is held.
\<close>

lemma rpc_cases:
  obtains n' where "rpc N a i p b dec n = Some (None, n')" "hs n' = hs n"
  | h out n' where "rpc N a i p b dec n = Some (Some (h, out), n')" "hs n h = None" "hs n' = (hs n)(h \<mapsto> True)"
proof (cases "margo_create N a i n")
  case (Pair hp n1)
  show thesis
  proof (cases hp)
    case None
    with Pair create_none [of a i n n1] that(1) show thesis by (simp add: rpc_def)
  next
    case (Some h)
    with Pair create_some [of a i n h n1] have h: "hs n h = None" "hs n1 = (hs n)(h \<mapsto> False)" by simp_all
    obtain r n2 where f: "margo_provider_forward N p h b n1 = Some (r, n2)"
      using forwards [of n1 h p b] h(2) by auto
    with forward h have n2: "hs n2 = (hs n)(h \<mapsto> False)" by metis
    obtain n3 where d: "margo_destroy N h n2 = Some n3" "hs n3 = hs n"
      using destroy_fresh [OF h(1) n2] by blast
    show thesis
    proof (cases r)
      case False
      with Pair Some f d that(1) show thesis by (simp add: rpc_def)
    next
      case True
      show thesis
      proof (cases "margo_get_output N h (\<lambda>b. dec b \<noteq> None) n2")
        case out: (Pair o1 n4)
        show thesis
        proof (cases o1)
          case None
          with out output_none n2 have "hs n4 = (hs n)(h \<mapsto> False)" by metis
          from destroy_fresh [OF h(1) this] Pair Some f True out None that(1) show thesis
            by (auto simp: rpc_def)
        next
          case b: (Some bs)
          with out output_some [of n2 h "\<lambda>b. dec b \<noteq> None" bs n4] n2
          have "dec bs \<noteq> None" "hs n4 = (hs n)(h \<mapsto> True)" by simp_all
          with Pair Some f True out b h that(2) show thesis by (auto simp: rpc_def)
        qed
      qed
    qed
  qed
qed

lemma rpc_then_release:
  obtains n' where "rpc N a i p b dec n = Some (None, n')" "hs n' = hs n"
  | h out n1 n' where "rpc N a i p b dec n = Some (Some (h, out), n1)" "release N h n1 = Some n'" "hs n' = hs n"
proof (cases rule: rpc_cases [of a i p b dec n])
  case c: (2 h out n1)
  with release_ok [of n1 h] obtain n' where "release N h n1 = Some n'" "hs n' = (hs n)(h := None)"
    by auto
  with that(2) c show thesis by (simp add: fun_upd_idem)
qed (use that in auto)

end

end
