(* ===== verification/Client.thy ===== *)
theory Client
  imports Net
begin

text \<open>
  The client library, \<open>src/client.c\<close> and \<open>src/client.h\<close>.  Clients and cache handles
  are heap objects; a pointer that is \<open>NULL\<close> or dangling fails when it is
  dereferenced.  Functions return the value of the enumeration they have in C.
\<close>

section \<open>State\<close>

record cachercise_client =
  c_mid :: ptr
  c_hello_id :: hg_id_t
  c_sum_id :: hg_id_t
  c_io_id :: hg_id_t
  c_num_cache_handles :: u64

record cachercise_cache_handle =
  rh_client :: ptr
  rh_addr :: ptr
  rh_provider_id :: u16
  rh_refcount :: u64
  rh_cache_id :: cachercise_cache_id_t

text \<open>\<open>warnings\<close> collects what is printed on \<open>stderr\<close>.  A process has one margo instance, whose
  state is \<open>network\<close>; a client stores its address, \<open>mid\<close>, and the calls go to that instance.\<close>

record 'n cworld =
  clients :: "cachercise_client heap"
  rhs :: "cachercise_cache_handle heap"
  network :: 'n
  warnings :: "u64 list"

definition zero_client :: cachercise_client where
  "zero_client = \<lparr>c_mid = NULL, c_hello_id = 0, c_sum_id = 0, c_io_id = 0, c_num_cache_handles = 0\<rparr>"

definition zero_rh :: cachercise_cache_handle where
  "zero_rh = \<lparr>rh_client = NULL, rh_addr = NULL, rh_provider_id = 0, rh_refcount = 0, rh_cache_id = 0\<rparr>"

section \<open>Clients\<close>

text \<open>The pointer in a result is the one stored for the caller, \<open>NULL\<close> where none is stored.\<close>

definition cachercise_client_init :: "'n net \<Rightarrow> ptr \<Rightarrow> 'n cworld \<Rightarrow> (i32 \<times> ptr \<times> 'n cworld) option" where
  "cachercise_client_init N m st =
     (let (c, cs) = h_alloc zero_client (clients st); st = st\<lparr>clients := cs\<rparr>; n = network st in
      if c = NULL then Some (ret_code CACHERCISE_ERR_ALLOCATION, NULL, st)
      else do {
        let (ids, n) =
          (if snd (margo_registered_name N ''cachercise_sum'' n)
           then ((fst (margo_registered_name N ''cachercise_sum'' n),
                  fst (margo_registered_name N ''cachercise_hello'' n),
                  fst (margo_registered_name N ''cachercise_io'' n)), n)
           else let (s, n) = MARGO_REGISTER N ''cachercise_sum'' n;
                    (h, n) = MARGO_REGISTER N ''cachercise_hello'' n;
                    (i, n) = MARGO_REGISTER N ''cachercise_io'' n
                in ((s, h, i), margo_disable_response N h n));
        cs \<leftarrow> h_update c (\<lambda>x. x\<lparr>c_mid := m, c_sum_id := fst ids, c_hello_id := fst (snd ids), c_io_id := snd (snd ids)\<rparr>) cs;
        Some (ret_code CACHERCISE_SUCCESS, c, st\<lparr>clients := cs, network := n\<rparr>) })"

definition cachercise_client_finalize :: "ptr \<Rightarrow> 'n cworld \<Rightarrow> (i32 \<times> 'n cworld) option" where
  "cachercise_client_finalize client st = do {
     c \<leftarrow> h_load client (clients st);
     let st = (if c_num_cache_handles c \<noteq> 0
               then st\<lparr>warnings := warnings st @ [c_num_cache_handles c]\<rparr> else st);
     cs \<leftarrow> h_free client (clients st);
     Some (ret_code CACHERCISE_SUCCESS, st\<lparr>clients := cs\<rparr>) }"

section \<open>Cache handles\<close>

definition cachercise_cache_handle_create ::
  "'n net \<Rightarrow> ptr \<Rightarrow> ptr \<Rightarrow> u16 \<Rightarrow> cachercise_cache_id_t \<Rightarrow> 'n cworld \<Rightarrow> (i32 \<times> ptr \<times> 'n cworld) option" where
  "cachercise_cache_handle_create N client addr provider_id cache_id st =
     (if client = NULL then Some (ret_code CACHERCISE_ERR_INVALID_ARGS, NULL, st)
      else let (rh, hp) = h_alloc zero_rh (rhs st); st = st\<lparr>rhs := hp\<rparr> in
      if rh = NULL then Some (ret_code CACHERCISE_ERR_ALLOCATION, NULL, st)
      else do {
        c \<leftarrow> h_load client (clients st);
        (case margo_addr_dup N addr (network st) of
           (None, n) \<Rightarrow> do {
             hp \<leftarrow> h_free rh hp;
             Some (ret_code CACHERCISE_ERR_FROM_MERCURY, NULL, st\<lparr>rhs := hp, network := n\<rparr>) }
         | (Some a, n) \<Rightarrow> do {
             hp \<leftarrow> h_update rh (\<lambda>x. x\<lparr>rh_addr := Some a, rh_client := client, rh_provider_id := provider_id,
                                   rh_cache_id := cache_id, rh_refcount := 1\<rparr>) hp;
             cs \<leftarrow> h_update client (\<lambda>c. c\<lparr>c_num_cache_handles := c_num_cache_handles c + 1\<rparr>) (clients st);
             Some (ret_code CACHERCISE_SUCCESS, rh, st\<lparr>rhs := hp, clients := cs, network := n\<rparr>) }) })"

definition cachercise_cache_handle_ref_incr :: "ptr \<Rightarrow> 'n cworld \<Rightarrow> (i32 \<times> 'n cworld) option" where
  "cachercise_cache_handle_ref_incr handle st =
     (if handle = NULL then Some (ret_code CACHERCISE_ERR_INVALID_ARGS, st)
      else do {
        hp \<leftarrow> h_update handle (\<lambda>x. x\<lparr>rh_refcount := rh_refcount x + 1\<rparr>) (rhs st);
        Some (ret_code CACHERCISE_SUCCESS, st\<lparr>rhs := hp\<rparr>) })"

definition cachercise_cache_handle_release :: "'n net \<Rightarrow> ptr \<Rightarrow> 'n cworld \<Rightarrow> (i32 \<times> 'n cworld) option" where
  "cachercise_cache_handle_release N handle st =
     (if handle = NULL then Some (ret_code CACHERCISE_ERR_INVALID_ARGS, st)
      else do {
        hp \<leftarrow> h_update handle (\<lambda>x. x\<lparr>rh_refcount := rh_refcount x - 1\<rparr>) (rhs st);
        x \<leftarrow> h_load handle hp;
        if rh_refcount x = 0
        then do {
          c \<leftarrow> h_load (rh_client x) (clients st);
          let n = margo_addr_free N (rh_addr x) (network st);
          cs \<leftarrow> h_update (rh_client x) (\<lambda>c. c\<lparr>c_num_cache_handles := c_num_cache_handles c - 1\<rparr>) (clients st);
          hp \<leftarrow> h_free handle hp;
          Some (ret_code CACHERCISE_SUCCESS, st\<lparr>rhs := hp, clients := cs, network := n\<rparr>) }
        else Some (ret_code CACHERCISE_SUCCESS, st\<lparr>rhs := hp\<rparr>) })"

section \<open>Requests\<close>

definition cachercise_say_hello :: "'n net \<Rightarrow> procs \<Rightarrow> ptr \<Rightarrow> 'n cworld \<Rightarrow> (i32 \<times> 'n cworld) option" where
  "cachercise_say_hello N P handle st = do {
     x \<leftarrow> h_load handle (rhs st);
     c \<leftarrow> h_load (rh_client x) (clients st);
     let inp = \<lparr>he_cache_id = rh_cache_id x\<rparr>;
     (case margo_create N (rh_addr x) (c_hello_id c) (network st) of
        (None, n) \<Rightarrow> Some (ret_code CACHERCISE_ERR_FROM_MERCURY, st\<lparr>network := n\<rparr>)
      | (Some h, n) \<Rightarrow> do {
          (ok, n) \<leftarrow> margo_provider_forward N (rh_provider_id x) h (encode (hg_proc_hello_in_t P) inp) n;
          n \<leftarrow> margo_destroy N h n;
          Some (ret_code (if ok then CACHERCISE_SUCCESS else CACHERCISE_ERR_FROM_MERCURY),
                st\<lparr>network := n\<rparr>) }) }"

text \<open>
  The label \<open>finish\<close> frees the output and the handle on every path, also where no
  output was obtained.  The second component of the result is \<open>*result\<close>, \<open>None\<close>
  where it is not written.
\<close>

definition cachercise_compute_sum ::
  "'n net \<Rightarrow> procs \<Rightarrow> ptr \<Rightarrow> i32 \<Rightarrow> i32 \<Rightarrow> 'n cworld \<Rightarrow> (i32 \<times> i32 option \<times> 'n cworld) option" where
  "cachercise_compute_sum N P handle x y st = do {
     rh \<leftarrow> h_load handle (rhs st);
     c \<leftarrow> h_load (rh_client rh) (clients st);
     let inp = \<lparr>su_cache_id = rh_cache_id rh, su_x = x, su_y = y\<rparr>;
     (case margo_create N (rh_addr rh) (c_sum_id c) (network st) of
        (None, n) \<Rightarrow> Some (ret_code CACHERCISE_ERR_FROM_MERCURY, None, st\<lparr>network := n\<rparr>)
      | (Some h, n) \<Rightarrow> do {
          (ok, n) \<leftarrow> margo_provider_forward N (rh_provider_id rh) h (encode (hg_proc_sum_in_t P) inp) n;
          (ret, result, n) \<leftarrow>
            (if \<not> ok then Some (ret_code CACHERCISE_ERR_FROM_MERCURY, None, n)
             else case margo_get_output N h (\<lambda>b. decode (hg_proc_sum_out_t P) b \<noteq> None) n of
                 (None, n) \<Rightarrow> Some (ret_code CACHERCISE_ERR_FROM_MERCURY, None, n)
               | (Some b, n) \<Rightarrow> do {
                   (out, r) \<leftarrow> decode (hg_proc_sum_out_t P) b;
                   Some (so_ret out,
                     if so_ret out = ret_code CACHERCISE_SUCCESS then Some (so_result out) else None, n) });
          n \<leftarrow> release N h n;
          Some (ret, result, st\<lparr>network := n\<rparr>) }) }"

text \<open>
  The local \<open>in.scratch\<close>, \<open>scr\<close> before the call, is overwritten only by a write, of
  at most eight bytes of \<open>buf\<close>.  \<open>in.count\<close> keeps the count of the caller.  The
  function returns \<open>out.bytes\<close> converted to the enumeration type, and neither frees
  the output nor destroys the handle.
\<close>

definition io_scratch_in :: "i64 \<Rightarrow> u8 list \<Rightarrow> u64 \<Rightarrow> i32 \<Rightarrow> i64 option" where
  "io_scratch_in scr buf count kind =
     (if kind = CACHERCISE_WRITE
      then map_option of_le_bytes (memcpy (le_bytes 8 scr) buf (unat (if 8 < count then 8 else count)))
      else Some scr)"

definition cachercise_io ::
  "'n net \<Rightarrow> procs \<Rightarrow> i64 \<Rightarrow> ptr \<Rightarrow> u8 list \<Rightarrow> u64 \<Rightarrow> i64 \<Rightarrow> i32 \<Rightarrow> 'n cworld
    \<Rightarrow> (i32 \<times> u8 list \<times> 'n cworld) option" where
  "cachercise_io N P scr handle buf count offset kind st = do {
     rh \<leftarrow> h_load handle (rhs st);
     scr \<leftarrow> io_scratch_in scr buf count kind;
     let inp = \<lparr>io_cache_id = rh_cache_id rh, io_count = count, io_offset = offset, io_scratch = scr,
                io_kind = scast kind\<rparr>;
     c \<leftarrow> h_load (rh_client rh) (clients st);
     (case margo_create N (rh_addr rh) (c_io_id c) (network st) of
        (None, n) \<Rightarrow> Some (ret_code CACHERCISE_ERR_FROM_MERCURY, buf, st\<lparr>network := n\<rparr>)
      | (Some h, n) \<Rightarrow> do {
          (ok, n) \<leftarrow> margo_provider_forward N (rh_provider_id rh) h (encode (hg_proc_io_in_t P) inp) n;
          if \<not> ok then Some (ret_code CACHERCISE_ERR_FROM_MERCURY, buf, st\<lparr>network := n\<rparr>)
          else case margo_get_output N h (\<lambda>b. decode (hg_proc_io_out_t P) b \<noteq> None) n of
              (None, n) \<Rightarrow> Some (ret_code CACHERCISE_ERR_FROM_MERCURY, buf, st\<lparr>network := n\<rparr>)
            | (Some b, n) \<Rightarrow> do {
                (out, r) \<leftarrow> decode (hg_proc_io_out_t P) b;
                if kind = CACHERCISE_READ
                then do {
                  let out = (if 8 < out_bytes out then out\<lparr>out_bytes := 8\<rparr> else out);
                  buf \<leftarrow> memcpy buf (le_bytes 8 (out_scratch out)) (unat (out_bytes out));
                  Some (ucast (out_bytes out), buf, st\<lparr>network := n\<rparr>) }
                else Some (ucast (out_bytes out), buf, st\<lparr>network := n\<rparr>) } }) }"

section \<open>The handles of the calls\<close>

text \<open>The handle and its client are allocated.\<close>

definition rh_ok :: "'n cworld \<Rightarrow> ptr \<Rightarrow> cachercise_cache_handle \<Rightarrow> cachercise_client \<Rightarrow> bool" where
  "rh_ok st handle rh c \<longleftrightarrow> h_load handle (rhs st) = Some rh \<and> h_load (rh_client rh) (clients st) = Some c"

context margo_net begin

text \<open>\<open>say_hello\<close> gives its handle back on every path.\<close>

lemma say_hello_releases:
  assumes "rh_ok st handle rh c"
  shows "\<exists>ret st'. cachercise_say_hello N P handle st = Some (ret, st') \<and> hs (network st') = hs (network st)"
proof (cases "margo_create N (rh_addr rh) (c_hello_id c) (network st)")
  case (Pair hp n1)
  show ?thesis
  proof (cases hp)
    case None
    with Pair assms create_none [of "rh_addr rh" "c_hello_id c"] show ?thesis
      by (auto simp: cachercise_say_hello_def rh_ok_def)
  next
    case (Some h)
    with Pair create_some [of "rh_addr rh" "c_hello_id c" "network st" h n1]
    have h: "hs (network st) h = None" "hs n1 = (hs (network st))(h \<mapsto> False)" by simp_all
    obtain r n2 where f: "margo_provider_forward N (rh_provider_id rh) h
        (encode (hg_proc_hello_in_t P) \<lparr>he_cache_id = rh_cache_id rh\<rparr>) n1 = Some (r, n2)"
      using forwards [of n1 h] h(2) by fastforce
    with forward h have n2: "hs n2 = (hs (network st))(h \<mapsto> False)" by metis
    from destroy_fresh [OF h(1) this] show ?thesis
      using Pair Some f assms by (auto simp: cachercise_say_hello_def rh_ok_def)
  qed
qed

text \<open>
  \<open>compute_sum\<close> gives its handle back when it gets an output; when forwarding fails,
  it frees an output it never got.
\<close>

lemma compute_sum_no_output:
  assumes "rh_ok st handle rh c"
    and "margo_create N (rh_addr rh) (c_sum_id c) (network st) = (Some h, n1)"
    and "margo_provider_forward N (rh_provider_id rh) h
        (encode (hg_proc_sum_in_t P) \<lparr>su_cache_id = rh_cache_id rh, su_x = x, su_y = y\<rparr>) n1 = Some (ok, n2)"
    and "ok \<longrightarrow> fst (margo_get_output N h (\<lambda>b. decode (hg_proc_sum_out_t P) b \<noteq> None) n2) = None"
  shows "cachercise_compute_sum N P handle x y st = None"
proof -
  have n2: "hs n2 h = Some False" using create_some [OF assms(2)] forward [OF assms(3)] by simp
  show ?thesis
  proof (cases ok)
    case False
    with assms(1-3) free_not_held [OF n2] show ?thesis
      by (simp add: cachercise_compute_sum_def rh_ok_def release_def)
  next
    case True
    then obtain n3 where o: "margo_get_output N h (\<lambda>b. decode (hg_proc_sum_out_t P) b \<noteq> None) n2 = (None, n3)"
      using assms(4) by (metis prod.collapse)
    then have "hs n3 h = Some False" using output_none n2 by metis
    with assms(1-3) True o free_not_held [of n3 h] show ?thesis
      by (simp add: cachercise_compute_sum_def rh_ok_def release_def)
  qed
qed

text \<open>\<open>cachercise_io\<close> never gives its handle back; a reply it has read stays held too.\<close>

lemma io_keeps_handle:
  assumes "rh_ok st handle rh c" and "margo_create N (rh_addr rh) (c_io_id c) (network st) = (Some h, n1)"
    and "cachercise_io N P scr handle buf count offset kind st = Some (ret, buf', st')"
  shows "\<exists>w ok n2. io_scratch_in scr buf count kind = Some w
    \<and> margo_provider_forward N (rh_provider_id rh) h (encode (hg_proc_io_in_t P)
        \<lparr>io_cache_id = rh_cache_id rh, io_count = count, io_offset = offset, io_scratch = w, io_kind = scast kind\<rparr>) n1
      = Some (ok, n2)
    \<and> hs (network st) h = None
    \<and> hs (network st') = (hs (network st))
        (h \<mapsto> ok \<and> fst (margo_get_output N h (\<lambda>b. decode (hg_proc_io_out_t P) b \<noteq> None) n2) \<noteq> None)"
proof -
  note h = create_some [OF assms(2)]
  from assms(1-3) obtain w r n2 where s: "io_scratch_in scr buf count kind = Some w" and
    f: "margo_provider_forward N (rh_provider_id rh) h (encode (hg_proc_io_in_t P)
      \<lparr>io_cache_id = rh_cache_id rh, io_count = count, io_offset = offset, io_scratch = w, io_kind = scast kind\<rparr>) n1
      = Some (r, n2)"
    and rest: "(if \<not> r then Some (ret_code CACHERCISE_ERR_FROM_MERCURY, buf, st\<lparr>network := n2\<rparr>)
          else case margo_get_output N h (\<lambda>b. decode (hg_proc_io_out_t P) b \<noteq> None) n2 of
              (None, n) \<Rightarrow> Some (ret_code CACHERCISE_ERR_FROM_MERCURY, buf, st\<lparr>network := n\<rparr>)
            | (Some b, n) \<Rightarrow> do {
                (out, r) \<leftarrow> decode (hg_proc_io_out_t P) b;
                if kind = CACHERCISE_READ
                then do {
                  let out = (if 8 < out_bytes out then out\<lparr>out_bytes := 8\<rparr> else out);
                  buf \<leftarrow> memcpy buf (le_bytes 8 (out_scratch out)) (unat (out_bytes out));
                  Some (ucast (out_bytes out), buf, st\<lparr>network := n\<rparr>) }
                else Some (ucast (out_bytes out), buf, st\<lparr>network := n\<rparr>) }) = Some (ret, buf', st')"
    by (simp only: cachercise_io_def rh_ok_def bind_Some_iff Let_def) (auto simp: bind_Some_iff Let_def)
  have n2: "hs n2 = (hs (network st))(h \<mapsto> False)" using h forward [OF f] by simp
  then have n2h: "hs n2 h = Some False" by simp
  have "hs (network st') = (hs (network st))
      (h \<mapsto> r \<and> fst (margo_get_output N h (\<lambda>b. decode (hg_proc_io_out_t P) b \<noteq> None) n2) \<noteq> None)"
  proof (cases "r \<and> fst (margo_get_output N h (\<lambda>b. decode (hg_proc_io_out_t P) b \<noteq> None) n2) \<noteq> None")
    case False
    then show ?thesis using rest n2
      by (auto split: prod.splits if_splits simp: output_none)
  next
    case True
    then obtain b n3 where o: "margo_get_output N h (\<lambda>b. decode (hg_proc_io_out_t P) b \<noteq> None) n2 = (Some b, n3)"
      by (cases "margo_get_output N h (\<lambda>b. decode (hg_proc_io_out_t P) b \<noteq> None) n2") auto
    from output_some [OF n2h o] n2 have "hs n3 = (hs (network st))(h \<mapsto> True)" by simp
    with True rest o show ?thesis
      by (auto simp: bind_Some_iff Let_def split: if_splits)
  qed
  with s f h(1) show ?thesis by blast
qed

end

end
