(* ===== verification/Client_Handles.thy ===== *)
theory Client_Handles
  imports Client
begin

text \<open>
  The reference counts of \<open>src/client.c\<close>: a step relation over the functions that
  create, share and release cache handles and make and finalise clients, its invariants,
  and the life of one handle.  A client that is finalised too early leaves orphans, handles
  whose client is gone; the code warns of them and frees the client all the same.
\<close>

section \<open>Steps\<close>

text \<open>The handles of a client.\<close>

definition rhs_of :: "'n cworld \<Rightarrow> addr \<Rightarrow> addr set" where
  "rhs_of st c = {h. \<exists>rh. cells (rhs st) h = Some rh \<and> rh_client rh = Some c}"

text \<open>
  What a program may do with the library, in any order: make clients and finalise them, with
  handles left or not, create, share and release handles.  \<open>cs_call\<close> stands for the requests,
  which only change the network.  The counters do not wrap around: a client has fewer than
  \<open>2 ^ 64\<close> handles and a handle fewer than \<open>2 ^ 64\<close> references.
\<close>

inductive cstep :: "'n net \<Rightarrow> 'n cworld \<Rightarrow> 'n cworld \<Rightarrow> bool" for N :: "'n net" where
  cs_init: "cachercise_client_init N m st = Some (r, c, st') \<Longrightarrow> cstep N st st'"
| cs_finalize: "cachercise_client_finalize c st = Some (r, st') \<Longrightarrow> cstep N st st'"
| cs_create: "(\<And>cl. h_load c (clients st) = Some cl \<Longrightarrow> c_num_cache_handles cl + 1 \<noteq> 0)
    \<Longrightarrow> cachercise_cache_handle_create N c a p i st = Some (r, h, st') \<Longrightarrow> cstep N st st'"
| cs_incr: "(\<And>rh. h_load h (rhs st) = Some rh \<Longrightarrow> rh_refcount rh + 1 \<noteq> 0)
    \<Longrightarrow> cachercise_cache_handle_ref_incr h st = Some (r, st') \<Longrightarrow> cstep N st st'"
| cs_release: "cachercise_cache_handle_release N h st = Some (r, st') \<Longrightarrow> cstep N st st'"
| cs_call: "cstep N st (st\<lparr>network := n\<rparr>)"

inductive creachable :: "'n net \<Rightarrow> 'n cworld \<Rightarrow> 'n cworld \<Rightarrow> bool" for N :: "'n net" and st0 :: "'n cworld" where
  cr_init: "creachable N st0 st0"
| cr_step: "creachable N st0 st \<Longrightarrow> cstep N st st' \<Longrightarrow> creachable N st0 st'"

section \<open>Invariants\<close>

text \<open>
  Every handle has a reference and a client that was allocated at some time, and the
  counter of each client that is allocated now is the number of its handles.
\<close>

definition counts_ok :: "'n cworld \<Rightarrow> bool" where
  "counts_ok st \<longleftrightarrow> heap_wf (clients st) \<and> heap_wf (rhs st)
     \<and> (\<forall>h rh. cells (rhs st) h = Some rh \<longrightarrow> rh_refcount rh \<noteq> 0
          \<and> (\<exists>c < brk (clients st). rh_client rh = Some c))
     \<and> (\<forall>c cl. cells (clients st) c = Some cl \<longrightarrow> unat (c_num_cache_handles cl) = card (rhs_of st c))"

text \<open>The handles whose client has been freed: their last release reads freed memory.\<close>

definition orphans :: "'n cworld \<Rightarrow> addr set" where
  "orphans st = {h. \<exists>rh c. cells (rhs st) h = Some rh \<and> rh_client rh = Some c \<and> cells (clients st) c = None}"

text \<open>
  The same for a program that has no such handles, with the counter modulo \<open>2 ^ 64\<close>; the
  programs keep to it.
\<close>

definition clients_ok :: "'n cworld \<Rightarrow> bool" where
  "clients_ok st \<longleftrightarrow> heap_wf (clients st) \<and> heap_wf (rhs st)
     \<and> (\<forall>h rh. cells (rhs st) h = Some rh \<longrightarrow> rh_refcount rh \<noteq> 0
          \<and> (\<exists>c. rh_client rh = Some c \<and> cells (clients st) c \<noteq> None))
     \<and> (\<forall>c cl. cells (clients st) c = Some cl \<longrightarrow> c_num_cache_handles cl = of_nat (card (rhs_of st c)))"

lemma clients_okD:
  assumes "clients_ok st"
  shows "heap_wf (clients st)" "heap_wf (rhs st)"
    and "cells (rhs st) h = Some rh \<Longrightarrow> rh_refcount rh \<noteq> 0"
    and "cells (rhs st) h = Some rh \<Longrightarrow> \<exists>c cl. rh_client rh = Some c \<and> cells (clients st) c = Some cl"
    and "cells (clients st) c = Some cl \<Longrightarrow> c_num_cache_handles cl = of_nat (card (rhs_of st c))"
  using assms unfolding clients_ok_def by blast+

lemma clients_okI:
  assumes "heap_wf (clients st)" and "heap_wf (rhs st)"
    and "\<And>h rh. cells (rhs st) h = Some rh \<Longrightarrow> rh_refcount rh \<noteq> 0"
    and "\<And>h rh. cells (rhs st) h = Some rh \<Longrightarrow> \<exists>c cl. rh_client rh = Some c \<and> cells (clients st) c = Some cl"
    and "\<And>c cl. cells (clients st) c = Some cl \<Longrightarrow> c_num_cache_handles cl = of_nat (card (rhs_of st c))"
  shows "clients_ok st"
  unfolding clients_ok_def using assms by blast

lemma finite_rhs_of: "heap_wf (rhs st) \<Longrightarrow> finite (rhs_of st c)"
  by (rule finite_subset [of _ "{..<brk (rhs st)}"]) (auto simp: rhs_of_def dest: heap_wf_less)

lemma finite_orphans: "heap_wf (rhs st) \<Longrightarrow> finite (orphans st)"
  by (rule finite_subset [of _ "{..<brk (rhs st)}"]) (auto simp: orphans_def dest: heap_wf_less)

text \<open>What the two have in common.\<close>

definition counted :: "'n cworld \<Rightarrow> bool" where
  "counted st \<longleftrightarrow> heap_wf (clients st) \<and> heap_wf (rhs st)
     \<and> (\<forall>h rh. cells (rhs st) h = Some rh \<longrightarrow> rh_refcount rh \<noteq> 0
          \<and> (\<exists>c < brk (clients st). rh_client rh = Some c))
     \<and> (\<forall>c cl. cells (clients st) c = Some cl \<longrightarrow> c_num_cache_handles cl = of_nat (card (rhs_of st c)))"

lemma countedD:
  assumes "counted st"
  shows "heap_wf (clients st)" "heap_wf (rhs st)"
    and "cells (rhs st) h = Some rh \<Longrightarrow> rh_refcount rh \<noteq> 0"
    and "cells (rhs st) h = Some rh \<Longrightarrow> \<exists>c < brk (clients st). rh_client rh = Some c"
    and "cells (clients st) c = Some cl \<Longrightarrow> c_num_cache_handles cl = of_nat (card (rhs_of st c))"
  using assms unfolding counted_def by blast+

lemma countedI:
  assumes "heap_wf (clients st)" and "heap_wf (rhs st)"
    and "\<And>h rh. cells (rhs st) h = Some rh \<Longrightarrow> rh_refcount rh \<noteq> 0 \<and> (\<exists>c < brk (clients st). rh_client rh = Some c)"
    and "\<And>c cl. cells (clients st) c = Some cl \<Longrightarrow> c_num_cache_handles cl = of_nat (card (rhs_of st c))"
  shows "counted st"
  unfolding counted_def using assms by blast

lemma clients_ok_iff: "clients_ok st \<longleftrightarrow> counted st \<and> orphans st = {}"
proof
  assume ok: "clients_ok st"
  have "counted st"
  proof (rule countedI)
    show "heap_wf (clients st)" "heap_wf (rhs st)" by (rule clients_okD [OF ok])+
    fix h rh assume h: "cells (rhs st) h = Some rh"
    from clients_okD(4) [OF ok h] heap_wf_less [OF clients_okD(1) [OF ok]] clients_okD(3) [OF ok h]
    show "rh_refcount rh \<noteq> 0 \<and> (\<exists>c < brk (clients st). rh_client rh = Some c)" by blast
  qed (rule clients_okD(5) [OF ok])
  moreover have "orphans st = {}" using clients_okD(4) [OF ok] by (fastforce simp: orphans_def)
  ultimately show "counted st \<and> orphans st = {}" ..
next
  assume "counted st \<and> orphans st = {}"
  then have ct: "counted st" and o: "orphans st = {}" by auto
  have "\<exists>c cl. rh_client rh = Some c \<and> cells (clients st) c = Some cl" if h: "cells (rhs st) h = Some rh" for h rh
  proof -
    obtain c where c: "rh_client rh = Some c" using countedD(4) [OF ct h] by blast
    have "h \<notin> orphans st" using o by simp
    then have "cells (clients st) c \<noteq> None" using h c by (simp add: orphans_def)
    with c show ?thesis by simp
  qed
  then show "clients_ok st" by (intro clients_okI countedD [OF ct])
qed

lemma counts_ok_iff:
  "counts_ok st \<longleftrightarrow> counted st \<and> (\<forall>c cl. cells (clients st) c = Some cl \<longrightarrow> card (rhs_of st c) < 2 ^ 64)"
proof -
  have "unat x = n \<longleftrightarrow> x = of_nat n \<and> n < 2 ^ 64" for x :: u64 and n
    using unsigned_less [of x] by (auto simp: unat_of_nat)
  then show ?thesis unfolding counts_ok_def counted_def by blast
qed

section \<open>The changes a function can make\<close>

text \<open>
  Clients and handles enter and leave, the counter of the client follows; each function of
  the library makes one of these moves.
\<close>

inductive moves :: "'n cworld \<Rightarrow> 'n cworld \<Rightarrow> bool" for st st' :: "'n cworld" where
  mv_none: "cells (clients st') = cells (clients st) \<Longrightarrow> brk (clients st) \<le> brk (clients st') \<Longrightarrow>
    cells (rhs st') = cells (rhs st) \<Longrightarrow> brk (rhs st) \<le> brk (rhs st') \<Longrightarrow> warnings st' = warnings st \<Longrightarrow> moves st st'"
| mv_client: "cells (clients st') = (cells (clients st))(brk (clients st) \<mapsto> x) \<Longrightarrow>
    brk (clients st') = Suc (brk (clients st)) \<Longrightarrow> c_num_cache_handles x = 0 \<Longrightarrow>
    rhs st' = rhs st \<Longrightarrow> warnings st' = warnings st \<Longrightarrow> moves st st'"
| mv_drop: "cells (clients st) c = Some cl \<Longrightarrow> cells (clients st') = (cells (clients st))(c := None) \<Longrightarrow>
    brk (clients st') = brk (clients st) \<Longrightarrow> rhs st' = rhs st \<Longrightarrow>
    warnings st' = warnings st @ (if c_num_cache_handles cl \<noteq> 0 then [c_num_cache_handles cl] else []) \<Longrightarrow> moves st st'"
| mv_enter: "cells (clients st) c = Some cl \<Longrightarrow> c_num_cache_handles cl + 1 \<noteq> 0 \<Longrightarrow>
    rh_client rh = Some c \<Longrightarrow> rh_refcount rh \<noteq> 0 \<Longrightarrow>
    cells (rhs st') = (cells (rhs st))(brk (rhs st) \<mapsto> rh) \<Longrightarrow> brk (rhs st') = Suc (brk (rhs st)) \<Longrightarrow>
    cells (clients st') = (cells (clients st))(c \<mapsto> cl\<lparr>c_num_cache_handles := c_num_cache_handles cl + 1\<rparr>) \<Longrightarrow>
    brk (clients st') = brk (clients st) \<Longrightarrow> warnings st' = warnings st \<Longrightarrow> moves st st'"
| mv_leave: "cells (clients st) c = Some cl \<Longrightarrow> rh_client rh = Some c \<Longrightarrow> cells (rhs st) h = Some rh \<Longrightarrow>
    cells (rhs st') = (cells (rhs st))(h := None) \<Longrightarrow> brk (rhs st') = brk (rhs st) \<Longrightarrow>
    cells (clients st') = (cells (clients st))(c \<mapsto> cl\<lparr>c_num_cache_handles := c_num_cache_handles cl - 1\<rparr>) \<Longrightarrow>
    brk (clients st') = brk (clients st) \<Longrightarrow> warnings st' = warnings st \<Longrightarrow> moves st st'"
| mv_refs: "cells (rhs st) h = Some rh \<Longrightarrow> n \<noteq> 0 \<Longrightarrow>
    cells (rhs st') = (cells (rhs st))(h \<mapsto> rh\<lparr>rh_refcount := n\<rparr>) \<Longrightarrow> brk (rhs st') = brk (rhs st) \<Longrightarrow>
    clients st' = clients st \<Longrightarrow> warnings st' = warnings st \<Longrightarrow> moves st st'"

lemma rhs_of_cong: "cells (rhs st') = cells (rhs st) \<Longrightarrow> rhs_of st' = rhs_of st"
  by (simp add: rhs_of_def fun_eq_iff)

lemma rhs_of_enter:
  assumes "cells (rhs st) (brk (rhs st)) = None" and "cells (rhs st') = (cells (rhs st))(brk (rhs st) \<mapsto> rh)"
    and "rh_client rh = Some c"
  shows "rhs_of st' d = (if d = c then insert (brk (rhs st)) (rhs_of st c) else rhs_of st d)"
  using assms by (auto simp: rhs_of_def)

lemma rhs_of_leave:
  assumes "cells (rhs st) h = Some rh" and "cells (rhs st') = (cells (rhs st))(h := None)" and "rh_client rh = Some c"
  shows "rhs_of st' d = (if d = c then rhs_of st c - {h} else rhs_of st d)"
  using assms by (auto simp: rhs_of_def)

lemma rhs_of_refs:
  assumes "cells (rhs st) h = Some rh" and "cells (rhs st') = (cells (rhs st))(h \<mapsto> rh\<lparr>rh_refcount := n\<rparr>)"
  shows "rhs_of st' = rhs_of st"
  using assms by (auto simp: rhs_of_def fun_eq_iff)

lemma rhs_of_fresh: "counted st \<Longrightarrow> brk (clients st) \<le> c \<Longrightarrow> rhs_of st c = {}"
  using countedD(4) by (fastforce simp: rhs_of_def)

lemma moves_counted:
  assumes "moves st st'" and ct: "counted st"
  shows "counted st'"
  using assms(1)
proof cases
  case mv_none
  show ?thesis
  proof (rule countedI)
    show "heap_wf (clients st')" "heap_wf (rhs st')"
      using countedD(1,2) [OF ct] mv_none by (auto simp: heap_wf_def)
    show "rh_refcount rh \<noteq> 0 \<and> (\<exists>c < brk (clients st'). rh_client rh = Some c)" if "cells (rhs st') h = Some rh" for h rh
      using countedD(3,4) [OF ct, of h rh] that mv_none by auto
    show "c_num_cache_handles cl = of_nat (card (rhs_of st' c))" if "cells (clients st') c = Some cl" for c cl
      using countedD(5) [OF ct, of c cl] that mv_none rhs_of_cong [of st' st] by simp
  qed
next
  case (mv_client x)
  have e: "rhs_of st (brk (clients st)) = {}" by (rule rhs_of_fresh [OF ct]) simp
  have o: "rhs_of st' = rhs_of st" by (rule rhs_of_cong) (simp add: mv_client)
  show ?thesis
  proof (rule countedI)
    show "heap_wf (clients st')" "heap_wf (rhs st')"
      using countedD(1,2) [OF ct] mv_client by (auto simp: heap_wf_def)
    show "rh_refcount rh \<noteq> 0 \<and> (\<exists>c < brk (clients st'). rh_client rh = Some c)" if "cells (rhs st') h = Some rh" for h rh
      using countedD(3,4) [OF ct, of h rh] that mv_client by auto
    show "c_num_cache_handles cl = of_nat (card (rhs_of st' c))" if "cells (clients st') c = Some cl" for c cl
      using countedD(5) [OF ct, of c cl] that mv_client(1,3) e by (simp add: o split: if_splits)
  qed
next
  case (mv_drop c cl)
  have o: "rhs_of st' = rhs_of st" by (rule rhs_of_cong) (simp add: mv_drop)
  show ?thesis
  proof (rule countedI)
    show "heap_wf (clients st')" "heap_wf (rhs st')"
      using countedD(1,2) [OF ct] mv_drop by (auto simp: heap_wf_def)
    show "rh_refcount rh \<noteq> 0 \<and> (\<exists>c < brk (clients st'). rh_client rh = Some c)" if "cells (rhs st') h = Some rh" for h rh
      using countedD(3,4) [OF ct, of h rh] that mv_drop by auto
    show "c_num_cache_handles y = of_nat (card (rhs_of st' d))" if "cells (clients st') d = Some y" for d y
      using countedD(5) [OF ct, of d y] that mv_drop(2) by (simp add: o split: if_splits)
  qed
next
  case (mv_enter c cl rh)
  have f: "cells (rhs st) (brk (rhs st)) = None" using countedD(2) [OF ct] by simp
  note o = rhs_of_enter [OF f mv_enter(5,3)]
  have n: "brk (rhs st) \<notin> rhs_of st c" using f by (simp add: rhs_of_def)
  have k: "of_nat (card (rhs_of st' c)) = c_num_cache_handles cl + 1"
    using countedD(5) [OF ct mv_enter(1)] finite_rhs_of [OF countedD(2) [OF ct], of c] n by (simp add: o)
  show ?thesis
  proof (rule countedI)
    show "heap_wf (clients st')" "heap_wf (rhs st')"
      using countedD(1,2) [OF ct] mv_enter by (auto simp: heap_wf_def)
    show "rh_refcount y \<noteq> 0 \<and> (\<exists>c < brk (clients st'). rh_client y = Some c)" if "cells (rhs st') h = Some y" for h y
      using countedD(3,4) [OF ct, of h y] that mv_enter heap_wf_less [OF countedD(1) [OF ct]]
      by (auto split: if_splits)
    show "c_num_cache_handles y = of_nat (card (rhs_of st' d))" if "cells (clients st') d = Some y" for d y
      using countedD(5) [OF ct, of d y] that k mv_enter(7) by (cases "d = c") (auto simp: o)
  qed
next
  case (mv_leave c cl rh h)
  note o = rhs_of_leave [OF mv_leave(3,4,2)]
  have n: "h \<in> rhs_of st c" using mv_leave by (simp add: rhs_of_def)
  have "card (rhs_of st c) = Suc (card (rhs_of st c - {h}))"
    by (rule card.remove [OF finite_rhs_of [OF countedD(2) [OF ct]] n])
  then have m: "c_num_cache_handles cl = of_nat (Suc (card (rhs_of st' c)))"
    unfolding o by (simp only: countedD(5) [OF ct mv_leave(1)] if_True refl)
  have k: "of_nat (card (rhs_of st' c)) = c_num_cache_handles cl - 1" unfolding m by simp
  show ?thesis
  proof (rule countedI)
    show "heap_wf (clients st')" "heap_wf (rhs st')"
      using countedD(1,2) [OF ct] mv_leave by (auto simp: heap_wf_def)
    show "rh_refcount y \<noteq> 0 \<and> (\<exists>c < brk (clients st'). rh_client y = Some c)" if "cells (rhs st') h' = Some y" for h' y
      using countedD(3,4) [OF ct, of h' y] that mv_leave by (auto split: if_splits)
    show "c_num_cache_handles y = of_nat (card (rhs_of st' d))" if "cells (clients st') d = Some y" for d y
      using countedD(5) [OF ct, of d y] that k mv_leave(6) by (cases "d = c") (auto simp: o)
  qed
next
  case (mv_refs h rh n)
  note o = rhs_of_refs [OF mv_refs(1,3)]
  show ?thesis
  proof (rule countedI)
    show "heap_wf (clients st')" "heap_wf (rhs st')"
      using countedD(1,2) [OF ct] mv_refs by (auto simp: heap_wf_def)
    show "rh_refcount y \<noteq> 0 \<and> (\<exists>c < brk (clients st'). rh_client y = Some c)" if "cells (rhs st') h' = Some y" for h' y
      using countedD(3,4) [OF ct, of h' y] countedD(4) [OF ct mv_refs(1)] that mv_refs by (auto split: if_splits)
    show "c_num_cache_handles y = of_nat (card (rhs_of st' d))" if "cells (clients st') d = Some y" for d y
      using countedD(5) [OF ct, of d y] that mv_refs(5) by (simp add: o)
  qed
qed

text \<open>Only the handles of a client that is freed become orphans.\<close>

lemma moves_orphans:
  assumes "moves st st'" and ct: "counted st"
  shows "\<exists>ws. warnings st' = warnings st @ ws
    \<and> (orphans st' \<subseteq> orphans st \<and> ws = []
       \<or> (\<exists>c cl. cells (clients st) c = Some cl \<and> cells (clients st') c = None
            \<and> orphans st' \<subseteq> orphans st \<union> rhs_of st c
            \<and> ws = (if c_num_cache_handles cl \<noteq> 0 then [c_num_cache_handles cl] else [])))"
  using assms(1)
proof cases
  case (mv_client x)
  have "cells (clients st) (brk (clients st)) = None" using countedD(1) [OF ct] by simp
  with mv_client countedD(4) [OF ct] show ?thesis by (fastforce simp: orphans_def split: if_splits)
next
  case (mv_drop c cl)
  then have "orphans st' \<subseteq> orphans st \<union> rhs_of st c" by (auto simp: orphans_def rhs_of_def split: if_splits)
  with mv_drop show ?thesis by (intro exI [of _ "if c_num_cache_handles cl \<noteq> 0 then [c_num_cache_handles cl] else []"]) auto
next
  case (mv_refs h rh n)
  then have "orphans st' \<subseteq> orphans st" by (auto simp: orphans_def split: if_splits)
  with mv_refs show ?thesis by simp
next
  case (mv_enter c cl rh)
  then have "orphans st' \<subseteq> orphans st" by (auto simp: orphans_def split: if_splits)
  with mv_enter show ?thesis by simp
next
  case (mv_leave c cl rh h)
  then have "orphans st' \<subseteq> orphans st" by (auto simp: orphans_def split: if_splits)
  with mv_leave show ?thesis by simp
qed (simp add: orphans_def)

text \<open>The exact counters are kept too: none wraps around.\<close>

lemma moves_counts_ok:
  assumes m: "moves st st'" and ok: "counts_ok st"
  shows "counts_ok st'"
proof -
  have ct: "counted st" and b: "\<And>c cl. cells (clients st) c = Some cl \<Longrightarrow> card (rhs_of st c) < 2 ^ 64"
    using ok unfolding counts_ok_iff by blast+
  note fin = finite_rhs_of [OF countedD(2) [OF ct]]
  have "card (rhs_of st' c) < 2 ^ 64" if c': "cells (clients st') c = Some y" for c y
    using m
  proof cases
    case mv_none
    then show ?thesis using b [of c y] c' rhs_of_cong [of st' st] by simp
  next
    case (mv_client x)
    then show ?thesis
      using b [of c y] c' rhs_of_cong [of st' st] rhs_of_fresh [OF ct, of c] by (cases "c = brk (clients st)") auto
  next
    case (mv_drop d cl)
    then show ?thesis using b [of c y] c' rhs_of_cong [of st' st] by (simp split: if_splits)
  next
    case (mv_enter d cl rh)
    have f: "cells (rhs st) (brk (rhs st)) = None" using countedD(2) [OF ct] by simp
    note o = rhs_of_enter [OF f mv_enter(5,3), of c]
    show ?thesis
    proof (cases "c = d")
      case True
      have "(of_nat (card (rhs_of st d)) :: u64) + 1 \<noteq> 0" using mv_enter(2) countedD(5) [OF ct mv_enter(1)] by simp
      then have z: "(of_nat (card (rhs_of st d) + 1) :: u64) \<noteq> 0" by (simp add: add.commute)
      have "card (rhs_of st d) + 1 \<noteq> 2 ^ 64"
      proof
        assume "card (rhs_of st d) + 1 = 2 ^ 64"
        with z have "(of_nat (2 ^ 64) :: u64) \<noteq> 0" by (simp only: not_False_eq_True)
        then show False by simp
      qed
      then show ?thesis using b [OF mv_enter(1)] fin [of d] o True card_insert_le_m1 [of _ "rhs_of st d"]
        by (simp add: card_insert_if)
    qed (use o b [of c y] c' mv_enter(7) in simp)
  next
    case (mv_leave d cl rh h)
    have "card (rhs_of st' c) \<le> card (rhs_of st c)"
      unfolding rhs_of_leave [OF mv_leave(3,4,2), of c] using card_mono [OF fin [of d], of "rhs_of st d - {h}"] by auto
    moreover have "cells (clients st) c \<noteq> None" using c' mv_leave(1,6) by (auto split: if_splits)
    ultimately show ?thesis using b [of c] by fastforce
  next
    case (mv_refs h rh n)
    then show ?thesis using b [of c y] c' rhs_of_refs [OF mv_refs(1,3)] by simp
  qed
  with moves_counted [OF m ct] show ?thesis unfolding counts_ok_iff by blast
qed

section \<open>Each function makes a move\<close>

lemma ref_incr_run:
  assumes "cells (rhs st) h = Some rh"
  shows "cachercise_cache_handle_ref_incr (Some h) st = Some (ret_code CACHERCISE_SUCCESS,
      st\<lparr>rhs := (rhs st)\<lparr>cells := (cells (rhs st))(h \<mapsto> rh\<lparr>rh_refcount := rh_refcount rh + 1\<rparr>)\<rparr>\<rparr>)"
  using assms by (simp add: cachercise_cache_handle_ref_incr_def)

lemma release_keep:
  assumes "cells (rhs st) h = Some rh" and "rh_refcount rh \<noteq> 1"
  shows "cachercise_cache_handle_release N (Some h) st = Some (ret_code CACHERCISE_SUCCESS,
      st\<lparr>rhs := (rhs st)\<lparr>cells := (cells (rhs st))(h \<mapsto> rh\<lparr>rh_refcount := rh_refcount rh - 1\<rparr>)\<rparr>\<rparr>)"
  using assms by (simp add: cachercise_cache_handle_release_def)

lemma release_last:
  assumes "cells (rhs st) h = Some rh" and "rh_refcount rh = 1" and "rh_client rh = Some c"
    and "cells (clients st) c = Some cl"
  shows "\<exists>st'. cachercise_cache_handle_release N (Some h) st = Some (ret_code CACHERCISE_SUCCESS, st')
    \<and> cells (rhs st') = (cells (rhs st))(h := None) \<and> brk (rhs st') = brk (rhs st)
    \<and> cells (clients st') = (cells (clients st))(c \<mapsto> cl\<lparr>c_num_cache_handles := c_num_cache_handles cl - 1\<rparr>)
    \<and> brk (clients st') = brk (clients st) \<and> warnings st' = warnings st
    \<and> network st' = margo_addr_free N (rh_addr rh) (network st)"
  using assms by (simp add: cachercise_cache_handle_release_def)

lemma init_moves:
  assumes r: "cachercise_client_init N m st = Some (ret, c, st')"
  shows "moves st st'" "rhs st' = rhs st"
    "\<And>d. cells (clients st) d \<noteq> None \<Longrightarrow> cells (clients st') d \<noteq> None"
proof -
  have "moves st st' \<and> rhs st' = rhs st \<and> (\<forall>d. cells (clients st) d \<noteq> None \<longrightarrow> cells (clients st') d \<noteq> None)"
  proof (cases "grants (clients st) (brk (clients st))")
    case False
    then have "st' = st\<lparr>clients := (clients st)\<lparr>brk := Suc (brk (clients st))\<rparr>\<rparr>"
      using r by (simp add: cachercise_client_init_def h_alloc_refused)
    then show ?thesis by (auto intro: mv_none)
  next
    case True
    then have "\<exists>x. cells (clients st') = (cells (clients st))(brk (clients st) \<mapsto> x)
        \<and> brk (clients st') = Suc (brk (clients st)) \<and> rhs st' = rhs st \<and> c_num_cache_handles x = 0
        \<and> warnings st' = warnings st"
      using r by (auto simp: cachercise_client_init_def h_alloc_granted zero_client_def Let_def
          case_prod_beta split: if_splits)
    then obtain x where "cells (clients st') = (cells (clients st))(brk (clients st) \<mapsto> x)"
      "brk (clients st') = Suc (brk (clients st))" "c_num_cache_handles x = 0" "rhs st' = rhs st"
      "warnings st' = warnings st" by blast
    from mv_client [OF this] this show ?thesis by auto
  qed
  then show "moves st st'" "rhs st' = rhs st"
    "\<And>d. cells (clients st) d \<noteq> None \<Longrightarrow> cells (clients st') d \<noteq> None" by blast+
qed

lemma finalize_moves:
  assumes r: "cachercise_client_finalize cp st = Some (ret, st')"
  shows "moves st st'"
proof -
  obtain c where cp: "cp = Some c" using r by (cases cp) (auto simp: cachercise_client_finalize_def)
  obtain cl where c: "cells (clients st) c = Some cl"
    using r cp by (cases "cells (clients st) c") (auto simp: cachercise_client_finalize_def)
  show ?thesis
    using r c unfolding cp
    by (intro mv_drop [of st c cl]) (auto simp: cachercise_client_finalize_def h_free_def Let_def split: if_splits)
qed

lemma create_moves:
  assumes wf: "heap_wf (rhs st)"
    and g: "\<And>cl. h_load cp (clients st) = Some cl \<Longrightarrow> c_num_cache_handles cl + 1 \<noteq> 0"
    and r: "cachercise_cache_handle_create N cp a p i st = Some (ret, h, st')"
  shows "moves st st'"
proof (cases "cp = NULL \<or> \<not> grants (rhs st) (brk (rhs st)) \<or> fst (margo_addr_dup N a (network st)) = NULL")
  case False
  then obtain c a' n where cp: "cp = Some c" and gr: "grants (rhs st) (brk (rhs st))"
    and d: "margo_addr_dup N a (network st) = (Some a', n)"
    by (cases "margo_addr_dup N a (network st)") auto
  with r obtain cl where c: "cells (clients st) c = Some cl"
    by (auto simp: cachercise_cache_handle_create_def h_alloc_granted bind_Some_iff)
  let ?rh = "\<lparr>rh_client = Some c, rh_addr = Some a', rh_provider_id = p, rh_refcount = 1, rh_cache_id = i\<rparr>"
  have "c_num_cache_handles cl + 1 \<noteq> 0" using g [of cl] cp c by simp
  then show ?thesis
    using r c gr d cp
    by (intro mv_enter [of st c cl ?rh]) (auto simp: cachercise_cache_handle_create_def h_alloc_granted zero_rh_def)
next
  case True
  then have "clients st' = clients st \<and> cells (rhs st') = cells (rhs st) \<and> brk (rhs st) \<le> brk (rhs st')
      \<and> warnings st' = warnings st"
    using r wf
    by (auto simp: cachercise_cache_handle_create_def h_alloc_def bind_Some_iff Let_def fun_upd_idem
        split: if_splits prod.splits option.splits)
  then show ?thesis by (intro mv_none) auto
qed

lemma incr_moves:
  assumes g: "\<And>rh. h_load hp (rhs st) = Some rh \<Longrightarrow> rh_refcount rh + 1 \<noteq> 0"
    and r: "cachercise_cache_handle_ref_incr hp st = Some (ret, st')"
  shows "moves st st'"
proof (cases hp)
  case None
  with r show ?thesis by (intro mv_none) (simp_all add: cachercise_cache_handle_ref_incr_def)
next
  case (Some a)
  with r obtain rh where rh: "cells (rhs st) a = Some rh"
    by (cases "cells (rhs st) a") (auto simp: cachercise_cache_handle_ref_incr_def)
  with g [of rh] Some have "rh_refcount rh + 1 \<noteq> 0" by simp
  with ref_incr_run [OF rh] r Some rh show ?thesis by (intro mv_refs [of st a rh "rh_refcount rh + 1"]) auto
qed

text \<open>The last release of an orphan reads its client, which is gone: such a release is no step.\<close>

lemma release_moves:
  assumes ct: "counted st" and r: "cachercise_cache_handle_release N hp st = Some (ret, st')"
  shows "moves st st'"
proof (cases hp)
  case None
  with r show ?thesis by (intro mv_none) (simp_all add: cachercise_cache_handle_release_def)
next
  case (Some h)
  with r obtain rh where h: "cells (rhs st) h = Some rh"
    by (cases "cells (rhs st) h") (auto simp: cachercise_cache_handle_release_def)
  show ?thesis
  proof (cases "rh_refcount rh = 1")
    case True
    obtain c where rc: "rh_client rh = Some c" using countedD(4) [OF ct h] by blast
    from r Some h True rc obtain cl where c: "cells (clients st) c = Some cl"
      by (cases "cells (clients st) c") (auto simp: cachercise_cache_handle_release_def)
    from release_last [OF h True rc c, of N] r Some rc c h show ?thesis
      by (intro mv_leave [of st c cl rh h]) auto
  next
    case False
    have "rh_refcount rh - 1 \<noteq> 0" using False by simp
    with release_keep [OF h False, of N] r Some h show ?thesis by (intro mv_refs [of st h rh "rh_refcount rh - 1"]) auto
  qed
qed

lemma cstep_moves: "cstep N st st' \<Longrightarrow> counted st \<Longrightarrow> moves st st'"
proof (induction rule: cstep.induct)
  case (cs_call st n)
  show ?case by (rule mv_none) simp_all
qed (auto intro: init_moves(1) finalize_moves create_moves [OF countedD(2)] incr_moves release_moves)

lemma orphan_last_release:
  assumes "h \<in> orphans st" and "h_load (Some h) (rhs st) = Some rh" and "rh_refcount rh = 1"
  shows "cachercise_cache_handle_release N (Some h) st = None"
proof -
  from assms(1,2) obtain c where "cells (rhs st) h = Some rh" "rh_client rh = Some c" "cells (clients st) c = None"
    unfolding orphans_def by fastforce
  with assms(3) show ?thesis by (simp add: cachercise_cache_handle_release_def)
qed

section \<open>Reachable states\<close>

lemma cstep_counts:
  assumes s: "cstep N st st'" and ok: "counts_ok st"
  shows "counts_ok st' \<and> (\<exists>ws. warnings st' = warnings st @ ws
    \<and> card (orphans st') \<le> card (orphans st) + sum_list (map unat ws))"
proof -
  have ct: "counted st" using ok unfolding counts_ok_iff by blast
  note m = cstep_moves [OF s ct]
  have fin: "finite (orphans st)" by (rule finite_orphans [OF countedD(2) [OF ct]])
  from moves_orphans [OF m ct] obtain ws where ws: "warnings st' = warnings st @ ws"
    "orphans st' \<subseteq> orphans st \<and> ws = []
       \<or> (\<exists>c cl. cells (clients st) c = Some cl \<and> orphans st' \<subseteq> orphans st \<union> rhs_of st c
            \<and> ws = (if c_num_cache_handles cl \<noteq> 0 then [c_num_cache_handles cl] else []))" by blast
  from ws(2) have "card (orphans st') \<le> card (orphans st) + sum_list (map unat ws)"
  proof (elim disjE conjE exE)
    assume "orphans st' \<subseteq> orphans st"
    from card_mono [OF fin this] show ?thesis by (rule trans_le_add1)
  next
    fix c cl assume c: "cells (clients st) c = Some cl" and o: "orphans st' \<subseteq> orphans st \<union> rhs_of st c"
      and w: "ws = (if c_num_cache_handles cl \<noteq> 0 then [c_num_cache_handles cl] else [])"
    have "card (orphans st') \<le> card (orphans st \<union> rhs_of st c)"
      using o fin finite_rhs_of [OF countedD(2) [OF ct], of c] by (intro card_mono) auto
    also have "\<dots> \<le> card (orphans st) + card (rhs_of st c)" by (rule card_Un_le)
    also have "card (rhs_of st c) = unat (c_num_cache_handles cl)"
      using ok c unfolding counts_ok_def by simp
    also have "\<dots> = sum_list (map unat ws)" by (simp add: w)
    finally show ?thesis by simp
  qed
  with moves_counts_ok [OF m ok] ws(1) show ?thesis by blast
qed

lemma creachable_counts:
  assumes "creachable N st0 st" and ok: "counts_ok st0" and o: "orphans st0 = {}"
  shows "counts_ok st \<and> (\<exists>ws. warnings st = warnings st0 @ ws \<and> card (orphans st) \<le> sum_list (map unat ws))"
  using assms(1)
proof (induction rule: creachable.induct)
  case cr_init
  then show ?case using ok o by simp
next
  case (cr_step st st')
  then obtain ws where ws: "counts_ok st" "warnings st = warnings st0 @ ws" "card (orphans st) \<le> sum_list (map unat ws)"
    by blast
  from cstep_counts [OF cr_step.hyps(2) ws(1)] obtain vs where
    "counts_ok st'" "warnings st' = warnings st @ vs" "card (orphans st') \<le> card (orphans st) + sum_list (map unat vs)"
    by blast
  with ws show ?case by (intro conjI exI [of _ "ws @ vs"]) auto
qed

text \<open>What the programs use.\<close>

lemma clients_ok_network: "clients_ok st \<Longrightarrow> clients_ok (st\<lparr>network := n\<rparr>)"
  by (simp add: clients_ok_def rhs_of_def)

lemma clients_ok_init:
  assumes ok: "clients_ok st" and r: "cachercise_client_init N m st = Some (ret, c, st')"
  shows "clients_ok st'"
proof -
  note ok = ok [unfolded clients_ok_iff]
  note I = init_moves [OF r]
  have "orphans st' \<subseteq> orphans st" using I(2,3) by (fastforce simp: orphans_def)
  with ok moves_counted [OF I(1)] show ?thesis unfolding clients_ok_iff by blast
qed

section \<open>The life of a handle\<close>

text \<open>A function called \<open>n\<close> times, its codes dropped.\<close>

fun repeat_op :: "nat \<Rightarrow> ('s \<Rightarrow> (i32 \<times> 's) option) \<Rightarrow> 's \<Rightarrow> 's option" where
  "repeat_op 0 f s = Some s"
| "repeat_op (Suc n) f s = do { (r, s) \<leftarrow> f s; repeat_op n f s }"

definition with_refs :: "'n cworld \<Rightarrow> addr \<Rightarrow> cachercise_cache_handle \<Rightarrow> u64 \<Rightarrow> 'n cworld" where
  "with_refs st h rh k = st\<lparr>rhs := (rhs st)\<lparr>cells := (cells (rhs st))(h \<mapsto> rh\<lparr>rh_refcount := k\<rparr>)\<rparr>\<rparr>"

lemma with_refs_simps [simp]:
  "cells (rhs (with_refs st h rh k)) h = Some (rh\<lparr>rh_refcount := k\<rparr>)"
  "clients (with_refs st h rh k) = clients st"
  "with_refs (with_refs st h rh k) h (rh\<lparr>rh_refcount := k\<rparr>) m = with_refs st h rh m"
  by (simp_all add: with_refs_def)

lemma with_refs_self: "cells (rhs st) h = Some rh \<Longrightarrow> with_refs st h rh (rh_refcount rh) = st"
  by (simp add: with_refs_def fun_upd_idem)

lemma incr_many:
  "repeat_op n (cachercise_cache_handle_ref_incr (Some h)) (with_refs st h rh k)
    = Some (with_refs st h rh (k + of_nat n))"
proof (induction n arbitrary: k)
  case (Suc n)
  have "cachercise_cache_handle_ref_incr (Some h) (with_refs st h rh k)
      = Some (ret_code CACHERCISE_SUCCESS, with_refs st h rh (k + 1))"
    using ref_incr_run [of "with_refs st h rh k" h] by (simp add: with_refs_def)
  with Suc.IH [of "k + 1"] show ?case by (simp add: add.assoc)
qed simp

lemma release_many:
  "n < unat k \<Longrightarrow> repeat_op n (cachercise_cache_handle_release N (Some h)) (with_refs st h rh k)
    = Some (with_refs st h rh (k - of_nat n))"
proof (induction n arbitrary: k)
  case (Suc n)
  have k: "k \<noteq> 1" using Suc.prems by auto
  have "cachercise_cache_handle_release N (Some h) (with_refs st h rh k)
      = Some (ret_code CACHERCISE_SUCCESS, with_refs st h rh (k - 1))"
    using release_keep [of "with_refs st h rh k" h] k by (simp add: with_refs_def)
  moreover have "unat (k - 1) = unat k - 1"
    using Suc.prems by (intro unat_minus_one) auto
  ultimately show ?case using Suc.IH [of "k - 1"] Suc.prems by (simp add: algebra_simps)
qed simp

text \<open>
  A handle with one reference that is shared \<open>n\<close> times survives \<open>n\<close> releases,
  which restore the state, and is freed by the next one.
\<close>

lemma handle_life:
  assumes h: "cells (rhs st) h = Some rh" and one: "rh_refcount rh = 1" and n: "n + 1 < 2 ^ 64"
    and c: "rh_client rh = Some c" "cells (clients st) c = Some cl"
  shows "\<exists>st1 st3. repeat_op n (cachercise_cache_handle_ref_incr (Some h)) st = Some st1
    \<and> repeat_op n (cachercise_cache_handle_release N (Some h)) st1 = Some st
    \<and> cachercise_cache_handle_release N (Some h) st = Some (ret_code CACHERCISE_SUCCESS, st3)
    \<and> cells (rhs st3) = (cells (rhs st))(h := None)
    \<and> cells (clients st3) = (cells (clients st))(c \<mapsto> cl\<lparr>c_num_cache_handles := c_num_cache_handles cl - 1\<rparr>)
    \<and> network st3 = margo_addr_free N (rh_addr rh) (network st)"
proof -
  let ?st1 = "with_refs st h rh (1 + of_nat n)"
  have self: "with_refs st h rh 1 = st" using with_refs_self [OF h] one by simp
  have 1: "repeat_op n (cachercise_cache_handle_ref_incr (Some h)) st = Some ?st1"
    using incr_many [of n h st rh 1] self by simp
  have "unat (of_nat (n + 1) :: u64) = n + 1"
    by (rule unat_of_nat_lt) (use n in simp)
  then have u: "unat (1 + of_nat n :: u64) = n + 1" by (simp add: add.commute)
  then have 2: "repeat_op n (cachercise_cache_handle_release N (Some h)) ?st1 = Some st"
    using release_many [of n "1 + of_nat n" N h st rh] self u by simp
  from release_last [OF h one c, of N] 1 2 show ?thesis by blast
qed

section \<open>Only the network changes\<close>

definition only_net :: "'n cworld \<Rightarrow> 'n cworld \<Rightarrow> bool" where
  "only_net st st' \<longleftrightarrow> st' = st\<lparr>network := network st'\<rparr>"

lemma only_net_simps [simp]: "only_net st st" "only_net st (st\<lparr>network := n\<rparr>)"
  by (simp_all add: only_net_def)

lemma only_net_trans [trans]: "only_net st st1 \<Longrightarrow> only_net st1 st2 \<Longrightarrow> only_net st st2"
  unfolding only_net_def by (metis cworld.update_convs(3) cworld.cases_scheme cworld.select_convs(3))

lemma only_netD:
  assumes "only_net st st'"
  shows "clients st' = clients st" "rhs st' = rhs st" "warnings st' = warnings st"
proof -
  from assms have e: "st' = st\<lparr>network := network st'\<rparr>" by (simp add: only_net_def)
  show "clients st' = clients st" "rhs st' = rhs st" "warnings st' = warnings st" by (subst e, simp)+
qed

lemma io_only_net:
  assumes r: "cachercise_io N P scr handle buf cnt off kind st = Some (r, b, st')"
  shows "only_net st st'"
proof -
  obtain rh where rh: "h_load handle (rhs st) = Some rh"
    using r by (cases "h_load handle (rhs st)") (simp_all add: cachercise_io_def)
  obtain x where x: "io_scratch_in scr buf cnt kind = Some x"
    using r rh by (cases "io_scratch_in scr buf cnt kind") (simp_all add: cachercise_io_def)
  obtain c where c: "h_load (rh_client rh) (clients st) = Some c"
    using r rh x by (cases "h_load (rh_client rh) (clients st)") (simp_all add: cachercise_io_def)
  note u = cachercise_io_def rh x c
  obtain hp n where cr: "margo_create N (rh_addr rh) (c_io_id c) (network st) = (hp, n)" by fastforce
  show ?thesis
  proof (cases hp)
    case (Some h)
    let ?f = "margo_provider_forward N (rh_provider_id rh) h (encode (hg_proc_io_in_t P)
        \<lparr>io_cache_id = rh_cache_id rh, io_count = cnt, io_offset = off, io_scratch = x, io_kind = scast kind\<rparr>) n"
    obtain ok n1 where f: "?f = Some (ok, n1)"
      using r cr Some by (cases ?f) (auto simp: u)
    obtain bp n2 where o: "margo_get_output N h (\<lambda>b. decode (hg_proc_io_out_t P) b \<noteq> None) n1 = (bp, n2)"
      by fastforce
    show ?thesis
      using r cr Some f o
      by (cases ok; cases bp) (auto simp: u bind_Some_iff Let_def split: if_split_asm)
  qed (use r cr in \<open>auto simp: u\<close>)
qed

end
