(* ===== verification/Admin.thy ===== *)
theory Admin
  imports Net
begin

text \<open>
  The admin library, \<open>src/admin.c\<close> and \<open>src/admin.h\<close>.  The five operations run the
  sequence \<open>rpc\<close> and, when it has an output, free the output and the handle before
  they return.  An id the caller receives is the second component of a result,
  \<open>None\<close> where \<open>*id\<close> is not written.
\<close>

section \<open>State\<close>

record cachercise_admin =
  ad_mid :: ptr
  ad_create_cache_id :: hg_id_t
  ad_open_cache_id :: hg_id_t
  ad_close_cache_id :: hg_id_t
  ad_destroy_cache_id :: hg_id_t
  ad_list_caches_id :: hg_id_t

record 'n aworld =
  admins :: "cachercise_admin heap"
  anet :: 'n

definition zero_admin :: cachercise_admin where
  "zero_admin = \<lparr>ad_mid = NULL, ad_create_cache_id = 0, ad_open_cache_id = 0, ad_close_cache_id = 0,
     ad_destroy_cache_id = 0, ad_list_caches_id = 0\<rparr>"

text \<open>The ids of the five RPCs: looked up when the first is registered, registered otherwise.\<close>

definition admin_ids :: "'n net \<Rightarrow> ptr \<Rightarrow> 'n \<Rightarrow> cachercise_admin \<times> 'n" where
  "admin_ids N m n =
     (if snd (margo_registered_name N ''cachercise_create_cache'' n)
      then (\<lparr>ad_mid = m, ad_create_cache_id = fst (margo_registered_name N ''cachercise_create_cache'' n),
             ad_open_cache_id = fst (margo_registered_name N ''cachercise_open_cache'' n),
             ad_close_cache_id = fst (margo_registered_name N ''cachercise_close_cache'' n),
             ad_destroy_cache_id = fst (margo_registered_name N ''cachercise_destroy_cache'' n),
             ad_list_caches_id = fst (margo_registered_name N ''cachercise_list_caches'' n)\<rparr>, n)
      else let (c, n) = MARGO_REGISTER N ''cachercise_create_cache'' n;
               (p, n) = MARGO_REGISTER N ''cachercise_open_cache'' n;
               (l, n) = MARGO_REGISTER N ''cachercise_close_cache'' n;
               (d, n) = MARGO_REGISTER N ''cachercise_destroy_cache'' n;
               (i, n) = MARGO_REGISTER N ''cachercise_list_caches'' n
           in (\<lparr>ad_mid = m, ad_create_cache_id = c, ad_open_cache_id = p, ad_close_cache_id = l,
                ad_destroy_cache_id = d, ad_list_caches_id = i\<rparr>, n))"

definition cachercise_admin_init :: "'n net \<Rightarrow> ptr \<Rightarrow> 'n aworld \<Rightarrow> (i32 \<times> ptr \<times> 'n aworld) option" where
  "cachercise_admin_init N m st =
     (let (a, as) = h_alloc zero_admin (admins st); st = st\<lparr>admins := as\<rparr> in
      if a = NULL then Some (ret_code CACHERCISE_ERR_ALLOCATION, NULL, st)
      else do {
        let (ids, n) = admin_ids N m (anet st);
        as \<leftarrow> h_update a (\<lambda>_. ids) as;
        Some (ret_code CACHERCISE_SUCCESS, a, st\<lparr>admins := as, anet := n\<rparr>) })"

definition cachercise_admin_finalize :: "ptr \<Rightarrow> 'n aworld \<Rightarrow> (i32 \<times> 'n aworld) option" where
  "cachercise_admin_finalize admin st = do {
     as \<leftarrow> h_free admin (admins st);
     Some (ret_code CACHERCISE_SUCCESS, st\<lparr>admins := as\<rparr>) }"

section \<open>Operations\<close>

definition cachercise_create_cache ::
  "'n net \<Rightarrow> procs \<Rightarrow> ptr \<Rightarrow> ptr \<Rightarrow> u16 \<Rightarrow> string option \<Rightarrow> string option \<Rightarrow> string option \<Rightarrow> 'n aworld
    \<Rightarrow> (i32 \<times> cachercise_cache_id_t option \<times> 'n aworld) option" where
  "cachercise_create_cache N P admin address provider_id token type config st = do {
     let inp = \<lparr>cc_type = type, cc_config = config, cc_token = token\<rparr>;
     a \<leftarrow> h_load admin (admins st);
     (r, n) \<leftarrow> rpc N address (ad_create_cache_id a) provider_id (encode (hg_proc_create_cache_in_t P) inp)
                (\<lambda>b. map_option fst (decode (hg_proc_create_cache_out_t P) b)) (anet st);
     (case r of
        None \<Rightarrow> Some (ret_code CACHERCISE_ERR_FROM_MERCURY, None, st\<lparr>anet := n\<rparr>)
      | Some (h, out) \<Rightarrow> do {
          n \<leftarrow> release N h n;
          Some (cc_ret out, if cc_ret out = ret_code CACHERCISE_SUCCESS then Some (cc_id out) else None,
                st\<lparr>anet := n\<rparr>) }) }"

definition cachercise_open_cache ::
  "'n net \<Rightarrow> procs \<Rightarrow> ptr \<Rightarrow> ptr \<Rightarrow> u16 \<Rightarrow> string option \<Rightarrow> string option \<Rightarrow> string option \<Rightarrow> 'n aworld
    \<Rightarrow> (i32 \<times> cachercise_cache_id_t option \<times> 'n aworld) option" where
  "cachercise_open_cache N P admin address provider_id token type config st = do {
     let inp = \<lparr>oc_type = type, oc_config = config, oc_token = token\<rparr>;
     a \<leftarrow> h_load admin (admins st);
     (r, n) \<leftarrow> rpc N address (ad_open_cache_id a) provider_id (encode (hg_proc_open_cache_in_t P) inp)
                (\<lambda>b. map_option fst (decode (hg_proc_open_cache_out_t P) b)) (anet st);
     (case r of
        None \<Rightarrow> Some (ret_code CACHERCISE_ERR_FROM_MERCURY, None, st\<lparr>anet := n\<rparr>)
      | Some (h, out) \<Rightarrow> do {
          n \<leftarrow> release N h n;
          Some (oc_ret out, if oc_ret out = ret_code CACHERCISE_SUCCESS then Some (oc_id out) else None,
                st\<lparr>anet := n\<rparr>) }) }"

definition cachercise_close_cache ::
  "'n net \<Rightarrow> procs \<Rightarrow> ptr \<Rightarrow> ptr \<Rightarrow> u16 \<Rightarrow> string option \<Rightarrow> cachercise_cache_id_t \<Rightarrow> 'n aworld
    \<Rightarrow> (i32 \<times> 'n aworld) option" where
  "cachercise_close_cache N P admin address provider_id token uid st = do {
     let inp = \<lparr>cl_token = token, cl_id = uid\<rparr>;
     a \<leftarrow> h_load admin (admins st);
     (r, n) \<leftarrow> rpc N address (ad_close_cache_id a) provider_id (encode (hg_proc_close_cache_in_t P) inp)
                (\<lambda>b. map_option fst (decode (hg_proc_close_cache_out_t P) b)) (anet st);
     (case r of
        None \<Rightarrow> Some (ret_code CACHERCISE_ERR_FROM_MERCURY, st\<lparr>anet := n\<rparr>)
      | Some (h, out) \<Rightarrow> do { n \<leftarrow> release N h n; Some (cl_ret out, st\<lparr>anet := n\<rparr>) }) }"

definition cachercise_destroy_cache ::
  "'n net \<Rightarrow> procs \<Rightarrow> ptr \<Rightarrow> ptr \<Rightarrow> u16 \<Rightarrow> string option \<Rightarrow> cachercise_cache_id_t \<Rightarrow> 'n aworld
    \<Rightarrow> (i32 \<times> 'n aworld) option" where
  "cachercise_destroy_cache N P admin address provider_id token uid st = do {
     let inp = \<lparr>ds_token = token, ds_id = uid\<rparr>;
     a \<leftarrow> h_load admin (admins st);
     (r, n) \<leftarrow> rpc N address (ad_destroy_cache_id a) provider_id (encode (hg_proc_destroy_cache_in_t P) inp)
                (\<lambda>b. map_option fst (decode (hg_proc_destroy_cache_out_t P) b)) (anet st);
     (case r of
        None \<Rightarrow> Some (ret_code CACHERCISE_ERR_FROM_MERCURY, st\<lparr>anet := n\<rparr>)
      | Some (h, out) \<Rightarrow> do { n \<leftarrow> release N h n; Some (ds_ret out, st\<lparr>anet := n\<rparr>) }) }"

text \<open>
  \<open>ids\<close> is the array of the caller, \<open>*count\<close> its announced length; \<open>granted\<close> is the
  outcome of the \<open>calloc\<close> in the proc of the reply.  The ids are copied as bytes.
\<close>

definition copy_ids ::
  "cachercise_cache_id_t list \<Rightarrow> cachercise_cache_id_t list option \<Rightarrow> u64
    \<Rightarrow> cachercise_cache_id_t list option" where
  "copy_ids ids src count =
     (let n = unat (count * 16) in
      case src of
        None \<Rightarrow> if n = 0 then Some ids else None
      | Some src \<Rightarrow> map_option (ids_of_bytes (length ids)) (memcpy (ids_bytes ids) (ids_bytes src) n))"

definition cachercise_list_caches ::
  "'n net \<Rightarrow> procs \<Rightarrow> bool \<Rightarrow> ptr \<Rightarrow> ptr \<Rightarrow> u16 \<Rightarrow> string option \<Rightarrow> cachercise_cache_id_t list \<Rightarrow> u64
    \<Rightarrow> 'n aworld \<Rightarrow> (i32 \<times> cachercise_cache_id_t list \<times> u64 \<times> 'n aworld) option" where
  "cachercise_list_caches N P granted admin address provider_id token ids count st = do {
     let inp = \<lparr>li_token = token, li_max_ids = count\<rparr>;
     a \<leftarrow> h_load admin (admins st);
     (r, n) \<leftarrow> rpc N address (ad_list_caches_id a) provider_id (encode (hg_proc_list_caches_in_t P) inp)
                (\<lambda>b. map_option fst (decode_list_caches_out_t P granted b)) (anet st);
     (case r of
        None \<Rightarrow> Some (ret_code CACHERCISE_ERR_FROM_MERCURY, ids, count, st\<lparr>anet := n\<rparr>)
      | Some (h, out) \<Rightarrow> do {
          (ids, count) \<leftarrow>
            (if lo_ret out = ret_code CACHERCISE_SUCCESS
             then map_option (\<lambda>ids. (ids, lo_count out)) (copy_ids ids (lo_ids out) (lo_count out))
             else Some (ids, count));
          n \<leftarrow> release N h n;
          Some (lo_ret out, ids, count, st\<lparr>anet := n\<rparr>) }) }"

section \<open>The handles of the calls\<close>

text \<open>
  The four operations that return a code or an id give back the RPC handle and the
  output on every path.
\<close>

context margo_net begin

lemma admin_calls_release:
  assumes ad: "h_load admin (admins st) = Some a"
  shows "\<exists>r i st'. cachercise_create_cache N P admin addr p token type config st = Some (r, i, st')
      \<and> hs (anet st') = hs (anet st)"
    and "\<exists>r i st'. cachercise_open_cache N P admin addr p token type config st = Some (r, i, st')
      \<and> hs (anet st') = hs (anet st)"
    and "\<exists>r st'. cachercise_close_cache N P admin addr p token uid st = Some (r, st')
      \<and> hs (anet st') = hs (anet st)"
    and "\<exists>r st'. cachercise_destroy_cache N P admin addr p token uid st = Some (r, st')
      \<and> hs (anet st') = hs (anet st)"
proof -
  let ?ci = "\<lparr>cc_type = type, cc_config = config, cc_token = token\<rparr>"
  and ?oi = "\<lparr>oc_type = type, oc_config = config, oc_token = token\<rparr>"
  and ?li = "\<lparr>cl_token = token, cl_id = uid\<rparr>" and ?di = "\<lparr>ds_token = token, ds_id = uid\<rparr>"
  show "\<exists>r i st'. cachercise_create_cache N P admin addr p token type config st = Some (r, i, st')
      \<and> hs (anet st') = hs (anet st)"
    by (rule rpc_then_release [of addr "ad_create_cache_id a" p
          "encode (hg_proc_create_cache_in_t P) ?ci"
          "\<lambda>b. map_option fst (decode (hg_proc_create_cache_out_t P) b)" "anet st"])
      (simp_all add: cachercise_create_cache_def ad)
  show "\<exists>r i st'. cachercise_open_cache N P admin addr p token type config st = Some (r, i, st')
      \<and> hs (anet st') = hs (anet st)"
    by (rule rpc_then_release [of addr "ad_open_cache_id a" p
          "encode (hg_proc_open_cache_in_t P) ?oi"
          "\<lambda>b. map_option fst (decode (hg_proc_open_cache_out_t P) b)" "anet st"])
      (simp_all add: cachercise_open_cache_def ad)
  show "\<exists>r st'. cachercise_close_cache N P admin addr p token uid st = Some (r, st')
      \<and> hs (anet st') = hs (anet st)"
    by (rule rpc_then_release [of addr "ad_close_cache_id a" p
          "encode (hg_proc_close_cache_in_t P) ?li"
          "\<lambda>b. map_option fst (decode (hg_proc_close_cache_out_t P) b)" "anet st"])
      (simp_all add: cachercise_close_cache_def ad)
  show "\<exists>r st'. cachercise_destroy_cache N P admin addr p token uid st = Some (r, st')
      \<and> hs (anet st') = hs (anet st)"
    by (rule rpc_then_release [of addr "ad_destroy_cache_id a" p
          "encode (hg_proc_destroy_cache_in_t P) ?di"
          "\<lambda>b. map_option fst (decode (hg_proc_destroy_cache_out_t P) b)" "anet st"])
      (simp_all add: cachercise_destroy_cache_def ad)
qed

text \<open>A listing gives them back whenever it returns.\<close>

lemma list_caches_releases:
  assumes r: "cachercise_list_caches N P granted admin addr p token ids count st = Some (ret, ids', count', st')"
  shows "hs (anet st') = hs (anet st)"
proof -
  from r obtain a where ad: "h_load admin (admins st) = Some a"
    by (auto simp: cachercise_list_caches_def bind_Some_iff)
  show ?thesis
    by (rule rpc_then_release [of addr "ad_list_caches_id a" p
          "encode (hg_proc_list_caches_in_t P) \<lparr>li_token = token, li_max_ids = count\<rparr>"
          "\<lambda>b. map_option fst (decode_list_caches_out_t P granted b)" "anet st"])
      (use r ad in \<open>auto simp: cachercise_list_caches_def bind_Some_iff split: if_splits\<close>)
qed

end

end
