(* ===== verification/Loopback.thy ===== *)
theory Loopback
  imports Client_Handles Admin Dummy_System
begin

text \<open>
  A margo that connects the client side to a server: an instance of the interface
  \<open>net\<close> whose state holds the server, the RPCs registered there and the RPC
  handles of the callers.  A call takes the path of the program: the input is
  encoded, sent to the handler that is registered for its id and provider, decoded,
  served, and the reply comes back the same way.
\<close>

section \<open>State\<close>

record lp_call =
  lc_id :: hg_id_t
  lc_reply :: "u8 list option"
  lc_held :: bool

text \<open>
  \<open>lp_up\<close> is false once the server has died in a handler.  \<open>lp_calls\<close> are the
  handles ever created, \<open>None\<close> after their destruction.  \<open>lp_uuids\<close> is the source
  of \<open>uuid_generate\<close>, read at \<open>lp_clock\<close>.
\<close>

record 'w loop =
  lp_server :: "'w server"
  lp_up :: bool
  lp_regs :: "hg_id_t \<rightharpoonup> rpc_handler \<times> ptr \<times> bool"
  lp_calls :: "lp_call option list"
  lp_names :: "string list"
  lp_uuids :: "nat \<Rightarrow> cachercise_cache_id_t"
  lp_clock :: nat

text \<open>
  The procs, the id of an RPC name, how a provider id enters it, the outcome of the
  \<open>calloc\<close> of a listing, and what the variable \<open>out\<close> of each handler holds when it
  starts.
\<close>

record lp_env =
  le_procs :: procs
  le_id :: "string \<Rightarrow> hg_id_t"
  le_mux :: "hg_id_t \<Rightarrow> u16 \<Rightarrow> hg_id_t"
  le_calloc :: bool
  le_create :: create_cache_out_t
  le_open :: open_cache_out_t
  le_close :: close_cache_out_t
  le_destroy :: destroy_cache_out_t
  le_list :: list_caches_out_t
  le_sum :: sum_out_t
  le_io :: io_out_t

section \<open>From bytes to a request and back\<close>

fun request_of :: "lp_env \<Rightarrow> cachercise_cache_id_t \<Rightarrow> rpc_handler \<Rightarrow> u8 list \<Rightarrow> request" where
  "request_of E u H_create b = ReqCreate (map_option fst (decode (hg_proc_create_cache_in_t (le_procs E)) b)) (le_create E) u"
| "request_of E u H_open b = ReqOpen (map_option fst (decode (hg_proc_open_cache_in_t (le_procs E)) b)) (le_open E) u"
| "request_of E u H_close b = ReqClose (map_option fst (decode (hg_proc_close_cache_in_t (le_procs E)) b)) (le_close E)"
| "request_of E u H_destroy b = ReqDestroy (map_option fst (decode (hg_proc_destroy_cache_in_t (le_procs E)) b)) (le_destroy E)"
| "request_of E u H_list b = ReqList (map_option fst (decode (hg_proc_list_caches_in_t (le_procs E)) b)) (le_list E) (le_calloc E)"
| "request_of E u H_hello b = ReqHello (map_option fst (decode (hg_proc_hello_in_t (le_procs E)) b))"
| "request_of E u H_sum b = ReqSum (map_option fst (decode (hg_proc_sum_in_t (le_procs E)) b)) (le_sum E)"
| "request_of E u H_io b = ReqIo (map_option fst (decode (hg_proc_io_in_t (le_procs E)) b)) (le_io E)"

fun reply_of :: "lp_env \<Rightarrow> response \<Rightarrow> u8 list option" where
  "reply_of E (RespCreate out) = Some (encode (hg_proc_create_cache_out_t (le_procs E)) out)"
| "reply_of E (RespOpen out) = Some (encode (hg_proc_open_cache_out_t (le_procs E)) out)"
| "reply_of E (RespClose out) = Some (encode (hg_proc_close_cache_out_t (le_procs E)) out)"
| "reply_of E (RespDestroy out) = Some (encode (hg_proc_destroy_cache_out_t (le_procs E)) out)"
| "reply_of E (RespList out) = encode_list_caches_out_t (le_procs E) out"
| "reply_of E RespHello = Some []"
| "reply_of E (RespSum out) = Some (encode (hg_proc_sum_out_t (le_procs E)) out)"
| "reply_of E (RespIo out) = Some (encode (hg_proc_io_out_t (le_procs E)) out)"

section \<open>The network\<close>

definition get_call :: "'w loop \<Rightarrow> nat \<Rightarrow> lp_call option" where
  "get_call n h = (if h < length (lp_calls n) then lp_calls n ! h else None)"

definition set_call :: "nat \<Rightarrow> lp_call option \<Rightarrow> 'w loop \<Rightarrow> 'w loop" where
  "set_call h x n = n\<lparr>lp_calls := (lp_calls n)[h := x]\<rparr>"

definition loop_hs :: "'w loop \<Rightarrow> nat \<rightharpoonup> bool" where
  "loop_hs n = (\<lambda>h. map_option lc_held (get_call n h))"

text \<open>What the server does with a message; \<open>None\<close>: it does not survive it.\<close>

definition loop_serve :: "lp_env \<Rightarrow> rpc_handler \<Rightarrow> ptr \<Rightarrow> u8 list \<Rightarrow> 'w loop \<Rightarrow> (u8 list \<times> 'w loop) option" where
  "loop_serve E hn q b n =
     (if q \<noteq> self (lp_server n) then None
      else do {
        (resp, sv) \<leftarrow> serve (request_of E (lp_uuids n (lp_clock n)) hn b) (lp_server n);
        r \<leftarrow> reply_of E resp;
        Some (r, n\<lparr>lp_server := sv, lp_clock := Suc (lp_clock n)\<rparr>) })"

definition loop_forward :: "lp_env \<Rightarrow> u16 \<Rightarrow> nat \<Rightarrow> u8 list \<Rightarrow> 'w loop \<Rightarrow> (bool \<times> 'w loop) option" where
  "loop_forward E p h b n = do {
     x \<leftarrow> get_call n h;
     (if \<not> lp_up n then Some (False, n)
      else case lp_regs n (le_mux E (lc_id x) p) of
          None \<Rightarrow> Some (False, n)
        | Some (hn, q, dis) \<Rightarrow>
            (case loop_serve E hn q b n of
               None \<Rightarrow> Some (False, n\<lparr>lp_up := False\<rparr>)
             | Some (r, n) \<Rightarrow> Some (True, set_call h (Some (x\<lparr>lc_reply := if dis then None else Some r\<rparr>)) n))) }"

definition loopback :: "lp_env \<Rightarrow> 'w loop net" where
  "loopback E =
     \<lparr>margo_addr_dup = (\<lambda>a n. (a, n)),
      margo_addr_free = (\<lambda>a n. n),
      margo_registered_name = (\<lambda>s n. (le_id E s, s \<in> set (lp_names n))),
      MARGO_REGISTER = (\<lambda>s n. (le_id E s, n\<lparr>lp_names := s # lp_names n\<rparr>)),
      margo_disable_response = (\<lambda>i n. n),
      margo_create = (\<lambda>a i n. (Some (length (lp_calls n)),
        n\<lparr>lp_calls := lp_calls n @ [Some \<lparr>lc_id = i, lc_reply = None, lc_held = False\<rparr>]\<rparr>)),
      margo_provider_forward = loop_forward E,
      margo_get_output = (\<lambda>h q n. case get_call n h of
          None \<Rightarrow> (None, n)
        | Some x \<Rightarrow> (case lc_reply x of
              None \<Rightarrow> (None, n)
            | Some b \<Rightarrow> if q b then (Some b, set_call h (Some (x\<lparr>lc_held := True\<rparr>)) n) else (None, n))),
      margo_free_output = (\<lambda>h n. do {
        x \<leftarrow> get_call n h;
        if lc_held x then Some (set_call h (Some (x\<lparr>lc_held := False\<rparr>)) n) else None }),
      margo_destroy = (\<lambda>h n. do {
        x \<leftarrow> get_call n h;
        if lc_held x then Some n else Some (set_call h None n) })\<rparr>"

lemma get_call_set: "h < length (lp_calls n) \<Longrightarrow> get_call (set_call h x n) k = (if k = h then x else get_call n k)"
  by (simp add: get_call_def set_call_def)

lemma get_call_less: "get_call n h = Some x \<Longrightarrow> h < length (lp_calls n)"
  by (simp add: get_call_def split: if_splits)

lemma loop_hs_set:
  "h < length (lp_calls n) \<Longrightarrow> loop_hs (set_call h x n) = (loop_hs n)(h := map_option lc_held x)"
  by (rule ext) (simp add: loop_hs_def get_call_set)

lemma loop_hs_world: "lp_calls n' = lp_calls n \<Longrightarrow> loop_hs n' = loop_hs n"
  by (simp add: loop_hs_def get_call_def fun_eq_iff)

lemma loop_serve_calls: "loop_serve E hn q b n = Some (r, n') \<Longrightarrow> lp_calls n' = lp_calls n"
  by (auto simp: loop_serve_def bind_Some_iff split: if_splits)

lemma loop_forward_hs:
  assumes "loop_forward E p h b n = Some (r, n')"
  shows "loop_hs n' = loop_hs n"
proof -
  obtain x where x: "get_call n h = Some x"
    using assms by (cases "get_call n h") (auto simp: loop_forward_def)
  show ?thesis
  proof (cases "lp_up n \<and> lp_regs n (le_mux E (lc_id x) p) \<noteq> None")
    case False
    with assms x show ?thesis
      by (cases "lp_regs n (le_mux E (lc_id x) p)") (auto simp: loop_forward_def split: if_splits)
  next
    case True
    then obtain hn q dis where r: "lp_regs n (le_mux E (lc_id x) p) = Some (hn, q, dis)" by auto
    show ?thesis
    proof (cases "loop_serve E hn q b n")
      case None
      with assms x True r show ?thesis by (auto simp: loop_forward_def intro: loop_hs_world)
    next
      case (Some rn)
      obtain rp n1 where rn: "rn = (rp, n1)" by (cases rn)
      note c = loop_serve_calls [OF Some [unfolded rn]]
      have l: "h < length (lp_calls n1)" using get_call_less [OF x] c by simp
      have "n' = set_call h (Some (x\<lparr>lc_reply := if dis then None else Some rp\<rparr>)) n1"
        using assms x True r Some rn by (simp add: loop_forward_def)
      with l loop_hs_world [OF c] x show ?thesis
        by (simp add: loop_hs_set fun_upd_idem) (simp add: loop_hs_def fun_upd_idem)
    qed
  qed
qed

lemma loopback_ok: "net_ok (loopback E) loop_hs"
  unfolding net_ok_def
proof (intro conjI allI impI)
  fix p h b and n :: "'w loop" assume "loop_hs n h = Some False"
  then show "margo_provider_forward (loopback E) p h b n \<noteq> None"
    by (auto simp: loopback_def loop_forward_def loop_hs_def split: option.splits)
qed (auto simp: loopback_def loop_hs_def get_call_def set_call_def nth_append fun_eq_iff
      loop_forward_hs [unfolded loop_hs_def get_call_def fun_eq_iff]
    split: option.splits if_splits dest!: loop_forward_hs)

interpretation lb: margo_net "loopback E" loop_hs for E
  by unfold_locales (rule loopback_ok)

end
