(* ===== verification/Remote.thy ===== *)
theory Remote
  imports Loopback
begin

text \<open>
  The client side and the server joined by \<open>loopback\<close>.  A function of the admin or
  client library has the effect and the result of the handler it is meant for,
  called on the structure it has filled in.
\<close>

section \<open>One call\<close>

text \<open>The network after a call that is over: the server has moved on, the handle is gone.\<close>

definition loop_after :: "'w loop \<Rightarrow> 'w server \<Rightarrow> 'w loop" where
  "loop_after n sv = n\<lparr>lp_server := sv, lp_clock := Suc (lp_clock n), lp_calls := lp_calls n @ [None]\<rparr>"

text \<open>The same with the handle and its reply still there.\<close>

definition loop_during :: "'w loop \<Rightarrow> 'w server \<Rightarrow> lp_call \<Rightarrow> 'w loop" where
  "loop_during n sv x = n\<lparr>lp_server := sv, lp_clock := Suc (lp_clock n), lp_calls := lp_calls n @ [Some x]\<rparr>"

definition next_uuid :: "'w loop \<Rightarrow> cachercise_cache_id_t" where
  "next_uuid n = lp_uuids n (lp_clock n)"

text \<open>\<open>routed E n p i hn dis\<close>: calls to \<open>i\<close> at provider \<open>p\<close> reach the handler \<open>hn\<close> of the server.\<close>

definition routed :: "lp_env \<Rightarrow> 'w loop \<Rightarrow> u16 \<Rightarrow> hg_id_t \<Rightarrow> rpc_handler \<Rightarrow> bool \<Rightarrow> bool" where
  "routed E n p i hn dis \<longleftrightarrow> lp_up n \<and> lp_regs n (le_mux E i p) = Some (hn, self (lp_server n), dis)"

lemma loop_during_simps:
  "get_call (loop_during n sv x) (length (lp_calls n)) = Some x"
  "set_call (length (lp_calls n)) (Some y) (loop_during n sv x) = loop_during n sv y"
  "set_call (length (lp_calls n)) None (loop_during n sv x) = loop_after n sv"
  by (simp_all add: loop_during_def loop_after_def get_call_def set_call_def)

lemma loop_after_hs: "loop_hs (loop_after n sv) = loop_hs n"
  by (simp add: loop_after_def loop_hs_def get_call_def fun_eq_iff nth_append)

lemma loop_during_hs: "loop_hs (loop_during n sv x) = (loop_hs n)(length (lp_calls n) \<mapsto> lc_held x)"
  by (simp add: loop_during_def loop_hs_def get_call_def fun_eq_iff nth_append)

abbreviation created :: "hg_id_t \<Rightarrow> 'w loop \<Rightarrow> 'w loop" where
  "created i n \<equiv> n\<lparr>lp_calls := lp_calls n @ [Some \<lparr>lc_id = i, lc_reply = None, lc_held = False\<rparr>]\<rparr>"

lemma loop_create: "margo_create (loopback E) a i n = (Some (length (lp_calls n)), created i n)"
  by (simp add: loopback_def)

lemma loop_forwarded:
  assumes r: "routed E n p i hn dis"
    and s: "serve (request_of E (next_uuid n) hn b) (lp_server n) = Some (resp, sv)"
    and e: "reply_of E resp = Some rb"
  shows "margo_provider_forward (loopback E) p (length (lp_calls n)) b (created i n)
    = Some (True, loop_during n sv \<lparr>lc_id = i, lc_reply = if dis then None else Some rb, lc_held = False\<rparr>)"
proof -
  have "loop_serve E hn (self (lp_server n)) b (created i n)
      = Some (rb, (created i n)\<lparr>lp_server := sv, lp_clock := Suc (lp_clock n)\<rparr>)"
    using s e by (simp add: loop_serve_def next_uuid_def)
  then show ?thesis
    using r by (simp add: loopback_def loop_forward_def get_call_def routed_def set_call_def loop_during_def)
qed

lemma loop_output:
  assumes "q rb"
  shows "margo_get_output (loopback E) (length (lp_calls n)) q
      (loop_during n sv \<lparr>lc_id = i, lc_reply = Some rb, lc_held = False\<rparr>)
    = (Some rb, loop_during n sv \<lparr>lc_id = i, lc_reply = Some rb, lc_held = True\<rparr>)"
  using assms by (simp add: loopback_def loop_during_simps)

lemma loop_release:
  "release (loopback E) (length (lp_calls n)) (loop_during n sv \<lparr>lc_id = i, lc_reply = rp, lc_held = True\<rparr>)
    = Some (loop_after n sv)"
  by (simp add: release_def loopback_def loop_during_simps)

text \<open>The sequence of the admin library: the reply of the handler arrives, then the handle is given back.\<close>

lemma loop_rpc:
  assumes "routed E n p i hn False"
    and "serve (request_of E (next_uuid n) hn b) (lp_server n) = Some (resp, sv)"
    and "reply_of E resp = Some rb" and "dec rb = Some out"
  shows "\<exists>h n1. rpc (loopback E) a i p b dec n = Some (Some (h, out), n1)
    \<and> release (loopback E) h n1 = Some (loop_after n sv)"
  using loop_forwarded [OF assms(1-3)] loop_output [of "\<lambda>b. dec b \<noteq> None" rb E n sv i] assms(4)
  by (simp add: rpc_def loop_create loop_release)

section \<open>Admin operations\<close>

lemma remote_create:
  assumes P: "procs_ok (le_procs E)" and a: "h_load admin (admins st) = Some a"
    and r: "routed E (anet st) p (ad_create_cache_id a) H_create False"
    and s: "cachercise_create_cache_ult (Some \<lparr>cc_type = type, cc_config = cfg, cc_token = tok\<rparr>)
        (le_create E) (next_uuid (anet st)) (lp_server (anet st)) = Some (out, sv)"
  shows "cachercise_create_cache (loopback E) (le_procs E) admin addr p tok type cfg st
    = Some (cc_ret out, if cc_ret out = ret_code CACHERCISE_SUCCESS then Some (cc_id out) else None,
        st\<lparr>anet := loop_after (anet st) sv\<rparr>)"
proof -
  let ?b = "encode (hg_proc_create_cache_in_t (le_procs E)) \<lparr>cc_type = type, cc_config = cfg, cc_token = tok\<rparr>"
  have "serve (request_of E (next_uuid (anet st)) H_create ?b) (lp_server (anet st)) = Some (RespCreate out, sv)"
    using s by (simp add: create_cache_in.message [OF P])
  from loop_rpc [where a = addr and dec = "\<lambda>b. map_option fst (decode (hg_proc_create_cache_out_t (le_procs E)) b)"
      and out = out, OF r this] a
  show ?thesis by (auto simp: cachercise_create_cache_def create_cache_out.message [OF P])
qed

lemma remote_open:
  assumes P: "procs_ok (le_procs E)" and a: "h_load admin (admins st) = Some a"
    and r: "routed E (anet st) p (ad_open_cache_id a) H_open False"
    and s: "cachercise_open_cache_ult (Some \<lparr>oc_type = type, oc_config = cfg, oc_token = tok\<rparr>)
        (le_open E) (next_uuid (anet st)) (lp_server (anet st)) = Some (out, sv)"
  shows "cachercise_open_cache (loopback E) (le_procs E) admin addr p tok type cfg st
    = Some (oc_ret out, if oc_ret out = ret_code CACHERCISE_SUCCESS then Some (oc_id out) else None,
        st\<lparr>anet := loop_after (anet st) sv\<rparr>)"
proof -
  let ?b = "encode (hg_proc_open_cache_in_t (le_procs E)) \<lparr>oc_type = type, oc_config = cfg, oc_token = tok\<rparr>"
  have "serve (request_of E (next_uuid (anet st)) H_open ?b) (lp_server (anet st)) = Some (RespOpen out, sv)"
    using s by (simp add: open_cache_in.message [OF P])
  from loop_rpc [where a = addr and dec = "\<lambda>b. map_option fst (decode (hg_proc_open_cache_out_t (le_procs E)) b)"
      and out = out, OF r this] a
  show ?thesis by (auto simp: cachercise_open_cache_def open_cache_out.message [OF P])
qed

lemma remote_close:
  assumes P: "procs_ok (le_procs E)" and a: "h_load admin (admins st) = Some a"
    and r: "routed E (anet st) p (ad_close_cache_id a) H_close False"
    and s: "cachercise_close_cache_ult (Some \<lparr>cl_token = tok, cl_id = uid\<rparr>) (le_close E) (lp_server (anet st))
        = Some (out, sv)"
  shows "cachercise_close_cache (loopback E) (le_procs E) admin addr p tok uid st
    = Some (cl_ret out, st\<lparr>anet := loop_after (anet st) sv\<rparr>)"
proof -
  let ?b = "encode (hg_proc_close_cache_in_t (le_procs E)) \<lparr>cl_token = tok, cl_id = uid\<rparr>"
  have "serve (request_of E (next_uuid (anet st)) H_close ?b) (lp_server (anet st)) = Some (RespClose out, sv)"
    using s by (simp add: close_cache_in.message [OF P])
  from loop_rpc [where a = addr and dec = "\<lambda>b. map_option fst (decode (hg_proc_close_cache_out_t (le_procs E)) b)"
      and out = out, OF r this] a
  show ?thesis by (auto simp: cachercise_close_cache_def close_cache_out.message [OF P])
qed

lemma remote_destroy:
  assumes P: "procs_ok (le_procs E)" and a: "h_load admin (admins st) = Some a"
    and r: "routed E (anet st) p (ad_destroy_cache_id a) H_destroy False"
    and s: "cachercise_destroy_cache_ult (Some \<lparr>ds_token = tok, ds_id = uid\<rparr>) (le_destroy E) (lp_server (anet st))
        = Some (out, sv)"
  shows "cachercise_destroy_cache (loopback E) (le_procs E) admin addr p tok uid st
    = Some (ds_ret out, st\<lparr>anet := loop_after (anet st) sv\<rparr>)"
proof -
  let ?b = "encode (hg_proc_destroy_cache_in_t (le_procs E)) \<lparr>ds_token = tok, ds_id = uid\<rparr>"
  have "serve (request_of E (next_uuid (anet st)) H_destroy ?b) (lp_server (anet st)) = Some (RespDestroy out, sv)"
    using s by (simp add: destroy_cache_in.message [OF P])
  from loop_rpc [where a = addr and dec = "\<lambda>b. map_option fst (decode (hg_proc_destroy_cache_out_t (le_procs E)) b)"
      and out = out, OF r this] a
  show ?thesis by (auto simp: cachercise_destroy_cache_def destroy_cache_out.message [OF P])
qed

text \<open>
  A listing.  The array of the caller has \<open>length ids\<close> places, of which it announces
  \<open>count\<close>; what the server returns fits there.
\<close>

lemma copy_ids_prefix:
  assumes "length src = unat c" and "unat c \<le> length ids" and "unat c * 16 < 2 ^ 64"
  shows "copy_ids ids (Some src) c = Some (src @ drop (unat c) ids)"
proof -
  have n: "unat (c * 16) = 16 * unat c" using unat_16_times [of c] assms(3) by (simp add: mult.commute)
  have d: "drop (16 * n) (ids_bytes ids) = ids_bytes (drop n ids)" for n
  proof (induction ids arbitrary: n)
    case (Cons i ids)
    then show ?case by (cases n) (simp_all add: ids_bytes_def)
  qed (simp add: ids_bytes_def)
  have "memcpy (ids_bytes ids) (ids_bytes src) (16 * unat c) = Some (ids_bytes (src @ drop (unat c) ids))"
    using assms(1,2) by (simp add: d) (simp add: ids_bytes_def)
  moreover have "ids_of_bytes (length ids) (ids_bytes (src @ drop (unat c) ids)) = src @ drop (unat c) ids"
    using ids_round_trip [of "src @ drop (unat c) ids" "[]"] assms(1,2) by simp
  ultimately show ?thesis by (simp add: copy_ids_def n)
qed

lemma remote_list:
  assumes P: "procs_ok (le_procs E)" and a: "h_load admin (admins st) = Some a"
    and r: "routed E (anet st) p (ad_list_caches_id a) H_list False" and g: "le_calloc E"
    and inv: "table_inv (lp_server (anet st)) xs"
    and t: "check_token (prov (lp_server (anet st))) tok = Some True"
    and c: "unat cnt \<le> length ids" "unat cnt * 16 < 2 ^ 64"
  defines "m \<equiv> min (length xs) (unat cnt)"
  shows "cachercise_list_caches (loopback E) (le_procs E) True admin addr p tok ids cnt st
    = Some (ret_code CACHERCISE_SUCCESS,
        take m (map fst (cache_list (lp_server (anet st)) xs)) @ drop m ids, of_nat m,
        st\<lparr>anet := loop_after (anet st) (lp_server (anet st))\<rparr>)"
proof -
  let ?sv = "lp_server (anet st)"
  let ?in = "\<lparr>li_token = tok, li_max_ids = cnt\<rparr>"
  let ?b = "encode (hg_proc_list_caches_in_t (le_procs E)) ?in"
  let ?all = "map fst (cache_list ?sv xs)"
  let ?out = "\<lparr>lo_ret = 0, lo_count = of_nat m, lo_ids = Some ?all\<rparr> :: list_caches_out_t"
  let ?dec = "\<lambda>b. map_option fst (decode_list_caches_out_t (le_procs E) True b)"
  have l: "length ?all = length xs" by (simp add: cache_list_def)
  have m: "unat (of_nat m :: u64) = m"
    by (rule unat_of_nat_lt) (use c(2) in \<open>simp add: m_def\<close>)
  have mc: "m * 16 < 2 ^ 64" using c(2) by (simp add: m_def)
  have sv: "serve (request_of E (next_uuid (anet st)) H_list ?b) ?sv = Some (RespList ?out, ?sv)"
    using list_ult_ok [OF inv, of ?in "le_list E"] t g by (simp add: list_caches_in.message [OF P] m_def)
  obtain rb where rb: "encode_list_caches_out_t (le_procs E) ?out = Some rb"
    "decode_list_caches_out_t (le_procs E) True (rb @ []) = Some (?out\<lparr>lo_ids := Some (take m ?all)\<rparr>, [])"
    using list_reply_round_trip [OF P, of ?out ?all "[]"] m mc l by (auto simp: m_def)
  from rb(1) have rp: "reply_of E (RespList ?out) = Some rb" by simp
  from rb(2) have d: "?dec rb = Some (?out\<lparr>lo_ids := Some (take m ?all)\<rparr>)" by simp
  from loop_rpc [where a = addr and dec = ?dec, OF r sv rp d] obtain h n1 where
    "rpc (loopback E) addr (ad_list_caches_id a) p ?b ?dec (anet st)
      = Some (Some (h, ?out\<lparr>lo_ids := Some (take m ?all)\<rparr>), n1)"
    "release (loopback E) h n1 = Some (loop_after (anet st) ?sv)" by blast
  moreover have "copy_ids ids (Some (take m ?all)) (of_nat m) = Some (take m ?all @ drop m ids)"
    using copy_ids_prefix [of "take m ?all" "of_nat m" ids] m mc l c(1) by (simp add: m_def)
  ultimately show ?thesis using a by (simp add: cachercise_list_caches_def)
qed

section \<open>Client operations\<close>

lemma remote_sum:
  assumes P: "procs_ok (le_procs E)" and h: "rh_ok st handle rh c"
    and r: "routed E (network st) (rh_provider_id rh) (c_sum_id c) H_sum False"
    and s: "cachercise_sum_ult (Some \<lparr>su_cache_id = rh_cache_id rh, su_x = x, su_y = y\<rparr>) (le_sum E)
        (lp_server (network st)) = Some (out, sv)"
  shows "cachercise_compute_sum (loopback E) (le_procs E) handle x y st
    = Some (so_ret out, if so_ret out = ret_code CACHERCISE_SUCCESS then Some (so_result out) else None,
        st\<lparr>network := loop_after (network st) sv\<rparr>)"
proof -
  let ?b = "encode (hg_proc_sum_in_t (le_procs E)) \<lparr>su_cache_id = rh_cache_id rh, su_x = x, su_y = y\<rparr>"
  have sv: "serve (request_of E (next_uuid (network st)) H_sum ?b) (lp_server (network st)) = Some (RespSum out, sv)"
    using s by (simp add: sum_in.message [OF P])
  from loop_forwarded [OF r sv reply_of.simps(7)]
    loop_output [of "\<lambda>b. decode (hg_proc_sum_out_t (le_procs E)) b \<noteq> None"
      "encode (hg_proc_sum_out_t (le_procs E)) out" E "network st" sv "c_sum_id c"] h
  show ?thesis
    by (simp add: cachercise_compute_sum_def rh_ok_def loop_create loop_release sum_out.message [OF P])
qed

lemma remote_hello:
  assumes P: "procs_ok (le_procs E)" and h: "rh_ok st handle rh c"
    and r: "routed E (network st) (rh_provider_id rh) (c_hello_id c) H_hello True"
    and s: "cachercise_hello_ult (Some \<lparr>he_cache_id = rh_cache_id rh\<rparr>) (lp_server (network st)) = Some sv"
  shows "cachercise_say_hello (loopback E) (le_procs E) handle st
    = Some (ret_code CACHERCISE_SUCCESS, st\<lparr>network := loop_after (network st) sv\<rparr>)"
proof -
  let ?b = "encode (hg_proc_hello_in_t (le_procs E)) \<lparr>he_cache_id = rh_cache_id rh\<rparr>"
  have sv: "serve (request_of E (next_uuid (network st)) H_hello ?b) (lp_server (network st)) = Some (RespHello, sv)"
    using s by (simp add: hello_in.message [OF P])
  have "margo_destroy (loopback E) (length (lp_calls (network st)))
      (loop_during (network st) sv \<lparr>lc_id = c_hello_id c, lc_reply = None, lc_held = False\<rparr>)
    = Some (loop_after (network st) sv)"
    by (simp add: loopback_def loop_during_simps)
  with loop_forwarded [OF r sv, of "[]"] h show ?thesis
    by (simp add: cachercise_say_hello_def rh_ok_def loop_create)
qed

text \<open>After an I/O call the handle and the reply of the server are still there.\<close>

lemma remote_io:
  assumes P: "procs_ok (le_procs E)" and h: "rh_ok st handle rh c"
    and r: "routed E (network st) (rh_provider_id rh) (c_io_id c) H_io False"
    and scr: "io_scratch_in scr0 buf cnt kind = Some scr"
    and s: "cachercise_io_ult (Some \<lparr>io_cache_id = rh_cache_id rh, io_count = cnt, io_offset = offset,
        io_scratch = scr, io_kind = scast kind\<rparr>) (le_io E) (lp_server (network st)) = Some (out, sv)"
  shows "\<exists>x. lc_held x \<and> cachercise_io (loopback E) (le_procs E) scr0 handle buf cnt offset kind st
    = (if kind = CACHERCISE_READ
       then let n = (if 8 < out_bytes out then 8 else out_bytes out) in
            map_option (\<lambda>buf. (ucast n, buf, st\<lparr>network := loop_during (network st) sv x\<rparr>))
              (memcpy buf (le_bytes 8 (out_scratch out)) (unat n))
       else Some (ucast (out_bytes out), buf, st\<lparr>network := loop_during (network st) sv x\<rparr>))"
proof -
  let ?in = "\<lparr>io_cache_id = rh_cache_id rh, io_count = cnt, io_offset = offset, io_scratch = scr,
      io_kind = scast kind\<rparr>"
  let ?b = "encode (hg_proc_io_in_t (le_procs E)) ?in"
  let ?x = "\<lparr>lc_id = c_io_id c, lc_reply = Some (encode (hg_proc_io_out_t (le_procs E)) out), lc_held = True\<rparr>"
  have sv: "serve (request_of E (next_uuid (network st)) H_io ?b) (lp_server (network st)) = Some (RespIo out, sv)"
    using s by (simp add: io_in.message [OF P])
  from loop_forwarded [OF r sv reply_of.simps(8)]
    loop_output [of "\<lambda>b. decode (hg_proc_io_out_t (le_procs E)) b \<noteq> None"
      "encode (hg_proc_io_out_t (le_procs E)) out" E "network st" sv "c_io_id c"] h scr
  have "cachercise_io (loopback E) (le_procs E) scr0 handle buf cnt offset kind st
    = (if kind = CACHERCISE_READ
       then let n = (if 8 < out_bytes out then 8 else out_bytes out) in
            map_option (\<lambda>buf. (ucast n, buf, st\<lparr>network := loop_during (network st) sv ?x\<rparr>))
              (memcpy buf (le_bytes 8 (out_scratch out)) (unat n))
       else Some (ucast (out_bytes out), buf, st\<lparr>network := loop_during (network st) sv ?x\<rparr>))"
    by (simp add: cachercise_io_def rh_ok_def loop_create io_out.message [OF P] Let_def
        map_conv_bind_option comp_def)
  then show ?thesis by (intro exI [of _ ?x]) simp
qed

section \<open>Sessions\<close>

lemma routed_after:
  assumes "routed E n p i hn dis" and "self sv = self (lp_server n)"
  shows "routed E (loop_after n sv) p i hn dis" "routed E (loop_during n sv x) p i hn dis"
  using assms by (simp_all add: routed_def loop_after_def loop_during_def)

lemma io_ult_world:
  assumes "cachercise_io_ult i o1 sv = Some (out, sv')"
  shows "\<exists>w. sv' = sv\<lparr>world := w\<rparr>"
proof (cases i)
  case (Some inp)
  from assms have "sv' = sv \<or> (\<exists>w. sv' = sv\<lparr>world := w\<rparr>)"
    unfolding Some cachercise_io_ult_def by (auto simp: bind_Some_iff split: if_splits)
  then show ?thesis
  proof
    assume "sv' = sv"
    then show ?thesis by (intro exI [of _ "world sv"]) simp
  qed
next
  case None
  with assms have "sv' = sv" by (simp add: cachercise_io_ult_def)
  then show ?thesis by (intro exI [of _ "world sv"]) simp
qed

text \<open>
  A client writes eight bytes and reads them back into another buffer.  Both calls
  return 8.
\<close>

lemma client_write_read:
  assumes P: "procs_ok (le_procs E)" and h: "rh_ok st handle rh c"
    and r: "routed E (network st) (rh_provider_id rh) (c_io_id c) H_io False"
    and sv: "dummy_server e jl ml D (lp_server (network st)) xs C"
    and k: "cache_map (lp_server (network st)) xs (rh_cache_id rh) = Some (f, cx)"
    and hd: "cache_hoard (world (lp_server (network st))) cx \<noteq> NULL"
    and fits: "hoard_fits (cache_hoard (world (lp_server (network st))) cx)
        (hoards (world (lp_server (network st)))) 1 (unat off)"
    and b: "length buf = 8" "length buf2 = 8"
  shows "\<exists>st1 st2. cachercise_io (loopback E) (le_procs E) scr handle buf 8 off CACHERCISE_WRITE st = Some (8, buf, st1)
    \<and> dummy_server e jl ml D (lp_server (network st1)) xs C
    \<and> loop_hs (network st1) (length (lp_calls (network st))) = Some True
    \<and> cachercise_io (loopback E) (le_procs E) scr2 handle buf2 8 off CACHERCISE_READ st1 = Some (8, buf, st2)"
proof -
  let ?n = "network st"
  let ?w = "of_le_bytes buf :: i64"
  let ?i = "\<lparr>io_cache_id = rh_cache_id rh, io_count = 8, io_offset = off, io_scratch = ?w,
      io_kind = scast CACHERCISE_WRITE\<rparr>"
  let ?j = "\<lparr>io_cache_id = rh_cache_id rh, io_count = 8, io_offset = off, io_scratch = scr2,
      io_kind = scast CACHERCISE_READ\<rparr>"
  let ?out = "\<lparr>out_bytes = 8, out_scratch = ?w, out_result = 1, out_ret = 0\<rparr>"
  have kinds: "ucast (scast CACHERCISE_WRITE :: i64) = CACHERCISE_WRITE"
    "ucast (scast CACHERCISE_READ :: i64) \<noteq> CACHERCISE_WRITE" "CACHERCISE_WRITE \<noteq> CACHERCISE_READ"
    by (simp_all add: CACHERCISE_WRITE_def CACHERCISE_READ_def)
  obtain sv1 where s1: "cachercise_io_ult (Some ?i) (le_io E) (lp_server ?n) = Some (?out, sv1)"
    and ok1: "dummy_server e jl ml D sv1 xs C"
    and s2: "cachercise_io_ult (Some ?j) (le_io E) sv1 = Some (?out, sv1)"
    using io_write_then_read [OF sv, of ?i f cx ?j "le_io E" "le_io E"] k hd fits kinds by auto
  from io_ult_world [OF s1] have self1: "self sv1 = self (lp_server ?n)" by auto
  have scr: "io_scratch_in scr buf 8 CACHERCISE_WRITE = Some ?w"
    "io_scratch_in scr2 buf2 8 CACHERCISE_READ = Some scr2"
    using b kinds by (simp_all add: io_scratch_in_def)
  from remote_io [OF P h r scr(1) s1] obtain x where x: "lc_held x" and
    w1: "cachercise_io (loopback E) (le_procs E) scr handle buf 8 off CACHERCISE_WRITE st
      = Some (8, buf, st\<lparr>network := loop_during ?n sv1 x\<rparr>)"
    using kinds by auto
  let ?st1 = "st\<lparr>network := loop_during ?n sv1 x\<rparr>"
  have h1: "rh_ok ?st1 handle rh c" using h by (simp add: rh_ok_def)
  have r1: "routed E (network ?st1) (rh_provider_id rh) (c_io_id c) H_io False"
    using routed_after(2) [OF r self1] by simp
  have l1: "lp_server (network ?st1) = sv1" by (simp add: loop_during_def)
  have m: "memcpy buf2 (le_bytes 8 ?w) 8 = Some buf"
    using b by (simp add: le_bytes_of_le_bytes)
  from remote_io [OF P h1 r1 scr(2), unfolded l1, OF s2] obtain y where
    "cachercise_io (loopback E) (le_procs E) scr2 handle buf2 8 off CACHERCISE_READ ?st1
      = Some (8, buf, ?st1\<lparr>network := loop_during (network ?st1) sv1 y\<rparr>)"
    using m by auto
  with w1 ok1 l1 x show ?thesis
    by (intro exI [of _ ?st1] exI conjI) (assumption, simp, simp add: loop_during_hs, assumption)
qed

text \<open>
  An administrator creates a cache and lists the caches: the listing is what it was
  with the new id at the end.
\<close>

lemma admin_create_run:
  assumes P: "procs_ok (le_procs E)" and a: "h_load admin (admins st) = Some a"
    and r: "routed E (anet st) p (ad_create_cache_id a) H_create False"
    and sv: "dummy_server e jl ml D (lp_server (anet st)) xs C" and D: "D \<noteq> NULL"
    and tok: "check_token (prov (lp_server (anet st))) tok = Some True"
    and be: "backend_named (lp_server (anet st)) nm = D"
    and room: "table_room (lp_server (anet st))" "dummy_room (world (lp_server (anet st)))"
    and new: "cache_map (lp_server (anet st)) xs (next_uuid (anet st)) = None"
    and cr: "dummy_create_cache e (self (lp_server (anet st))) cfg NULL (world (lp_server (anet st)))
        = Some (CACHERCISE_SUCCESS, c, w)"
  shows "\<exists>sv' ys. cachercise_create_cache (loopback E) (le_procs E) admin addr p tok (Some nm) cfg st
      = Some (ret_code CACHERCISE_SUCCESS, Some (next_uuid (anet st)), st\<lparr>anet := loop_after (anet st) sv'\<rparr>)
    \<and> dummy_server e jl ml D sv' ys (insert (D, c) C) \<and> world sv' = w
    \<and> cache_list sv' ys = cache_list (lp_server (anet st)) xs @ [(next_uuid (anet st), (D, c))]
    \<and> token (prov sv') = token (prov (lp_server (anet st))) \<and> self sv' = self (lp_server (anet st))"
proof -
  let ?sv = "lp_server (anet st)" and ?u = "next_uuid (anet st)"
  let ?in = "\<lparr>cc_type = Some nm, cc_config = cfg, cc_token = tok\<rparr>"
  have be': "backend_named ?sv nm \<noteq> NULL" using be D by simp
  have ty: "cc_type ?in = Some nm" "check_token (prov ?sv) (cc_token ?in) = Some True" using tok by simp_all
  let ?ok = "server_ok (dummy_W e jl ml D) (\<lambda>f b. f = D \<and> b = dummy_backend e)"
  from dm.create_ult_ok [OF sv [unfolded dummy_server_def] ty(2,1) be' room, of "le_create E" ?u, unfolded be]
  obtain b ret c' w' out sv' where b: "D = D \<and> b = dummy_backend e"
    and s: "create_cache b (self ?sv) (cc_config ?in) NULL (world ?sv) = Some (ret, c', w')"
      "cachercise_create_cache_ult (Some ?in) (le_create E) ?u ?sv = Some (out, sv')"
      "world sv' = w'" "cc_ret out = ret_code ret"
    and i: "if ret = CACHERCISE_SUCCESS
        then cc_id out = ?u \<and> (D, c') \<notin> C
          \<and> (\<exists>ys. ?ok sv' ys (insert (D, c') C) \<and> attached ?sv xs ?u (D, c') sv' ys)
        else cc_id out = cc_id (le_create E) \<and> ?ok sv' xs C \<and> cache_list sv' xs = cache_list ?sv xs
          \<and> token (prov sv') = token (prov ?sv)"
    by (elim exE conjE) (rule that; (assumption | simp))
  have ret: "ret = CACHERCISE_SUCCESS" and cc: "c' = c" "w' = w" using b s(1) cr by (simp_all add: dummy_backend_def)
  with i obtain ys where o: "cc_id out = ?u" and ys: "?ok sv' ys (insert (D, c') C)" "attached ?sv xs ?u (D, c') sv' ys"
    by auto
  have "cachercise_create_cache (loopback E) (le_procs E) admin addr p tok (Some nm) cfg st
      = Some (ret_code CACHERCISE_SUCCESS, Some ?u, st\<lparr>anet := loop_after (anet st) sv'\<rparr>)"
    using remote_create [OF P a r s(2)] s(4) ret o by simp
  moreover have "cache_list sv' ys = cache_list ?sv xs @ [(?u, (D, c'))]" "token (prov sv') = token (prov ?sv)"
    "self sv' = self ?sv" using ys(2) new by (simp_all add: attached_def)
  moreover have "dummy_server e jl ml D sv' ys (insert (D, c') C)"
    using ys(1) by (simp add: dummy_server_def)
  ultimately show ?thesis using cc s(3) by blast
qed

lemma admin_create_list_run:
  assumes P: "procs_ok (le_procs E)" and a: "h_load admin (admins st) = Some a" and g: "le_calloc E"
    and r: "routed E (anet st) p (ad_create_cache_id a) H_create False"
      "routed E (anet st) p (ad_list_caches_id a) H_list False"
    and sv: "dummy_server e jl ml D (lp_server (anet st)) xs C" and D: "D \<noteq> NULL"
    and tok: "check_token (prov (lp_server (anet st))) tok = Some True"
    and be: "backend_named (lp_server (anet st)) nm = D"
    and room: "table_room (lp_server (anet st))" "dummy_room (world (lp_server (anet st)))"
    and new: "cache_map (lp_server (anet st)) xs (next_uuid (anet st)) = None"
    and cr: "dummy_create_cache e (self (lp_server (anet st))) cfg NULL (world (lp_server (anet st)))
        = Some (CACHERCISE_SUCCESS, c, w)"
    and cnt: "unat cnt \<le> length ids" "unat cnt * 16 < 2 ^ 64"
    and m: "m = min (Suc (length xs)) (unat cnt)"
  shows "\<exists>n1 n2 ys C'. cachercise_create_cache (loopback E) (le_procs E) admin addr p tok (Some nm) cfg st
      = Some (ret_code CACHERCISE_SUCCESS, Some (next_uuid (anet st)), st\<lparr>anet := n1\<rparr>)
    \<and> cachercise_list_caches (loopback E) (le_procs E) True admin addr p tok ids cnt (st\<lparr>anet := n1\<rparr>)
      = Some (ret_code CACHERCISE_SUCCESS,
          take m (map fst (cache_list (lp_server (anet st)) xs) @ [next_uuid (anet st)]) @ drop m ids,
          of_nat m, st\<lparr>anet := n2\<rparr>)
    \<and> dummy_server e jl ml D (lp_server n2) ys C'
    \<and> cache_list (lp_server n2) ys = cache_list (lp_server (anet st)) xs @ [(next_uuid (anet st), (D, c))]
    \<and> loop_hs n2 = loop_hs (anet st)"
proof -
  let ?sv = "lp_server (anet st)" and ?u = "next_uuid (anet st)"
  obtain sv' ys where c1: "cachercise_create_cache (loopback E) (le_procs E) admin addr p tok (Some nm) cfg st
      = Some (ret_code CACHERCISE_SUCCESS, Some ?u, st\<lparr>anet := loop_after (anet st) sv'\<rparr>)"
    and ys: "dummy_server e jl ml D sv' ys (insert (D, c) C)"
    and l: "cache_list sv' ys = cache_list ?sv xs @ [(?u, (D, c))]" "token (prov sv') = token (prov ?sv)"
      "self sv' = self ?sv"
    using admin_create_run [OF P a r(1) sv D tok be room new cr, of addr] by blast
  let ?st1 = "st\<lparr>anet := loop_after (anet st) sv'\<rparr>" and ?n2 = "loop_after (loop_after (anet st) sv') sv'"
  have n: "length ys = Suc (length xs)" using arg_cong [OF l(1), of length] by (simp add: cache_list_def)
  have sv1: "lp_server (anet ?st1) = sv'" by (simp add: loop_after_def)
  have t1: "check_token (prov sv') tok = Some True" using tok unfolding check_token_def l(2) .
  have r1: "routed E (anet ?st1) p (ad_list_caches_id a) H_list False" using routed_after(1) [OF r(2) l(3)] by simp
  have "cachercise_list_caches (loopback E) (le_procs E) True admin addr p tok ids cnt ?st1
      = Some (ret_code CACHERCISE_SUCCESS, take m (map fst (cache_list sv' ys)) @ drop m ids, of_nat m,
          st\<lparr>anet := ?n2\<rparr>)"
    using remote_list [OF P, of admin ?st1 a p ys tok cnt ids addr, unfolded sv1] a r1 g dummy_serverD(1) [OF ys]
      t1 cnt n m by simp
  moreover have "lp_server ?n2 = sv'" by (simp add: loop_after_def)
  moreover have "loop_hs ?n2 = loop_hs (anet st)" by (simp add: loop_after_hs)
  ultimately show ?thesis using c1 ys l(1)
    by (intro exI [of _ "loop_after (anet st) sv'"] exI [of _ ?n2]) auto
qed

lemma admin_create_list:
  assumes P: "procs_ok (le_procs E)" and a: "h_load admin (admins st) = Some a" and g: "le_calloc E"
    and r: "routed E (anet st) p (ad_create_cache_id a) H_create False"
      "routed E (anet st) p (ad_list_caches_id a) H_list False"
    and sv: "dummy_server e jl ml D (lp_server (anet st)) xs C" and D: "D \<noteq> NULL"
    and tok: "check_token (prov (lp_server (anet st))) tok = Some True"
    and be: "backend_named (lp_server (anet st)) nm = D"
    and room: "table_room (lp_server (anet st))" "dummy_room (world (lp_server (anet st)))"
    and new: "cache_map (lp_server (anet st)) xs (next_uuid (anet st)) = None"
    and cr: "dummy_create_cache e (self (lp_server (anet st))) cfg NULL (world (lp_server (anet st)))
        = Some (CACHERCISE_SUCCESS, c, w)"
    and cnt: "Suc (length xs) \<le> unat cnt" "unat cnt \<le> length ids" "unat cnt * 16 < 2 ^ 64"
  shows "\<exists>st1 st2. cachercise_create_cache (loopback E) (le_procs E) admin addr p tok (Some nm) cfg st
      = Some (ret_code CACHERCISE_SUCCESS, Some (next_uuid (anet st)), st1)
    \<and> cachercise_list_caches (loopback E) (le_procs E) True admin addr p tok ids cnt st1
      = Some (ret_code CACHERCISE_SUCCESS,
          map fst (cache_list (lp_server (anet st)) xs) @ [next_uuid (anet st)] @ drop (Suc (length xs)) ids,
          of_nat (Suc (length xs)), st2)"
proof -
  have l: "length (cache_list (lp_server (anet st)) xs) = length xs" by (simp add: cache_list_def)
  from admin_create_list_run [OF P a g r sv D tok be room new cr cnt(2,3) refl, of addr] cnt(1) l
  show ?thesis by (auto simp: min_def)
qed

end
