(* ===== verification/Bench.thy ===== *)
theory Bench
  imports Remote
begin

text \<open>
  The benchmark \<open>examples/cachebench.c\<close>: every rank writes its items, then rank 0
  reads them all back and counts those that differ.  The ranks are processes of
  their own that share the server; their clients and handles are objects of one
  state here, and a run is an interleaving of their writes.
\<close>

section \<open>The two loops\<close>

text \<open>An expression of type \<open>int\<close>; outside its range it is undefined.\<close>

definition c_int :: "nat \<Rightarrow> i32 option" where
  "c_int z = (if z < 2 ^ 31 then Some (of_nat z) else None)"

text \<open>
  The body of the write loop of \<open>rank\<close> at its item \<open>i\<close>.  \<open>int64_t value\<close> is the buffer;
  the position and the value are computed as \<open>int\<close> and converted.
\<close>

definition bench_write ::
  "'n net \<Rightarrow> procs \<Rightarrow> i64 \<Rightarrow> ptr \<Rightarrow> nat \<Rightarrow> nat \<Rightarrow> nat \<Rightarrow> 'n cworld \<Rightarrow> 'n cworld option" where
  "bench_write N P scr handle nprocs rank i st = do {
     val \<leftarrow> c_int (i * nprocs + rank + 100);
     pos \<leftarrow> c_int (i * nprocs + rank);
     (ret, buf, st) \<leftarrow> cachercise_io N P scr handle (le_bytes 8 (scast val :: i64)) 8 (scast pos) CACHERCISE_WRITE st;
     Some st }"

text \<open>A schedule lists the writes, as rank and item, in the order they take effect.\<close>

fun bench_writes ::
  "'n net \<Rightarrow> procs \<Rightarrow> i64 \<Rightarrow> (nat \<Rightarrow> ptr) \<Rightarrow> nat \<Rightarrow> (nat \<times> nat) list \<Rightarrow> 'n cworld \<Rightarrow> 'n cworld option" where
  "bench_writes N P scr hr nprocs [] st = Some st"
| "bench_writes N P scr hr nprocs (x # xs) st = do {
     st \<leftarrow> bench_write N P scr (hr (fst x)) nprocs (fst x) (snd x) st;
     bench_writes N P scr hr nprocs xs st }"

text \<open>
  The loop of rank 0 with \<open>m\<close> iterations left at \<open>j\<close>.  \<open>compare\<close> keeps its value between
  the iterations; the result of \<open>cachercise_read\<close> is not looked at.
\<close>

fun bench_verify ::
  "'n net \<Rightarrow> procs \<Rightarrow> i64 \<Rightarrow> ptr \<Rightarrow> nat \<Rightarrow> nat \<Rightarrow> i64 \<Rightarrow> nat \<Rightarrow> 'n cworld \<Rightarrow> (nat \<times> 'n cworld) option" where
  "bench_verify N P scr handle 0 j compare nerrors st = Some (nerrors, st)"
| "bench_verify N P scr handle (Suc m) j compare nerrors st = do {
     (ret, buf, st) \<leftarrow> cachercise_io N P scr handle (le_bytes 8 compare) 8 (of_nat j) CACHERCISE_READ st;
     let compare = of_le_bytes buf;
     let nerrors = (if compare \<noteq> of_nat (j + 100) then nerrors + 1 else nerrors);
     if nerrors > 5 then Some (nerrors, st)
     else bench_verify N P scr handle m (Suc j) compare nerrors st }"

text \<open>All items of all ranks, in some order; a rank may be ahead of another.\<close>

definition full_schedule :: "nat \<Rightarrow> nat \<Rightarrow> (nat \<times> nat) list \<Rightarrow> bool" where
  "full_schedule nprocs n xs \<longleftrightarrow> set xs = {(r, i). r < nprocs \<and> i < n}"

section \<open>Items and positions\<close>

lemma scast_c_int:
  assumes "c_int z = Some w"
  shows "(scast w :: i64) = of_nat z" "unat (scast w :: i64) = z"
proof -
  have z: "z < 2 ^ 31" and w: "w = of_nat z" using assms by (auto simp: c_int_def split: if_splits)
  have "sint w = int z"
    using z by (simp add: w signed_of_nat signed_take_bit_int_eq_self)
  moreover have "(scast w :: i64) = of_int (sint w)" by simp
  ultimately show e: "(scast w :: i64) = of_nat z" by (simp only: of_int_of_nat_eq)
  show "unat (scast w :: i64) = z" unfolding e by (rule unat_of_nat_lt) (use z in simp)
qed

text \<open>Every position below \<open>n * nprocs\<close> belongs to exactly one item.\<close>

lemma item_at: "j < n * p \<Longrightarrow> j mod p < p \<and> j div p < n \<and> j div p * p + j mod p = j" for j n p :: nat
  by (cases "p = 0") (auto simp: less_mult_imp_div_less)

lemma item_less: "r < p \<Longrightarrow> i < n \<Longrightarrow> i * p + r < n * p" for i p r n :: nat
proof -
  assume "r < p" "i < n"
  then have "i * p + r < i * p + p" by simp
  also have "\<dots> = Suc i * p" by simp
  also have "\<dots> \<le> n * p" using \<open>i < n\<close> by (intro mult_le_mono1) simp
  finally show ?thesis .
qed

section \<open>One process at the server\<close>

text \<open>
  \<open>connected E st handle k\<close>: the handle refers to the cache \<open>k\<close>, and I/O through it
  reaches the server.
\<close>

definition connected :: "lp_env \<Rightarrow> 'w loop cworld \<Rightarrow> ptr \<Rightarrow> cachercise_cache_id_t \<Rightarrow> bool" where
  "connected E st handle k \<longleftrightarrow> (\<exists>rh c. rh_ok st handle rh c \<and> rh_cache_id rh = k
     \<and> routed E (network st) (rh_provider_id rh) (c_io_id c) H_io False)"

text \<open>The server has the cache \<open>k\<close> with the contents \<open>data\<close> in \<open>sz\<close> places.\<close>

definition holds ::
  "'l ext \<Rightarrow> ('l \<Rightarrow> addr set) \<Rightarrow> ('l \<Rightarrow> addr set) \<Rightarrow> ptr \<Rightarrow> addr list \<Rightarrow> open_ctx set
    \<Rightarrow> cachercise_cache_id_t \<Rightarrow> ptr \<Rightarrow> 'l dworld loop cworld \<Rightarrow> (nat \<Rightarrow> i64) \<Rightarrow> nat \<Rightarrow> bool" where
  "holds e jl ml D xs C k c st data sz \<longleftrightarrow>
     (let sv = lp_server (network st) in
      dummy_server e jl ml D sv xs C \<and> cache_map sv xs k = Some (D, c)
      \<and> cache_hoard (world sv) c \<noteq> NULL \<and> (\<forall>i. grants (hoards (world sv)) i)
      \<and> cache_data (world sv) c = data \<and> sz \<le> cache_size (world sv) c)"

lemma io_write_held:
  assumes P: "procs_ok (le_procs E)" and h: "connected E st handle k"
    and sv: "holds e jl ml D xs C k c st data sz" and m: "4 * (unat off + 1) \<le> vector_max_size"
  shows "\<exists>st'. cachercise_io (loopback E) (le_procs E) scr handle (le_bytes 8 v) 8 off CACHERCISE_WRITE st
      = Some (8, le_bytes 8 v, st')
    \<and> (\<forall>hd' k'. connected E st hd' k' \<longrightarrow> connected E st' hd' k')
    \<and> holds e jl ml D xs C k c st' (data(unat off := v)) (max sz (unat off + 1))"
proof -
  let ?n = "network st" and ?sv = "lp_server (network st)"
  from h obtain rh cl where rh: "rh_ok st handle rh cl" "rh_cache_id rh = k"
    "routed E ?n (rh_provider_id rh) (c_io_id cl) H_io False" by (auto simp: connected_def)
  let ?i = "\<lparr>io_cache_id = k, io_count = 8, io_offset = off, io_scratch = v, io_kind = scast CACHERCISE_WRITE\<rparr>"
  have S: "dummy_server e jl ml D ?sv xs C" "cache_map ?sv xs (io_cache_id ?i) = Some (D, c)"
    "cache_hoard (world ?sv) c \<noteq> NULL" "\<forall>i. grants (hoards (world ?sv)) i" "cache_data (world ?sv) c = data"
    "sz \<le> cache_size (world ?sv) c"
    using sv by (simp_all add: holds_def Let_def)
  have kind: "ucast (scast CACHERCISE_WRITE :: i64) = CACHERCISE_WRITE" "CACHERCISE_WRITE \<noteq> CACHERCISE_READ"
    by (simp_all add: CACHERCISE_WRITE_def CACHERCISE_READ_def)
  have "hoard_fits (cache_hoard (world ?sv) c) (hoards (world ?sv)) 1 (unat off)"
    using m S(4) by (auto simp: hoard_fits_def)
  then have fits: "hoard_fits (cache_hoard (world ?sv) c) (hoards (world ?sv)) 1 (unat (io_offset ?i))" by simp
  have wr: "ucast (io_kind ?i) = CACHERCISE_WRITE" "unat (io_count ?i) div 8 = 1" using kind by simp_all
  from io_ult_write [OF S(1-3) wr fits, of "le_io E"] obtain w where
    w: "cachercise_io_ult (Some ?i) (le_io E) ?sv
      = Some (\<lparr>out_bytes = 8, out_scratch = v, out_result = 1, out_ret = 0\<rparr>, ?sv\<lparr>world := w\<rparr>)"
    "dummy_server e jl ml D (?sv\<lparr>world := w\<rparr>) xs C" "cache_hoard w c = cache_hoard (world ?sv) c"
    "cache_data w c = (cache_data (world ?sv) c)(unat off := v)"
    "max (cache_size (world ?sv) c) (unat off + 1) \<le> cache_size w c"
    "grants (hoards w) = grants (hoards (world ?sv))" by auto
  have scr: "io_scratch_in scr (le_bytes 8 v) 8 CACHERCISE_WRITE = Some v"
    by (simp add: io_scratch_in_def of_le_bytes_le_bytes)
  from remote_io [where cnt = 8 and offset = off, OF P rh(1,3) scr, unfolded rh(2), OF w(1)] obtain x where
    io: "cachercise_io (loopback E) (le_procs E) scr handle (le_bytes 8 v) 8 off CACHERCISE_WRITE st
      = Some (8, le_bytes 8 v, st\<lparr>network := loop_during ?n (?sv\<lparr>world := w\<rparr>) x\<rparr>)"
    using kind(2) by auto
  let ?st = "st\<lparr>network := loop_during ?n (?sv\<lparr>world := w\<rparr>) x\<rparr>"
  have "connected E ?st hd' k'" if "connected E st hd' k'" for hd' k'
    using that routed_after(2) [of E ?n _ _ H_io False "?sv\<lparr>world := w\<rparr>" x]
    by (fastforce simp: connected_def rh_ok_def)
  moreover have "holds e jl ml D xs C k c ?st (data(unat off := v)) (max sz (unat off + 1))"
    using w(2-6) S(2-6) by (simp add: holds_def Let_def loop_during_def)
  ultimately show ?thesis using io by blast
qed

lemma io_read_held:
  assumes P: "procs_ok (le_procs E)" and h: "connected E st handle k"
    and sv: "holds e jl ml D xs C k c st data sz" and m: "unat off < sz" and b: "length buf = 8"
  shows "\<exists>st'. cachercise_io (loopback E) (le_procs E) scr handle buf 8 off CACHERCISE_READ st
      = Some (8, le_bytes 8 (data (unat off)), st')
    \<and> (\<forall>hd' k'. connected E st hd' k' \<longrightarrow> connected E st' hd' k')
    \<and> holds e jl ml D xs C k c st' data sz"
proof -
  let ?n = "network st" and ?sv = "lp_server (network st)"
  from h obtain rh cl where rh: "rh_ok st handle rh cl" "rh_cache_id rh = k"
    "routed E ?n (rh_provider_id rh) (c_io_id cl) H_io False" by (auto simp: connected_def)
  let ?i = "\<lparr>io_cache_id = k, io_count = 8, io_offset = off, io_scratch = scr, io_kind = scast CACHERCISE_READ\<rparr>"
  have S: "dummy_server e jl ml D ?sv xs C" "cache_map ?sv xs (io_cache_id ?i) = Some (D, c)"
    "cache_data (world ?sv) c = data" "sz \<le> cache_size (world ?sv) c"
    using sv by (simp_all add: holds_def Let_def)
  have kind: "ucast (io_kind ?i) \<noteq> CACHERCISE_WRITE" "unat (io_count ?i) div 8 = 1"
    "CACHERCISE_READ \<noteq> CACHERCISE_WRITE"
    by (simp_all add: CACHERCISE_WRITE_def CACHERCISE_READ_def)
  have "unat (io_offset ?i) < cache_size (world ?sv) c" using m S(4) by simp
  from io_ult_read [OF S(1,2) kind(1,2) this, of "le_io E"] S(3)
  have r: "cachercise_io_ult (Some ?i) (le_io E) ?sv
      = Some (\<lparr>out_bytes = 8, out_scratch = data (unat off), out_result = 1, out_ret = 0\<rparr>, ?sv)" by simp
  have scr: "io_scratch_in scr buf 8 CACHERCISE_READ = Some scr"
    using kind(3) by (simp add: io_scratch_in_def)
  from remote_io [where cnt = 8 and offset = off, OF P rh(1,3) scr, unfolded rh(2), OF r] obtain x where
    io: "cachercise_io (loopback E) (le_procs E) scr handle buf 8 off CACHERCISE_READ st
      = Some (8, le_bytes 8 (data (unat off)), st\<lparr>network := loop_during ?n ?sv x\<rparr>)"
    using b by auto
  let ?st = "st\<lparr>network := loop_during ?n ?sv x\<rparr>"
  have "connected E ?st hd' k'" if "connected E st hd' k'" for hd' k'
    using that routed_after(2) [of E ?n _ _ H_io False ?sv x]
    by (fastforce simp: connected_def rh_ok_def)
  moreover have "holds e jl ml D xs C k c ?st data sz"
    using sv by (simp add: holds_def loop_during_def)
  ultimately show ?thesis using io by blast
qed

section \<open>The run\<close>

definition item_pos :: "nat \<Rightarrow> nat \<times> nat \<Rightarrow> nat" where
  "item_pos p x = snd x * p + fst x"

lemma bench_write_ok:
  assumes P: "procs_ok (le_procs E)" and h: "connected E st handle k"
    and sv: "holds e jl ml D xs C k c st data sz" and m: "i * p + r + 100 < 2 ^ 31"
  shows "\<exists>st'. bench_write (loopback E) (le_procs E) scr handle p r i st = Some st'
    \<and> (\<forall>hd' k'. connected E st hd' k' \<longrightarrow> connected E st' hd' k')
    \<and> holds e jl ml D xs C k c st' (data(i * p + r := of_nat (i * p + r + 100))) (max sz (i * p + r + 1))"
proof -
  let ?j = "i * p + r"
  obtain v o1 where v: "c_int (?j + 100) = Some v" and o1: "c_int ?j = Some o1"
    using m by (simp add: c_int_def)
  note V = scast_c_int [OF v] and O = scast_c_int [OF o1]
  have "4 * (unat (scast o1 :: i64) + 1) \<le> vector_max_size"
    using m unfolding O(2) by (simp add: vector_max_size_def)
  from io_write_held [OF P h sv this, of scr "scast v"] obtain st' where
    w: "cachercise_io (loopback E) (le_procs E) scr handle (le_bytes 8 (scast v :: i64)) 8 (scast o1) CACHERCISE_WRITE st
      = Some (8, le_bytes 8 (scast v :: i64), st')"
    "\<forall>hd' k'. connected E st hd' k' \<longrightarrow> connected E st' hd' k'"
    "holds e jl ml D xs C k c st' (data(?j := of_nat (?j + 100))) (max sz (?j + 1))"
    unfolding O(2) V(1) by blast
  then show ?thesis using v o1 by (simp add: bench_write_def)
qed

lemma bench_writes_ok:
  assumes P: "procs_ok (le_procs E)"
    and "\<forall>r. (\<exists>i. (r, i) \<in> set sched) \<longrightarrow> connected E st (hr r) k" and "connected E st h0 k"
    and "holds e jl ml D xs C k c st data sz"
    and "\<forall>x \<in> set sched. item_pos p x + 100 < 2 ^ 31"
  shows "\<exists>st' data' sz'. bench_writes (loopback E) (le_procs E) scr hr p sched st = Some st'
    \<and> connected E st' h0 k \<and> holds e jl ml D xs C k c st' data' sz'
    \<and> (\<forall>j. data' j = (if j \<in> item_pos p ` set sched then of_nat (j + 100) else data j))
    \<and> (\<forall>j \<in> item_pos p ` set sched. j < sz') \<and> sz \<le> sz'"
  using assms(2-)
proof (induction sched arbitrary: st data sz)
  case Nil
  then show ?case by auto
next
  case (Cons x sched)
  obtain r i where x: "x = (r, i)" by (cases x)
  have h: "connected E st (hr r) k" and m: "i * p + r + 100 < 2 ^ 31"
    using Cons.prems(1,4) by (auto simp: x item_pos_def)
  from bench_write_ok [OF P h Cons.prems(3) m, of scr] obtain st1 where
    1: "bench_write (loopback E) (le_procs E) scr (hr r) p r i st = Some st1"
    "\<forall>hd' k'. connected E st hd' k' \<longrightarrow> connected E st1 hd' k'"
    "holds e jl ml D xs C k c st1 (data(i * p + r := of_nat (i * p + r + 100))) (max sz (i * p + r + 1))" by blast
  have "\<forall>r. (\<exists>i. (r, i) \<in> set sched) \<longrightarrow> connected E st1 (hr r) k" "connected E st1 h0 k"
    "\<forall>x \<in> set sched. item_pos p x + 100 < 2 ^ 31"
    using Cons.prems 1(2) by auto
  from Cons.IH [OF this(1,2) 1(3) this(3)] obtain st' data' sz' where
    2: "bench_writes (loopback E) (le_procs E) scr hr p sched st1 = Some st'"
    "connected E st' h0 k" "holds e jl ml D xs C k c st' data' sz'"
    "\<forall>j. data' j = (if j \<in> item_pos p ` set sched then of_nat (j + 100)
        else (data(i * p + r := of_nat (i * p + r + 100))) j)"
    "\<forall>j \<in> item_pos p ` set sched. j < sz'" "max sz (i * p + r + 1) \<le> sz'" by blast
  have ix: "item_pos p x = i * p + r" by (simp add: x item_pos_def)
  show ?case
  proof (intro exI conjI)
    show "bench_writes (loopback E) (le_procs E) scr hr p (x # sched) st = Some st'"
      using 1(1) 2(1) by (simp add: x)
    show "\<forall>j. data' j = (if j \<in> item_pos p ` set (x # sched) then of_nat (j + 100) else data j)"
      unfolding 2(4) [rule_format] by (simp add: ix)
    show "\<forall>j \<in> item_pos p ` set (x # sched). j < sz'" "sz \<le> sz'"
      using 2(5,6) by (auto simp: ix)
  qed (rule 2(2), rule 2(3))
qed

lemma bench_verify_ok:
  assumes P: "procs_ok (le_procs E)"
    and "connected E st h0 k" and "holds e jl ml D xs C k c st data sz"
    and "\<forall>i \<in> {j..<j + m}. data i = of_nat (i + 100)" and "j + m \<le> sz" and "j + m < 2 ^ 64"
  shows "\<exists>st'. bench_verify (loopback E) (le_procs E) scr h0 m j cmp 0 st = Some (0, st')
    \<and> connected E st' h0 k \<and> holds e jl ml D xs C k c st' data sz"
  using assms(2-)
proof (induction m arbitrary: j cmp st)
  case (Suc m)
  have u: "unat (of_nat j :: i64) = j" by (rule unat_of_nat_lt) (use Suc.prems(5) in simp)
  have "unat (of_nat j :: i64) < sz" using Suc.prems(4) by (simp add: u)
  from io_read_held [OF P Suc.prems(1,2) this, of "le_bytes 8 cmp" scr] obtain st1 where
    1: "cachercise_io (loopback E) (le_procs E) scr h0 (le_bytes 8 cmp) 8 (of_nat j) CACHERCISE_READ st
      = Some (8, le_bytes 8 (data j), st1)"
    "connected E st1 h0 k" "holds e jl ml D xs C k c st1 data sz"
    using Suc.prems(1) unfolding u by auto
  have d: "data j = of_nat (j + 100)" using Suc.prems(3) by simp
  have n: "(of_le_bytes (le_bytes 8 (data j)) :: i64) = of_nat (j + 100)"
    unfolding d by (rule of_le_bytes_le_bytes) simp
  have "\<exists>st'. bench_verify (loopback E) (le_procs E) scr h0 m (Suc j) (of_nat (j + 100)) 0 st1 = Some (0, st')
      \<and> connected E st' h0 k \<and> holds e jl ml D xs C k c st' data sz"
    by (rule Suc.IH [OF 1(2,3)]) (use Suc.prems in auto)
  then show ?case by (simp only: bench_verify.simps 1(1) bind.simps(2) prod.case Let_def n) simp
qed simp

text \<open>
  Whatever the interleaving of the ranks, the check of rank 0 counts no error.
\<close>

lemma bench_no_errors:
  assumes P: "procs_ok (le_procs E)" and s: "full_schedule p n sched"
    and hs: "\<forall>r < p. connected E st (hr r) k" and p: "0 < p"
    and sv: "holds e jl ml D xs C k c st data 0" and m: "n * p + 100 < 2 ^ 31"
  shows "\<exists>st1 st2. bench_writes (loopback E) (le_procs E) scr hr p sched st = Some st1
    \<and> bench_verify (loopback E) (le_procs E) scr' (hr 0) (n * p) 0 cmp 0 st1 = Some (0, st2)"
proof -
  have set: "set sched = {(r, i). r < p \<and> i < n}" using s by (simp add: full_schedule_def)
  have c1: "\<forall>r. (\<exists>i. (r, i) \<in> set sched) \<longrightarrow> connected E st (hr r) k" using hs by (simp add: set)
  have c2: "\<forall>x \<in> set sched. item_pos p x + 100 < 2 ^ 31"
  proof
    fix x assume "x \<in> set sched"
    then obtain r i where x: "x = (r, i)" "r < p" "i < n" by (auto simp: set)
    from item_less [OF x(2,3)] m show "item_pos p x + 100 < 2 ^ 31"
      unfolding x(1) item_pos_def fst_conv snd_conv by linarith
  qed
  have all: "j \<in> item_pos p ` set sched" if "j < n * p" for j
    using item_at [OF that] by (intro image_eqI [of _ _ "(j mod p, j div p)"]) (auto simp: set item_pos_def)
  have h0: "connected E st (hr 0) k" using hs p by blast
  from bench_writes_ok [OF P c1 h0 sv c2, of scr] obtain st1 data1 sz1 where
    1: "bench_writes (loopback E) (le_procs E) scr hr p sched st = Some st1"
    "connected E st1 (hr 0) k" "holds e jl ml D xs C k c st1 data1 sz1"
    "\<forall>j. data1 j = (if j \<in> item_pos p ` set sched then of_nat (j + 100) else data j)"
    "\<forall>j \<in> item_pos p ` set sched. j < sz1" by blast
  have "n * p \<le> sz1"
  proof (cases "n * p")
    case (Suc q)
    then have "q < sz1" using all 1(5) by auto
    with Suc show ?thesis by simp
  qed auto
  with bench_verify_ok [OF P 1(2,3), of 0 "n * p" scr' cmp] all 1(4) m
  have "\<exists>st2. bench_verify (loopback E) (le_procs E) scr' (hr 0) (n * p) 0 cmp 0 st1 = Some (0, st2)"
    by auto
  with 1(1) show ?thesis by blast
qed

section \<open>The heaps of the client are left alone\<close>

lemma bench_writes_only_net:
  "bench_writes N P scr hr p sched st = Some st' \<Longrightarrow> only_net st st'"
proof (induction sched arbitrary: st)
  case (Cons x sched)
  from Cons.prems obtain st1 where
    "bench_write N P scr (hr (fst x)) p (fst x) (snd x) st = Some st1" "bench_writes N P scr hr p sched st1 = Some st'"
    by (auto simp: bind_Some_iff)
  then show ?case
    using Cons.IH io_only_net by (fastforce simp: bench_write_def bind_Some_iff intro: only_net_trans)
qed simp

lemma bench_verify_only_net:
  "bench_verify N P scr h m j cmp e st = Some (e', st') \<Longrightarrow> only_net st st'"
proof (induction m arbitrary: j cmp e st)
  case (Suc m)
  from Suc.prems obtain r b st1 where io: "cachercise_io N P scr h (le_bytes 8 cmp) 8 (of_nat j) CACHERCISE_READ st = Some (r, b, st1)"
    by (auto simp: bind_Some_iff)
  then have "only_net st1 st'"
    using Suc.prems Suc.IH by (auto simp: Let_def split: if_splits)
  with io_only_net [OF io] show ?case by (rule only_net_trans)
qed simp

end
