(* ===== verification/Remote_Instance.thy ===== *)
theory Remote_Instance
  imports Bench Instance
begin

text \<open>
  The concrete server of theory \<open>Instance\<close> behind a loopback, with an administrator
  and a client that have a cache handle, for the evaluation of theorems about the
  client side.
\<close>

definition ref_env :: lp_env where
  "ref_env = \<lparr>le_procs = ref_procs, le_id = (\<lambda>s. ref_rid s 0), le_mux = (\<lambda>i p. i), le_calloc = True,
     le_create = create_out, le_open = open_out, le_close = \<lparr>cl_ret = 99\<rparr>, le_destroy = \<lparr>ds_ret = 99\<rparr>,
     le_list = \<lparr>lo_ret = 99, lo_count = 99, lo_ids = None\<rparr>, le_sum = sum_out0, le_io = io_out0\<rparr>"

text \<open>The registrations of a provider with id 42, and \<open>uuid_generate\<close> at 7, 8, 9, \<open>\<dots>\<close>.\<close>

definition loop_of :: "ref_lib dworld server \<Rightarrow> ref_lib dworld loop" where
  "loop_of sv = \<lparr>lp_server = sv, lp_up = True,
     lp_regs = regs_after (\<lambda>n. ref_rid n 42) (Some 0) rpc_table Map.empty,
     lp_calls = [], lp_names = [], lp_uuids = (\<lambda>n. 7 + of_nat n), lp_clock = 0\<rparr>"

definition admin1 :: cachercise_admin where
  "admin1 = \<lparr>ad_mid = Some 0, ad_create_cache_id = 1, ad_open_cache_id = 2, ad_close_cache_id = 3,
     ad_destroy_cache_id = 4, ad_list_caches_id = 5\<rparr>"

definition aworld_of :: "ref_lib dworld server \<Rightarrow> ref_lib dworld loop aworld" where
  "aworld_of sv = \<lparr>admins = plenty\<lparr>cells := [0 \<mapsto> admin1], brk := 1\<rparr>, anet = loop_of sv\<rparr>"

definition client1 :: cachercise_client where
  "client1 = \<lparr>c_mid = Some 0, c_hello_id = 6, c_sum_id = 7, c_io_id = 8, c_num_cache_handles = 1\<rparr>"

definition handle1 :: cachercise_cache_handle where
  "handle1 = \<lparr>rh_client = Some 0, rh_addr = Some 5, rh_provider_id = 42, rh_refcount = 1, rh_cache_id = 7\<rparr>"

definition cworld0 :: "ref_lib dworld loop cworld" where
  "cworld0 = \<lparr>clients = plenty, rhs = plenty, network = loop_of server1, warnings = []\<rparr>"

definition cworld1 :: "ref_lib dworld loop cworld" where
  "cworld1 = \<lparr>clients = plenty\<lparr>cells := [0 \<mapsto> client1], brk := 1\<rparr>,
     rhs = plenty\<lparr>cells := [0 \<mapsto> handle1], brk := 1\<rparr>, network = loop_of server1, warnings = []\<rparr>"

lemma ref_env_simps [simp]:
  "le_procs ref_env = ref_procs" "le_calloc ref_env" "le_create ref_env = create_out"
  "le_close ref_env = \<lparr>cl_ret = 99\<rparr>" "le_sum ref_env = sum_out0" "le_io ref_env = io_out0"
  by (simp_all add: ref_env_def)

lemma loop_of_simps [simp]:
  "lp_server (loop_of sv) = sv" "next_uuid (loop_of sv) = 7" "lp_calls (loop_of sv) = []"
  by (simp_all add: loop_of_def next_uuid_def)

lemma loop_of_routed:
  assumes "self sv = Some 0"
  shows "routed ref_env (loop_of sv) 42 1 H_create False" "routed ref_env (loop_of sv) 42 3 H_close False"
    "routed ref_env (loop_of sv) 42 5 H_list False" "routed ref_env (loop_of sv) 42 6 H_hello True"
    "routed ref_env (loop_of sv) 42 7 H_sum False" "routed ref_env (loop_of sv) 42 8 H_io False"
  using assms by (simp_all add: routed_def loop_of_def ref_env_def rpc_table_def ref_rid_def)

lemma aworld_of_simps [simp]:
  "cells (admins (aworld_of sv)) 0 = Some admin1" "anet (aworld_of sv) = loop_of sv"
  by (simp_all add: aworld_of_def)

lemma cworld1_ok: "rh_ok cworld1 (Some 0) handle1 client1" "network cworld1 = loop_of server1"
  by (simp_all add: cworld1_def rh_ok_def handle1_def)

lemma cworld1_routed:
  "routed ref_env (network cworld1) (rh_provider_id handle1) (c_sum_id client1) H_sum False"
  "routed ref_env (network cworld1) (rh_provider_id handle1) (c_io_id client1) H_io False"
  using loop_of_routed [OF server1_ok(5)] by (simp_all add: cworld1_ok handle1_def client1_def)

lemma cworld1_clients: "clients_ok cworld1"
proof -
  have "rhs_of cworld1 0 = {0}"
    by (auto simp: rhs_of_def cworld1_def handle1_def split: if_splits)
  then show ?thesis
    by (intro clients_okI)
      (auto simp: cworld1_def heap_wf_def handle1_def client1_def rhs_of_def split: if_splits)
qed

lemma cworld1_counts: "counts_ok cworld1" "orphans cworld1 = {}"
proof -
  have "rhs_of cworld1 0 = {0}"
    by (auto simp: rhs_of_def cworld1_def handle1_def split: if_splits)
  then show "counts_ok cworld1"
    by (auto simp: counts_ok_def cworld1_def heap_wf_def handle1_def client1_def rhs_of_def split: if_splits)
  show "orphans cworld1 = {}" using cworld1_clients unfolding clients_ok_iff by blast
qed

lemma server1_hoard:
  "cache_hoard (world server1) (Some 0) = Some 0" "hoards (world server1) = hoards1"
  by (simp_all add: server1_ok(2) world1_def cache_hoard_def hoards1_def)

text \<open>The same client when its server is down.\<close>

definition cworld2 :: "ref_lib dworld loop cworld" where
  "cworld2 = cworld1\<lparr>network := (loop_of server1)\<lparr>lp_up := False\<rparr>\<rparr>"

lemma cworld2_ok:
  "rh_ok cworld2 (Some 0) handle1 client1" "network cworld2 = (loop_of server1)\<lparr>lp_up := False\<rparr>"
  using cworld1_ok(1) by (simp_all add: cworld2_def rh_ok_def)

text \<open>The first I/O of the client that is up.\<close>

lemma cworld1_io:
  assumes "length buf = 8"
  shows "\<exists>st1 st2. cachercise_io (loopback ref_env) ref_procs 0 (Some 0) buf 8 3 CACHERCISE_WRITE cworld1 = Some (8, buf, st1)
    \<and> ref_server (lp_server (network st1)) [addr1] {(Some 0, Some 0)}
    \<and> loop_hs (network st1) 0 = Some True
    \<and> cachercise_io (loopback ref_env) ref_procs 0 (Some 0) buf 8 3 CACHERCISE_READ st1 = Some (8, buf, st2)"
proof -
  have "hoard_fits (Some 0) (hoards (world server1)) 1 3"
    by (simp add: server1_hoard hoards1(3) vector_max_size_def)
  then show ?thesis
    using client_write_read [of ref_env cworld1 "Some 0" handle1 client1 ref_ext ref_jl ref_ml "Some 0" "[addr1]"
        "{(Some 0, Some 0)}" "Some 0" "Some 0" 3 buf buf 0 0] ref_procs_ok cworld1_ok cworld1_routed server1_addr
      server1_hoard(1) assms
    by (simp add: handle1_def)
qed

text \<open>Its cache is empty, and every rank can use its handle.\<close>

lemma cworld1_bench:
  "connected ref_env cworld1 (Some 0) 7"
  "holds ref_ext ref_jl ref_ml (Some 0) [addr1] {(Some 0, Some 0)} 7 (Some 0) cworld1
     (cache_data (world server1) (Some 0)) 0"
proof -
  show "connected ref_env cworld1 (Some 0) 7"
    using cworld1_ok cworld1_routed(2) unfolding connected_def
    by (intro exI [of _ handle1] exI [of _ client1]) (simp add: handle1_def)
  have "\<forall>i. grants (hoards (world server1)) i" by (simp add: server1_hoard(2) hoards1_def)
  then show "holds ref_ext ref_jl ref_ml (Some 0) [addr1] {(Some 0, Some 0)} 7 (Some 0) cworld1
     (cache_data (world server1) (Some 0)) 0"
    using server1_addr(1,3) server1_hoard(1) by (simp add: holds_def Let_def cworld1_ok(2))
qed

lemma server0_self: "self server0 = Some 0"
  by (simp add: server0_def)

end
