(* ===== verification/Bedrock.thy ===== *)
theory Bedrock
  imports Client Registration
begin

text \<open>
  The Bedrock module, \<open>src/bedrock-module.c\<close>: the functions through which the Bedrock
  daemon starts and stops providers and clients.  Bedrock's argument object is the
  record of what its accessors return; margo's functions on addresses take the
  instance here, since a provider handle carries one of its own.
\<close>

section \<open>Providers\<close>

text \<open>
  \<open>bedrock_args_get_margo_instance\<close>, \<open>_provider_id\<close>, \<open>_config\<close>, \<open>_pool\<close> and the
  first dependency named \<open>abt_io\<close>.
\<close>

record bedrock_args =
  ba_margo_instance :: ptr
  ba_provider_id :: u16
  ba_config :: "string option"
  ba_pool :: ptr
  ba_abt_io :: ptr

definition cachercise_register_provider ::
  "'g margo \<Rightarrow> bool \<Rightarrow> ptr \<Rightarrow> ptr \<Rightarrow> bedrock_args \<Rightarrow> 'g
    \<Rightarrow> (cachercise_return_t \<times> cachercise_provider option \<times> 'g) option" where
  "cachercise_register_provider mg granted dummy pp args g =
     (let cachercise_args = \<lparr>a_token = None, a_config = ba_config args, a_pool = ba_pool args,
                             a_abtio = ba_abt_io args\<rparr> in
      cachercise_provider_register mg granted dummy pp (ba_margo_instance args) (ba_provider_id args)
        (Some cachercise_args) g)"

definition cachercise_deregister_provider ::
  "'g margo \<Rightarrow> 'w server \<Rightarrow> 'g \<Rightarrow> (cachercise_return_t \<times> 'w server \<times> 'g) option" where
  "cachercise_deregister_provider mg provider g = cachercise_provider_destroy mg provider g"

text \<open>\<open>strdup("{}")\<close>; \<open>granted\<close> is the outcome of its allocation.\<close>

definition cachercise_get_provider_config :: "bool \<Rightarrow> string option" where
  "cachercise_get_provider_config granted = (if granted then Some ''{}'' else None)"

section \<open>Clients\<close>

definition cachercise_init_client ::
  "'n net \<Rightarrow> bedrock_args \<Rightarrow> 'n cworld \<Rightarrow> (i32 \<times> ptr \<times> 'n cworld) option" where
  "cachercise_init_client N args st = cachercise_client_init N (ba_margo_instance args) st"

definition cachercise_finalize_client :: "ptr \<Rightarrow> 'n cworld \<Rightarrow> (i32 \<times> 'n cworld) option" where
  "cachercise_finalize_client client st = cachercise_client_finalize client st"

definition cachercise_get_client_config :: "bool \<Rightarrow> string option" where
  "cachercise_get_client_config granted = (if granted then Some ''{}'' else None)"

section \<open>Provider handles\<close>

record cachercise_provider_handle =
  ph_mid :: ptr
  ph_addr :: ptr
  ph_provider_id :: u16

text \<open>
  \<open>dup mid addr\<close> gives the address \<open>margo_addr_dup\<close> stores, \<open>NULL\<close> when it fails;
  \<open>dealloc mid addr\<close> is \<open>margo_addr_free\<close>.  Neither the result of \<open>calloc\<close> nor that of
  \<open>margo_addr_dup\<close> is checked, and \<open>mid\<close> keeps the zero of \<open>calloc\<close>.
\<close>

definition zero_ph :: cachercise_provider_handle where
  "zero_ph = \<lparr>ph_mid = NULL, ph_addr = NULL, ph_provider_id = 0\<rparr>"

definition BEDROCK_SUCCESS :: i32 where "BEDROCK_SUCCESS = 0"

definition cachercise_create_provider_handle ::
  "(ptr \<Rightarrow> ptr \<Rightarrow> 'n \<Rightarrow> ptr \<times> 'n) \<Rightarrow> ptr \<Rightarrow> ptr \<Rightarrow> u16 \<Rightarrow> cachercise_client heap
    \<Rightarrow> cachercise_provider_handle heap \<Rightarrow> 'n \<Rightarrow> (i32 \<times> ptr \<times> cachercise_provider_handle heap \<times> 'n) option" where
  "cachercise_create_provider_handle dup client address pid cs phs n = do {
     let (tmp, phs) = h_alloc zero_ph phs;
     c \<leftarrow> h_load client cs;
     let (a, n) = dup (c_mid c) address n;
     phs \<leftarrow> h_update tmp (\<lambda>x. x\<lparr>ph_addr := a, ph_provider_id := pid\<rparr>) phs;
     Some (BEDROCK_SUCCESS, tmp, phs, n) }"

definition cachercise_destroy_provider_handle ::
  "(ptr \<Rightarrow> ptr \<Rightarrow> 'n \<Rightarrow> 'n option) \<Rightarrow> ptr \<Rightarrow> cachercise_provider_handle heap \<Rightarrow> 'n
    \<Rightarrow> (i32 \<times> cachercise_provider_handle heap \<times> 'n) option" where
  "cachercise_destroy_provider_handle dealloc ph phs n = do {
     x \<leftarrow> h_load ph phs;
     n \<leftarrow> dealloc (ph_mid x) (ph_addr x) n;
     phs \<leftarrow> h_free ph phs;
     Some (BEDROCK_SUCCESS, phs, n) }"

text \<open>
  The address of a provider handle is duplicated at the instance of the client and
  freed at none.
\<close>

lemma provider_handle_life:
  assumes "h_load client cs = Some c" and "grants phs (brk phs)"
    and "dup (c_mid c) address n = (a, n1)" and "heap_wf phs"
  shows "\<exists>ph phs1. cachercise_create_provider_handle dup client address pid cs phs n
      = Some (BEDROCK_SUCCESS, ph, phs1, n1)
    \<and> cachercise_destroy_provider_handle dealloc ph phs1 n1
      = map_option (\<lambda>n2. (BEDROCK_SUCCESS, phs\<lparr>brk := Suc (brk phs)\<rparr>, n2)) (dealloc NULL a n1)"
proof -
  have "cells phs (brk phs) = None" using assms(4) by simp
  then have e: "(cells phs)(brk phs := None) = cells phs" by auto
  show ?thesis
    using assms(1-3)
    by (cases "dealloc NULL a n1")
      (simp_all add: cachercise_create_provider_handle_def cachercise_destroy_provider_handle_def
        h_alloc_granted zero_ph_def e)
qed

text \<open>
  Bedrock passes no token: the provider whose RPCs it registers accepts every request.  The
  registration itself ends like every other.
\<close>

lemma bedrock_provider_open:
  assumes mg: "margo_ok mg regs rid"
    and l: "margo_is_listening mg g" "\<not> margo_provider_registered_name mg ''cachercise_sum'' (ba_provider_id args) g"
    and s: "pp \<noteq> NULL" and a: "a = \<lparr>a_token = None, a_config = ba_config args, a_pool = ba_pool args, a_abtio = ba_abt_io args\<rparr>"
  shows "\<exists>p g'. register_rpcs mg pp (new_provider (ba_margo_instance args) (ba_provider_id args) a) g = (p, g')
    \<and> regs g' = regs_after (\<lambda>n. rid n (ba_provider_id args)) pp rpc_table (regs g)
    \<and> (\<forall>t. check_token p t = Some True)
    \<and> cachercise_register_provider mg granted dummy pp args g = None"
  using provider_rpcs_ok [OF mg, of pp "ba_margo_instance args" "ba_provider_id args" a g]
    provider_register_overflows [OF l s, of granted dummy "ba_margo_instance args" a]
  by (auto simp: cachercise_register_provider_def check_token_def a)

end
