(* ===== verification/Client_Properties.thy ===== *)
theory Client_Properties
  imports Remote_Instance Bedrock
begin

text \<open>
  The properties of the client side: the wire format, the use of RPC handles, the
  reference counts of cache handles, and the two libraries joined to a server.
\<close>

section \<open>The wire\<close>

text \<open>
  C25: the reply to a listing, encoded and decoded by the hand-written proc, arrives
  with the first \<open>count\<close> of its ids.
\<close>

theorem list_reply_arrives:
  assumes "procs_ok P" and "lo_ids out = Some ids" and "unat (lo_count out) \<le> length ids"
    and "unat (lo_count out) * 16 < 2 ^ 64"
  shows "\<exists>bs. encode_list_caches_out_t P out = Some bs
    \<and> decode_list_caches_out_t P True (bs @ r)
       = Some (out\<lparr>lo_ids := Some (take (unat (lo_count out)) ids)\<rparr>, r)"
  using assms by (rule list_reply_round_trip)

lemma list_reply_arrives_witness:
  "\<exists>bs. encode_list_caches_out_t ref_procs \<lparr>lo_ret = 0, lo_count = 2, lo_ids = Some [7, 8, 9]\<rparr> = Some bs
    \<and> decode_list_caches_out_t ref_procs True (bs @ [1])
       = Some (\<lparr>lo_ret = 0, lo_count = 2, lo_ids = Some [7, 8]\<rparr>, [1])"
  using list_reply_arrives [OF ref_procs_ok, of "\<lparr>lo_ret = 0, lo_count = 2, lo_ids = Some [7, 8, 9]\<rparr>" "[7, 8, 9]" "[1]"]
  by simp

text \<open>
  C26: the error replies of the listing carry no array, but a count: the receiver
  reads \<open>16 * count\<close> bytes that nobody has sent, unless its allocation fails.
\<close>

theorem list_error_overreads:
  assumes "procs_ok P" and "lo_ids out = None"
  shows "\<exists>bs. encode_list_caches_out_t P out = Some bs
    \<and> decode_list_caches_out_t P granted (bs @ r)
       = (if granted \<and> unat (lo_count out) * 16 < 2 ^ 64
          then map_option (\<lambda>(x, b). (out\<lparr>lo_ids := Some (ids_of_bytes (unat (lo_count out)) x)\<rparr>, b))
                 (decode (hg_proc_memcpy P (unat (16 * lo_count out))) r)
          else Some (out, r))"
  using assms by (rule list_error_decode)

lemma list_error_overreads_witness:
  "\<exists>bs. encode_list_caches_out_t ref_procs \<lparr>lo_ret = 7, lo_count = 1, lo_ids = None\<rparr> = Some bs
    \<and> decode_list_caches_out_t ref_procs True bs = None"
  using list_error_overreads [OF ref_procs_ok, of "\<lparr>lo_ret = 7, lo_count = 1, lo_ids = None\<rparr>" True "[]"]
  by (auto simp: ref_procs_def raw_proc_def)

section \<open>RPC handles\<close>

text \<open>
  C23: the four admin operations that return a code or an id return, and give back
  the RPC handle and the output on every path, success and error.
\<close>

theorem admin_operations_release:
  assumes "net_ok N hs" and "h_load admin (admins st) = Some a"
  shows "\<exists>r1 i1 s1 r2 i2 s2 r3 s3 r4 s4.
      cachercise_create_cache N P admin addr p tok type cfg st = Some (r1, i1, s1)
    \<and> cachercise_open_cache N P admin addr p tok type cfg st = Some (r2, i2, s2)
    \<and> cachercise_close_cache N P admin addr p tok uid st = Some (r3, s3)
    \<and> cachercise_destroy_cache N P admin addr p tok uid st = Some (r4, s4)
    \<and> (\<forall>s \<in> {s1, s2, s3, s4}. hs (anet s) = hs (anet st))"
proof -
  have m: "margo_net N hs" by unfold_locales (rule assms(1))
  note R = margo_net.admin_calls_release [OF m assms(2), where P = P and addr = addr and p = p]
  from R(1) [where token = tok and type = type and config = cfg] R(2) [where token = tok and type = type and config = cfg]
    R(3) [where token = tok and uid = uid] R(4) [where token = tok and uid = uid]
  show ?thesis by fastforce
qed

lemma admin_operations_release_witness:
  "\<exists>r1 i1 s1 r2 i2 s2 r3 s3 r4 s4.
      cachercise_create_cache (loopback ref_env) ref_procs (Some 0) (Some 5) 42 None None None (aworld_of server0)
        = Some (r1, i1, s1)
    \<and> cachercise_open_cache (loopback ref_env) ref_procs (Some 0) (Some 5) 42 None None None (aworld_of server0)
        = Some (r2, i2, s2)
    \<and> cachercise_close_cache (loopback ref_env) ref_procs (Some 0) (Some 5) 42 None 7 (aworld_of server0) = Some (r3, s3)
    \<and> cachercise_destroy_cache (loopback ref_env) ref_procs (Some 0) (Some 5) 42 None 7 (aworld_of server0) = Some (r4, s4)
    \<and> (\<forall>s \<in> {s1, s2, s3, s4}. loop_hs (anet s) = loop_hs (anet (aworld_of server0)))"
  by (rule admin_operations_release [OF loopback_ok, of _ _ admin1]) simp

text \<open>
  C24: \<open>cachercise_io\<close> gives no RPC handle back.  After every call that got one the handle,
  which was not live before, is live; its output is still held exactly when the request was
  forwarded and margo handed out an output, whatever the function returns then.
\<close>

theorem io_leaks_handle:
  assumes "net_ok N hs" and "rh_ok st handle rh c"
    and "margo_create N (rh_addr rh) (c_io_id c) (network st) = (Some h, n1)"
    and "cachercise_io N P scr handle buf cnt offset kind st = Some (ret, buf', st')"
  shows "\<exists>w ok n2. io_scratch_in scr buf cnt kind = Some w
    \<and> margo_provider_forward N (rh_provider_id rh) h (encode (hg_proc_io_in_t P)
        \<lparr>io_cache_id = rh_cache_id rh, io_count = cnt, io_offset = offset, io_scratch = w, io_kind = scast kind\<rparr>) n1
      = Some (ok, n2)
    \<and> hs (network st) h = None
    \<and> hs (network st') = (hs (network st))
        (h \<mapsto> ok \<and> fst (margo_get_output N h (\<lambda>b. decode (hg_proc_io_out_t P) b \<noteq> None) n2) \<noteq> None)"
proof -
  have "margo_net N hs" by unfold_locales (rule assms(1))
  from margo_net.io_keeps_handle [OF this assms(2-4)] show ?thesis .
qed

text \<open>At the usual success, a write of eight bytes that returns 8, the output is held.\<close>

lemma io_leaks_handle_witness:
  "\<exists>st1. cachercise_io (loopback ref_env) ref_procs 0 (Some 0) (replicate 8 1) 8 3 CACHERCISE_WRITE cworld1
      = Some (8, replicate 8 1, st1)
    \<and> loop_hs (network cworld1) 0 = None \<and> loop_hs (network st1) = (loop_hs (network cworld1))(0 \<mapsto> True)"
proof -
  obtain st1 where st1: "cachercise_io (loopback ref_env) ref_procs 0 (Some 0) (replicate 8 1) 8 3 CACHERCISE_WRITE cworld1
      = Some (8, replicate 8 1, st1)" "loop_hs (network st1) 0 = Some True" using cworld1_io [of "replicate 8 1"] by auto
  have "margo_create (loopback ref_env) (rh_addr handle1) (c_io_id client1) (network cworld1)
      = (Some 0, created (c_io_id client1) (network cworld1))"
    by (simp add: loop_create cworld1_ok(2))
  from io_leaks_handle [OF loopback_ok cworld1_ok(1) this st1(1)] st1
  show ?thesis by (metis (no_types, lifting) fun_upd_same option.inject)
qed

text \<open>
  When \<open>cachercise_compute_sum\<close> gets no reply it frees an output that was never
  obtained, which margo does not allow.
\<close>

theorem compute_sum_frees_nothing:
  assumes "net_ok N hs" and "rh_ok st handle rh c"
    and "margo_create N (rh_addr rh) (c_sum_id c) (network st) = (Some h, n1)"
    and "margo_provider_forward N (rh_provider_id rh) h
        (encode (hg_proc_sum_in_t P) \<lparr>su_cache_id = rh_cache_id rh, su_x = x, su_y = y\<rparr>) n1 = Some (ok, n2)"
    and "ok \<longrightarrow> fst (margo_get_output N h (\<lambda>b. decode (hg_proc_sum_out_t P) b \<noteq> None) n2) = None"
  shows "cachercise_compute_sum N P handle x y st = None"
proof -
  have "margo_net N hs" by unfold_locales (rule assms(1))
  from margo_net.compute_sum_no_output [OF this assms(2-5)] show ?thesis .
qed

lemma compute_sum_frees_nothing_witness:
  "cachercise_compute_sum (loopback ref_env) ref_procs (Some 0) 20 22 cworld2 = None"
proof -
  let ?n = "created (c_sum_id client1) (network cworld2)"
  have c: "margo_create (loopback ref_env) (rh_addr handle1) (c_sum_id client1) (network cworld2) = (Some 0, ?n)"
    by (simp add: loop_create cworld2_ok(2))
  have "margo_provider_forward (loopback ref_env) (rh_provider_id handle1) 0
      (encode (hg_proc_sum_in_t ref_procs) \<lparr>su_cache_id = rh_cache_id handle1, su_x = 20, su_y = 22\<rparr>) ?n = Some (False, ?n)"
    by (simp add: loopback_def loop_forward_def get_call_def cworld2_ok(2))
  from compute_sum_frees_nothing [OF loopback_ok cworld2_ok(1) c this] show ?thesis by simp
qed

section \<open>Cache handles\<close>

text \<open>
  C22: whatever a program does with clients and handles, the finalisation of a client that
  still has handles included: as long as no counter wraps around, every handle has a
  reference, and the counter of each client that is allocated is the number of its handles.
  A client that is finalised too early is freed after a warning with its counter; at any
  time the handles whose client is gone are no more than the warnings have counted, so
  that without a warning every handle has a live client.
\<close>

theorem handle_counts_invariant:
  assumes "creachable N st0 st" and "counts_ok st0" and "orphans st0 = {}"
  shows "counts_ok st \<and> finite (orphans st)
    \<and> (\<exists>ws. warnings st = warnings st0 @ ws \<and> card (orphans st) \<le> sum_list (map unat ws))"
proof -
  note c = creachable_counts [OF assms]
  then have "heap_wf (rhs st)" by (simp add: counts_ok_def)
  with c finite_orphans show ?thesis by blast
qed

lemma handle_counts_invariant_witness:
  "\<exists>st1 st2. cachercise_cache_handle_ref_incr (Some 0) cworld1 = Some (0, st1)
    \<and> cachercise_client_finalize (Some 0) st1 = Some (0, st2) \<and> warnings st2 = [1] \<and> orphans st2 = {0}
    \<and> counts_ok st2"
proof -
  let ?st1 = "cworld1\<lparr>rhs := (rhs cworld1)\<lparr>cells := [0 \<mapsto> handle1\<lparr>rh_refcount := 2\<rparr>]\<rparr>\<rparr>"
  let ?st2 = "?st1\<lparr>clients := (clients cworld1)\<lparr>cells := Map.empty\<rparr>, warnings := [1]\<rparr>"
  have i: "cachercise_cache_handle_ref_incr (Some 0) cworld1 = Some (0, ?st1)"
    by (simp add: cachercise_cache_handle_ref_incr_def cworld1_def handle1_def ret_code_def)
  have f: "cachercise_client_finalize (Some 0) ?st1 = Some (0, ?st2)"
    by (simp add: cachercise_client_finalize_def cworld1_def client1_def h_free_def ret_code_def)
  have "cstep (loopback ref_env) cworld1 ?st1"
    by (rule cs_incr [OF _ i]) (simp add: cworld1_def handle1_def)
  from cr_step [OF cr_init this] cs_finalize [OF f]
  have r: "creachable (loopback ref_env) cworld1 ?st2" by (rule cr_step)
  have o: "orphans ?st2 = {0}" by (auto simp: orphans_def handle1_def split: if_splits)
  from handle_counts_invariant [OF r cworld1_counts] i f o show ?thesis by auto
qed

text \<open>
  A cache handle shared \<open>n\<close> times survives \<open>n\<close> releases, which restore the state;
  the next release frees it, counts it off at its client and gives up its address.
\<close>

theorem handle_lifetime:
  assumes "cells (rhs st) h = Some rh" and "rh_refcount rh = 1" and "n + 1 < 2 ^ 64"
    and "rh_client rh = Some c" and "cells (clients st) c = Some cl"
  shows "\<exists>st1 st3. repeat_op n (cachercise_cache_handle_ref_incr (Some h)) st = Some st1
    \<and> repeat_op n (cachercise_cache_handle_release N (Some h)) st1 = Some st
    \<and> cachercise_cache_handle_release N (Some h) st = Some (ret_code CACHERCISE_SUCCESS, st3)
    \<and> cells (rhs st3) = (cells (rhs st))(h := None)
    \<and> cells (clients st3) = (cells (clients st))(c \<mapsto> cl\<lparr>c_num_cache_handles := c_num_cache_handles cl - 1\<rparr>)
    \<and> network st3 = margo_addr_free N (rh_addr rh) (network st)"
  using assms by (rule handle_life)

lemma handle_lifetime_witness:
  "\<exists>st1 st3. repeat_op 5 (cachercise_cache_handle_ref_incr (Some 0)) cworld1 = Some st1
    \<and> repeat_op 5 (cachercise_cache_handle_release (loopback ref_env) (Some 0)) st1 = Some cworld1
    \<and> cachercise_cache_handle_release (loopback ref_env) (Some 0) cworld1 = Some (0, st3)
    \<and> cells (rhs st3) 0 = None \<and> c_num_cache_handles (the (cells (clients st3) 0)) = 0"
proof -
  have "cells (rhs cworld1) 0 = Some handle1" "cells (clients cworld1) 0 = Some client1"
    "rh_refcount handle1 = 1" "rh_client handle1 = Some 0" "c_num_cache_handles client1 = 1"
    by (simp_all add: cworld1_def handle1_def client1_def)
  with handle_lifetime [of cworld1 0 handle1 5 0 client1 "loopback ref_env"] show ?thesis by fastforce
qed

section \<open>Calls to a server\<close>

text \<open>
  \<open>cachercise_create_cache\<close> over the network is the handler of the server applied
  to the arguments: the caller gets the code of the reply, and the id when the code
  is \<open>CACHERCISE_SUCCESS\<close>.
\<close>

theorem create_cache_remote:
  assumes "procs_ok (le_procs E)" and "h_load admin (admins st) = Some a"
    and "routed E (anet st) p (ad_create_cache_id a) H_create False"
    and "cachercise_create_cache_ult (Some \<lparr>cc_type = type, cc_config = cfg, cc_token = tok\<rparr>)
        (le_create E) (next_uuid (anet st)) (lp_server (anet st)) = Some (out, sv)"
  shows "cachercise_create_cache (loopback E) (le_procs E) admin addr p tok type cfg st
    = Some (cc_ret out, if cc_ret out = ret_code CACHERCISE_SUCCESS then Some (cc_id out) else None,
        st\<lparr>anet := loop_after (anet st) sv\<rparr>)"
  using assms by (rule remote_create)

lemma create_cache_remote_witness:
  "cachercise_create_cache (loopback ref_env) ref_procs (Some 0) (Some 5) 42 (Some ''ABCDEFGH'') (Some ''dummy'')
      (Some ''{}'') (aworld_of server0)
    = Some (0, Some 7, (aworld_of server0)\<lparr>anet := loop_after (loop_of server0) server1\<rparr>)"
  using create_cache_remote [of ref_env "Some 0" "aworld_of server0" admin1 42 "Some ''dummy''" "Some ''{}''"
      "Some ''ABCDEFGH''" "\<lparr>cc_ret = 0, cc_id = 7\<rparr>" server1 "Some 5"]
    loop_of_routed(1) [OF server0_self] server1_ok(4) ref_procs_ok
  by (simp add: admin1_def create_in_def)

text \<open>
  A listing over the network fills the caller's array from its start and leaves
  the rest of it alone; the count it returns is the smaller of the number of caches
  and the count announced, so that nothing is written past the array.
\<close>

theorem list_caches_remote:
  assumes "procs_ok (le_procs E)" and "h_load admin (admins st) = Some a"
    and "routed E (anet st) p (ad_list_caches_id a) H_list False" and "le_calloc E"
    and "table_inv (lp_server (anet st)) xs"
    and "check_token (prov (lp_server (anet st))) tok = Some True"
    and "unat cnt \<le> length ids" and "unat cnt * 16 < 2 ^ 64"
  shows "cachercise_list_caches (loopback E) (le_procs E) True admin addr p tok ids cnt st
    = Some (ret_code CACHERCISE_SUCCESS,
        take (min (length xs) (unat cnt)) (map fst (cache_list (lp_server (anet st)) xs))
          @ drop (min (length xs) (unat cnt)) ids,
        of_nat (min (length xs) (unat cnt)), st\<lparr>anet := loop_after (anet st) (lp_server (anet st))\<rparr>)"
  using assms by (rule remote_list)

lemma list_caches_remote_witness:
  "cachercise_list_caches (loopback ref_env) ref_procs True (Some 0) (Some 5) 42 (Some ''ABCDEFGH'') [0, 0, 0] 3
      (aworld_of server1)
    = Some (0, [7, 0, 0], 1, (aworld_of server1)\<lparr>anet := loop_after (loop_of server1) server1\<rparr>)"
  using list_caches_remote [of ref_env "Some 0" "aworld_of server1" admin1 42 "[addr1]" "Some ''ABCDEFGH''" 3 "[0, 0, 0]" "Some 5"]
    loop_of_routed(3) [OF server1_ok(5)] dummy_serverD(1) [OF server1_addr(1)] server1_token server1_addr(2) ref_procs_ok
  by (simp add: admin1_def)

text \<open>
  An administrator who creates a cache and then lists the caches gets the list of
  before with the new id at its end.
\<close>

theorem create_then_list:
  assumes "procs_ok (le_procs E)" and "h_load admin (admins st) = Some a" and "le_calloc E"
    and "routed E (anet st) p (ad_create_cache_id a) H_create False"
    and "routed E (anet st) p (ad_list_caches_id a) H_list False"
    and "dummy_server e jl ml D (lp_server (anet st)) xs C" and "D \<noteq> NULL"
    and "check_token (prov (lp_server (anet st))) tok = Some True"
    and "backend_named (lp_server (anet st)) nm = D"
    and "table_room (lp_server (anet st))" and "dummy_room (world (lp_server (anet st)))"
    and "cache_map (lp_server (anet st)) xs (next_uuid (anet st)) = None"
    and "dummy_create_cache e (self (lp_server (anet st))) cfg NULL (world (lp_server (anet st)))
        = Some (CACHERCISE_SUCCESS, c, w)"
    and "Suc (length xs) \<le> unat cnt" and "unat cnt \<le> length ids" and "unat cnt * 16 < 2 ^ 64"
  shows "\<exists>st1 st2. cachercise_create_cache (loopback E) (le_procs E) admin addr p tok (Some nm) cfg st
      = Some (ret_code CACHERCISE_SUCCESS, Some (next_uuid (anet st)), st1)
    \<and> cachercise_list_caches (loopback E) (le_procs E) True admin addr p tok ids cnt st1
      = Some (ret_code CACHERCISE_SUCCESS,
          map fst (cache_list (lp_server (anet st)) xs) @ [next_uuid (anet st)] @ drop (Suc (length xs)) ids,
          of_nat (Suc (length xs)), st2)"
  using assms by (rule admin_create_list)

lemma create_then_list_witness:
  "\<exists>st1 st2. cachercise_create_cache (loopback ref_env) ref_procs (Some 0) (Some 5) 42 (Some ''ABCDEFGH'')
      (Some ''dummy'') (Some ''{}'') (aworld_of server0) = Some (0, Some 7, st1)
    \<and> cachercise_list_caches (loopback ref_env) ref_procs True (Some 0) (Some 5) 42 (Some ''ABCDEFGH'') [0, 0] 2 st1
      = Some (0, [7, 0], 1, st2)"
  using create_then_list [of ref_env "Some 0" "aworld_of server0" admin1 42 ref_ext ref_jl ref_ml "Some 0" "[]" "{}"
      "Some ''ABCDEFGH''" "''dummy''" "Some ''{}''" "Some 0" world1 2 "[0, 0]" "Some 5"]
    ref_procs_ok loop_of_routed [OF server0_self] server0_ok server0_token server0_backend server0_room server0_simps
    create_world0 [of "Some 0" NULL]
  by (simp add: admin1_def)

text \<open>
  C17: a client that writes eight bytes to a cache and reads them back gets the bytes
  it wrote.  Both calls return 8, the number of bytes.
\<close>

theorem client_reads_what_it_wrote:
  assumes "procs_ok (le_procs E)" and "rh_ok st handle rh c"
    and "routed E (network st) (rh_provider_id rh) (c_io_id c) H_io False"
    and "dummy_server e jl ml D (lp_server (network st)) xs C"
    and "cache_map (lp_server (network st)) xs (rh_cache_id rh) = Some (f, cx)"
    and "cache_hoard (world (lp_server (network st))) cx \<noteq> NULL"
    and "hoard_fits (cache_hoard (world (lp_server (network st))) cx)
        (hoards (world (lp_server (network st)))) 1 (unat off)"
    and "length buf = 8" and "length buf2 = 8"
  shows "\<exists>st1 st2. cachercise_io (loopback E) (le_procs E) scr handle buf 8 off CACHERCISE_WRITE st = Some (8, buf, st1)
    \<and> dummy_server e jl ml D (lp_server (network st1)) xs C
    \<and> cachercise_io (loopback E) (le_procs E) scr2 handle buf2 8 off CACHERCISE_READ st1 = Some (8, buf, st2)"
  using client_write_read [OF assms] by blast

lemma client_reads_what_it_wrote_witness:
  "\<exists>st1 st2. cachercise_io (loopback ref_env) ref_procs 0 (Some 0) [1, 2, 3, 4, 5, 6, 7, 8] 8 3 CACHERCISE_WRITE cworld1
      = Some (8, [1, 2, 3, 4, 5, 6, 7, 8], st1)
    \<and> cachercise_io (loopback ref_env) ref_procs 0 (Some 0) (replicate 8 0) 8 3 CACHERCISE_READ st1
      = Some (8, [1, 2, 3, 4, 5, 6, 7, 8], st2)"
proof -
  have "hoard_fits (Some 0) (hoards (world server1)) 1 3"
    by (simp add: server1_hoard hoards1(3) vector_max_size_def)
  then show ?thesis
    using client_reads_what_it_wrote [of ref_env cworld1 "Some 0" handle1 client1 ref_ext ref_jl ref_ml "Some 0" "[addr1]"
        "{(Some 0, Some 0)}" "Some 0" "Some 0" 3 "[1, 2, 3, 4, 5, 6, 7, 8]" "replicate 8 0" 0 0]
      ref_procs_ok cworld1_ok cworld1_routed server1_addr server1_hoard(1)
    by (auto simp: handle1_def)
qed

text \<open>
  A sum over the network gives the caller the sum of its arguments, when it is an
  \<open>int32_t\<close> and the cache is known.
\<close>

theorem compute_sum_remote:
  assumes "procs_ok (le_procs E)" and "rh_ok st handle rh c"
    and "routed E (network st) (rh_provider_id rh) (c_sum_id c) H_sum False"
    and "dummy_server e jl ml D (lp_server (network st)) xs C"
    and "cache_map (lp_server (network st)) xs (rh_cache_id rh) \<noteq> None"
    and "- (2 ^ 31) \<le> sint x + sint y" and "sint x + sint y < 2 ^ 31"
  shows "cachercise_compute_sum (loopback E) (le_procs E) handle x y st
    = Some (ret_code CACHERCISE_SUCCESS, Some (x + y), st\<lparr>network := loop_after (network st) (lp_server (network st))\<rparr>)"
proof -
  let ?i = "\<lparr>su_cache_id = rh_cache_id rh, su_x = x, su_y = y\<rparr>"
  obtain f k where "cache_map (lp_server (network st)) xs (su_cache_id ?i) = Some (f, k)" using assms(5) by auto
  from sum_ult_run [OF assms(4) this, of "le_sum E"] assms(6,7)
  have "cachercise_sum_ult (Some ?i) (le_sum E) (lp_server (network st))
      = Some (\<lparr>so_result = x + y, so_ret = 0\<rparr>, lp_server (network st))"
    by (simp add: Let_def)
  from remote_sum [OF assms(1-3) this] show ?thesis by simp
qed

lemma compute_sum_remote_witness:
  "cachercise_compute_sum (loopback ref_env) ref_procs (Some 0) 20 22 cworld1
    = Some (0, Some 42, cworld1\<lparr>network := loop_after (loop_of server1) server1\<rparr>)"
  using compute_sum_remote [of ref_env cworld1 "Some 0" handle1 client1 ref_ext ref_jl ref_ml "Some 0" "[addr1]"
      "{(Some 0, Some 0)}" 20 22] ref_procs_ok cworld1_ok cworld1_routed server1_addr
  by (simp add: handle1_def)

section \<open>The benchmark\<close>

text \<open>
  C18: the benchmark reports no error: in whatever order the writes of all ranks take
  effect at the server, every position rank 0 reads back holds the value that was
  written there.
\<close>

theorem benchmark_reports_no_error:
  assumes "procs_ok (le_procs E)" and "full_schedule p n sched"
    and "\<forall>r < p. connected E st (hr r) k" and "0 < p"
    and "holds e jl ml D xs C k c st data 0" and "n * p + 100 < 2 ^ 31"
  shows "\<exists>st1 st2. bench_writes (loopback E) (le_procs E) scr hr p sched st = Some st1
    \<and> bench_verify (loopback E) (le_procs E) scr' (hr 0) (n * p) 0 cmp 0 st1 = Some (0, st2)"
  using assms by (rule bench_no_errors)

lemma benchmark_reports_no_error_witness:
  "\<exists>st1 st2. bench_writes (loopback ref_env) ref_procs 0 (\<lambda>_. Some 0) 2 [(1, 0), (0, 0), (0, 1), (1, 1)] cworld1 = Some st1
    \<and> bench_verify (loopback ref_env) ref_procs 0 (Some 0) 4 0 (- 9999) 0 st1 = Some (0, st2)"
proof -
  have s: "full_schedule 2 2 [(1, 0), (0, 0), (0, 1), (1, 1)]"
    by (auto simp: full_schedule_def less_2_cases_iff)
  have "procs_ok (le_procs ref_env)" by (simp add: ref_procs_ok)
  from benchmark_reports_no_error [OF this s, where hr = "\<lambda>_. Some 0", OF _ _ cworld1_bench(2)] cworld1_bench(1)
  show ?thesis by simp
qed

section \<open>Bedrock\<close>

text \<open>
  C30: a provider handle made by the Bedrock module duplicates its address at the margo
  instance of the client and frees it, when it is destroyed, at the instance \<open>NULL\<close>.
\<close>

theorem provider_handle_instance:
  assumes "h_load client cs = Some c" and "grants phs (brk phs)"
    and "dup (c_mid c) address n = (a, n1)" and "heap_wf phs"
  shows "\<exists>ph phs1. cachercise_create_provider_handle dup client address pid cs phs n
      = Some (BEDROCK_SUCCESS, ph, phs1, n1)
    \<and> cachercise_destroy_provider_handle dealloc ph phs1 n1
      = map_option (\<lambda>n2. (BEDROCK_SUCCESS, phs\<lparr>brk := Suc (brk phs)\<rparr>, n2)) (dealloc NULL a n1)"
  using assms by (rule provider_handle_life)

lemma provider_handle_instance_witness:
  "\<exists>ph phs1. cachercise_create_provider_handle (\<lambda>m a n. (a, a # n)) (Some 0) (Some 5) 42 (clients cworld1) plenty []
      = Some (0, ph, phs1, [Some 5])
    \<and> cachercise_destroy_provider_handle (\<lambda>m a n. if m = NULL then None else Some (tl n)) ph phs1 [Some (5 :: nat)] = None"
proof -
  have "h_load (Some 0) (clients cworld1) = Some client1" by (simp add: cworld1_def)
  from provider_handle_instance [OF this, of plenty "\<lambda>m a n. (a, a # n)" "Some 5" "[]" "Some 5" "[Some 5]" 42
      "\<lambda>m a n. if m = NULL then None else Some (tl n)"]
  show ?thesis by (simp add: BEDROCK_SUCCESS_def)
qed

end
