(* ===== verification/Examples.thy ===== *)
theory Examples
  imports Remote
begin

text \<open>
  The three example programs, \<open>examples/client.c\<close>, \<open>examples/admin.c\<close> and
  \<open>examples/server.c\<close>: each a run of the library functions with an exit at the first
  error.  A program ends with an exit status or by a failed \<open>assert\<close>.  Of what it logs the
  lines with a result are kept, as \<open>log_line\<close>s.
\<close>

section \<open>Ends, output and \<open>atoi\<close>\<close>

datatype outcome = Exited i32 | Aborted

datatype log_line = Sum_is i32 | Count_is u64 | Id_is u32 string

text \<open>
  \<open>atoi\<close> of the C library: white space, a sign, decimal digits, whatever follows.  A
  number that is no \<open>int\<close> is undefined.
\<close>

definition c_space :: "char \<Rightarrow> bool" where
  "c_space c \<longleftrightarrow> (of_char c :: nat) \<in> {9, 10, 11, 12, 13, 32}"

definition c_digit :: "char \<Rightarrow> nat option" where
  "c_digit c = (let n = of_char c :: nat in if 48 \<le> n \<and> n \<le> 57 then Some (n - 48) else None)"

fun c_digits :: "nat \<Rightarrow> string \<Rightarrow> nat" where
  "c_digits v [] = v"
| "c_digits v (c # s) = (case c_digit c of None \<Rightarrow> v | Some d \<Rightarrow> c_digits (10 * v + d) s)"

definition c_number :: "string \<Rightarrow> int" where
  "c_number s = (case s of
      [] \<Rightarrow> 0
    | c # s' \<Rightarrow> if c = CHR ''-'' then - int (c_digits 0 s')
                else if c = CHR ''+'' then int (c_digits 0 s') else int (c_digits 0 s))"

definition atoi :: "string \<Rightarrow> i32 option" where
  "atoi s = (let z = c_number (dropWhile c_space s) in
     if - (2 ^ 31) \<le> z \<and> z < 2 ^ 31 then Some (word_of_int z) else None)"

section \<open>What the programs use besides the libraries\<close>

text \<open>
  margo's set-up and the lookup of an address, both with the result stored for the caller; the code
  \<open>margo_addr_free\<close> returns (its effect is in \<open>net\<close>); the two conversions of libuuid.
  \<open>uuid_parse\<close> gets what the id holds and gives what it holds afterwards.
\<close>

record 'n margo_app =
  margo_init :: "'n \<Rightarrow> ptr \<times> 'n"
  margo_addr_lookup :: "ptr \<Rightarrow> string \<Rightarrow> 'n \<Rightarrow> i32 \<times> ptr \<times> 'n"
  margo_addr_free_code :: "ptr \<Rightarrow> 'n \<Rightarrow> i32"
  margo_finalize :: "ptr \<Rightarrow> 'n \<Rightarrow> 'n"

record uuid_lib =
  uuid_parse :: "string \<Rightarrow> cachercise_cache_id_t \<Rightarrow> cachercise_cache_id_t"
  uuid_unparse :: "cachercise_cache_id_t \<Rightarrow> string"

definition cachercise_cache_id_to_string :: "uuid_lib \<Rightarrow> cachercise_cache_id_t \<Rightarrow> string" where
  "cachercise_cache_id_to_string U i = uuid_unparse U i"

definition cachercise_cache_id_from_string ::
  "uuid_lib \<Rightarrow> string \<Rightarrow> cachercise_cache_id_t \<Rightarrow> cachercise_cache_id_t" where
  "cachercise_cache_id_from_string U s i = uuid_parse U s i"

declare cachercise_cache_id_to_string_def [simp] cachercise_cache_id_from_string_def [simp]

text \<open>\<open>FATAL\<close>: log and \<open>exit(-1)\<close>.\<close>

definition FATAL :: "log_line list \<Rightarrow> 's \<Rightarrow> (outcome \<times> log_line list \<times> 's) option" where
  "FATAL ns st = Some (Exited (- 1), ns, st)"

abbreviation ok_code :: i32 where "ok_code \<equiv> ret_code CACHERCISE_SUCCESS"

section \<open>The client\<close>

text \<open>\<open>main\<close> of \<open>client.c\<close> from the creation of the client on, line 44.\<close>

definition client_session ::
  "'n net \<Rightarrow> 'n margo_app \<Rightarrow> procs \<Rightarrow> ptr \<Rightarrow> ptr \<Rightarrow> u16 \<Rightarrow> cachercise_cache_id_t \<Rightarrow> 'n cworld
    \<Rightarrow> (outcome \<times> log_line list \<times> 'n cworld) option" where
  "client_session N A P m svr_addr pid cache_id st = do {
     (ret, clt, st) \<leftarrow> cachercise_client_init N m st;
     if ret \<noteq> ok_code then FATAL [] st else do {
     (ret, rh, st) \<leftarrow> cachercise_cache_handle_create N clt svr_addr pid cache_id st;
     if ret \<noteq> ok_code then FATAL [] st else do {
     (ret, st) \<leftarrow> cachercise_say_hello N P rh st;
     if ret \<noteq> ok_code then FATAL [] st else do {
     (ret, result, st) \<leftarrow> cachercise_compute_sum N P rh 45 23 st;
     if ret \<noteq> ok_code then FATAL [] st else do {
     result \<leftarrow> result;
     let ns = [Sum_is result];
     (ret, st) \<leftarrow> cachercise_cache_handle_release N rh st;
     if ret \<noteq> ok_code then FATAL ns st else do {
     (ret, st) \<leftarrow> cachercise_client_finalize clt st;
     if ret \<noteq> ok_code then FATAL ns st else do {
     let hret = margo_addr_free_code A svr_addr (network st);
     let st = st\<lparr>network := margo_addr_free N svr_addr (network st)\<rparr>;
     if hret \<noteq> 0 then FATAL ns st
     else Some (Exited 0, ns, st\<lparr>network := margo_finalize A m (network st)\<rparr>) } } } } } } }"

text \<open>\<open>id0\<close> is what the variable \<open>cache_id\<close> holds before it is set.\<close>

definition client_main ::
  "'n net \<Rightarrow> 'n margo_app \<Rightarrow> uuid_lib \<Rightarrow> procs \<Rightarrow> cachercise_cache_id_t \<Rightarrow> string list \<Rightarrow> 'n cworld
    \<Rightarrow> (outcome \<times> log_line list \<times> 'n cworld) option" where
  "client_main N A U P id0 argv st =
     (if length argv \<noteq> 4 then Some (Exited (- 1), [], st)
      else do {
        pid \<leftarrow> atoi (argv ! 2);
        if length (argv ! 3) \<noteq> 36 then FATAL [] st
        else let (m, n) = margo_init A (network st) in
        if m = NULL then Some (Aborted, [], st\<lparr>network := n\<rparr>)
        else let (hret, svr_addr, n) = margo_addr_lookup A m (argv ! 1) n; st = st\<lparr>network := n\<rparr> in
        if hret \<noteq> 0 then FATAL [] st
        else client_session N A P m svr_addr (ucast pid) (cachercise_cache_id_from_string U (argv ! 3) id0) st })"

section \<open>The administrator\<close>

text \<open>The loop over \<open>ids\<close>, an array of four, with \<open>n\<close> iterations left at \<open>i\<close>.\<close>

fun print_ids :: "uuid_lib \<Rightarrow> cachercise_cache_id_t list \<Rightarrow> nat \<Rightarrow> nat \<Rightarrow> log_line list option" where
  "print_ids U ids 0 i = Some []"
| "print_ids U ids (Suc n) i = do {
     x \<leftarrow> arr_get ids i;
     ns \<leftarrow> print_ids U ids n (Suc i);
     Some (Id_is (of_nat i) (cachercise_cache_id_to_string U x) # ns) }"

definition admin_session ::
  "'n net \<Rightarrow> 'n margo_app \<Rightarrow> uuid_lib \<Rightarrow> procs \<Rightarrow> bool \<Rightarrow> cachercise_cache_id_t list \<Rightarrow> ptr \<Rightarrow> ptr \<Rightarrow> u16
    \<Rightarrow> 'n aworld \<Rightarrow> (outcome \<times> log_line list \<times> 'n aworld) option" where
  "admin_session N A U P granted ids m svr_addr pid st = do {
     (ret, admin, st) \<leftarrow> cachercise_admin_init N m st;
     if ret \<noteq> ok_code then FATAL [] st else do {
     (ret, i, st) \<leftarrow> cachercise_create_cache N P admin svr_addr pid None (Some ''dummy'') (Some ''{}'') st;
     if ret \<noteq> ok_code then FATAL [] st else do {
     (ret, ids, cnt, st) \<leftarrow> cachercise_list_caches N P granted admin svr_addr pid None ids 4 st;
     if ret \<noteq> ok_code then FATAL [] st else do {
     ns \<leftarrow> print_ids U ids (unat cnt) 0;
     let ns = Count_is cnt # ns;
     (ret, st) \<leftarrow> cachercise_admin_finalize admin st;
     if ret \<noteq> ok_code then FATAL ns st else do {
     let hret = margo_addr_free_code A svr_addr (anet st);
     let st = st\<lparr>anet := margo_addr_free N svr_addr (anet st)\<rparr>;
     if hret \<noteq> 0 then FATAL ns st
     else Some (Exited 0, ns, st\<lparr>anet := margo_finalize A m (anet st)\<rparr>) } } } } }"

text \<open>\<open>ids0\<close> is what the array \<open>ids\<close> holds before it is set.\<close>

definition admin_main ::
  "'n net \<Rightarrow> 'n margo_app \<Rightarrow> uuid_lib \<Rightarrow> procs \<Rightarrow> bool \<Rightarrow> cachercise_cache_id_t list \<Rightarrow> string list \<Rightarrow> 'n aworld
    \<Rightarrow> (outcome \<times> log_line list \<times> 'n aworld) option" where
  "admin_main N A U P granted ids0 argv st =
     (if length argv \<noteq> 3 then Some (Exited 0, [], st)
      else do {
        pid \<leftarrow> atoi (argv ! 2);
        let (m, n) = margo_init A (anet st);
        if m = NULL then Some (Aborted, [], st\<lparr>anet := n\<rparr>)
        else let (hret, svr_addr, n) = margo_addr_lookup A m (argv ! 1) n; st = st\<lparr>anet := n\<rparr> in
        if hret \<noteq> 0 then FATAL [] st
        else admin_session N A U P granted ids0 m svr_addr (ucast pid) st })"

section \<open>The server\<close>

text \<open>
  \<open>start\<close> is \<open>margo_init\<close> in server mode, \<open>announce\<close> the three calls that look up the own
  address, format it for the log and free it.  \<open>margo_wait_for_finalize\<close> returns when the
  process is to end: the state in the result is the one it waits in.  The result of the
  registration is dropped.
\<close>

definition server_main ::
  "'g margo \<Rightarrow> ('g \<Rightarrow> ptr \<times> 'g) \<Rightarrow> (ptr \<Rightarrow> 'g \<Rightarrow> 'g) \<Rightarrow> bool \<Rightarrow> ptr \<Rightarrow> ptr \<Rightarrow> 'g
    \<Rightarrow> (outcome \<times> cachercise_provider option \<times> 'g) option" where
  "server_main mg start announce granted dummy pp g =
     (let (m, g) = start g in
      if m = NULL then Some (Aborted, None, g)
      else do {
        let g = announce m g;
        (ret, p, g) \<leftarrow> cachercise_provider_register mg granted dummy pp m 42 (Some CACHERCISE_PROVIDER_ARGS_INIT) g;
        Some (Exited 0, p, g) })"

section \<open>Runs against a server\<close>

text \<open>The network of a client that has looked up or registered its RPCs.\<close>

abbreviation named :: "'w loop \<Rightarrow> string list \<Rightarrow> 'w loop" where
  "named n ns \<equiv> n\<lparr>lp_names := ns\<rparr>"

lemma routed_named [simp]: "routed E (named n ns) p i hn dis = routed E n p i hn dis"
  by (simp add: routed_def)

lemma loopback_addr_free: "margo_addr_free (loopback E) a n = n"
  by (simp add: loopback_def)

lemma client_init_loop:
  assumes g: "grants (clients st) (brk (clients st))" and ok: "clients_ok st"
  shows "\<exists>st' ns. cachercise_client_init (loopback E) m st = Some (ok_code, Some (brk (clients st)), st')
    \<and> cells (clients st') = (cells (clients st))(brk (clients st) \<mapsto>
        \<lparr>c_mid = m, c_hello_id = le_id E ''cachercise_hello'', c_sum_id = le_id E ''cachercise_sum'',
         c_io_id = le_id E ''cachercise_io'', c_num_cache_handles = 0\<rparr>)
    \<and> rhs st' = rhs st \<and> warnings st' = warnings st \<and> network st' = named (network st) ns
    \<and> clients_ok st'"
proof -
  have "\<exists>st' ns. cachercise_client_init (loopback E) m st = Some (ok_code, Some (brk (clients st)), st')
    \<and> cells (clients st') = (cells (clients st))(brk (clients st) \<mapsto>
        \<lparr>c_mid = m, c_hello_id = le_id E ''cachercise_hello'', c_sum_id = le_id E ''cachercise_sum'',
         c_io_id = le_id E ''cachercise_io'', c_num_cache_handles = 0\<rparr>)
    \<and> rhs st' = rhs st \<and> warnings st' = warnings st \<and> network st' = named (network st) ns"
    using g by (cases "''cachercise_sum'' \<in> set (lp_names (network st))")
      (auto simp: cachercise_client_init_def h_alloc_granted zero_client_def loopback_def Let_def
        intro: exI [of _ "lp_names (network st)"])
  then show ?thesis using clients_ok_init [OF ok] by blast
qed

text \<open>Greeting and adding leave the caches of the server as they are.\<close>

lemma hello_run:
  assumes sv: "dummy_server e jl ml D sv xs C" and k: "cache_map sv xs k \<noteq> None"
  shows "\<exists>w. cachercise_hello_ult (Some \<lparr>he_cache_id = k\<rparr>) sv = Some (sv\<lparr>world := w\<rparr>)
    \<and> dummy_server e jl ml D (sv\<lparr>world := w\<rparr>) xs C"
proof -
  obtain f c where "cache_map sv xs (he_cache_id \<lparr>he_cache_id = k\<rparr>) = Some (f, c)" using k by auto
  from dm.hello_ult_ok [OF sv [unfolded dummy_server_def] this, folded dummy_server_def]
  show ?thesis by blast
qed

text \<open>
  A client that has been set up with one handle, and what tearing it down leaves.
  \<open>opened\<close> compares the state with the one before.
\<close>

definition opened ::
  "lp_env \<Rightarrow> ptr \<Rightarrow> u16 \<Rightarrow> cachercise_cache_id_t \<Rightarrow> addr \<Rightarrow> 'w loop cworld \<Rightarrow> 'w loop cworld \<Rightarrow> bool" where
  "opened E m pid k a st st' \<longleftrightarrow>
     cells (clients st') = (cells (clients st))(brk (clients st) \<mapsto>
        \<lparr>c_mid = m, c_hello_id = le_id E ''cachercise_hello'', c_sum_id = le_id E ''cachercise_sum'',
         c_io_id = le_id E ''cachercise_io'', c_num_cache_handles = 1\<rparr>)
     \<and> cells (rhs st') = (cells (rhs st))(brk (rhs st) \<mapsto>
        \<lparr>rh_client = Some (brk (clients st)), rh_addr = Some a, rh_provider_id = pid, rh_refcount = 1, rh_cache_id = k\<rparr>)
     \<and> warnings st' = warnings st"

lemma opened_only_net: "opened E m pid k a st st1 \<Longrightarrow> only_net st1 st2 \<Longrightarrow> opened E m pid k a st st2"
  by (simp add: opened_def only_netD)

lemma opened_handle:
  assumes "opened E m pid k a st st'"
  shows "\<exists>rh c. rh_ok st' (Some (brk (rhs st))) rh c \<and> rh_cache_id rh = k \<and> rh_provider_id rh = pid
    \<and> c_hello_id c = le_id E ''cachercise_hello'' \<and> c_sum_id c = le_id E ''cachercise_sum''
    \<and> c_io_id c = le_id E ''cachercise_io''"
  using assms by (simp add: opened_def rh_ok_def)

lemma client_open:
  assumes ok: "clients_ok st" and g: "grants (clients st) (brk (clients st))" "grants (rhs st) (brk (rhs st))"
  shows "\<exists>st1 st2 ns. cachercise_client_init (loopback E) m st = Some (ok_code, Some (brk (clients st)), st1)
    \<and> cachercise_cache_handle_create (loopback E) (Some (brk (clients st))) (Some a) pid k st1
      = Some (ok_code, Some (brk (rhs st)), st2)
    \<and> opened E m pid k a st st2 \<and> network st2 = named (network st) ns"
proof -
  obtain st1 ns where s1: "cachercise_client_init (loopback E) m st = Some (ok_code, Some (brk (clients st)), st1)"
    "cells (clients st1) = (cells (clients st))(brk (clients st) \<mapsto>
        \<lparr>c_mid = m, c_hello_id = le_id E ''cachercise_hello'', c_sum_id = le_id E ''cachercise_sum'',
         c_io_id = le_id E ''cachercise_io'', c_num_cache_handles = 0\<rparr>)"
    "rhs st1 = rhs st" "warnings st1 = warnings st" "network st1 = named (network st) ns"
    using client_init_loop [OF g(1) ok] by blast
  have "margo_addr_dup (loopback E) (Some a) (network st1) = (Some a, network st1)" by (simp add: loopback_def)
  then have "\<exists>st2. cachercise_cache_handle_create (loopback E) (Some (brk (clients st))) (Some a) pid k st1
      = Some (ok_code, Some (brk (rhs st)), st2) \<and> opened E m pid k a st st2 \<and> network st2 = network st1"
    using s1(2-4) g(2) by (simp add: cachercise_cache_handle_create_def h_alloc_granted zero_rh_def opened_def)
  with s1(1,5) show ?thesis by auto
qed

lemma client_close:
  assumes o: "opened E m pid k a st st1" and ok: "clients_ok st"
  shows "\<exists>st2 st3. cachercise_cache_handle_release (loopback E) (Some (brk (rhs st))) st1 = Some (ok_code, st2)
    \<and> cachercise_client_finalize (Some (brk (clients st))) st2 = Some (ok_code, st3)
    \<and> cells (clients st3) = cells (clients st) \<and> cells (rhs st3) = cells (rhs st)
    \<and> warnings st3 = warnings st \<and> network st3 = network st1"
proof -
  have fu: "(cells (clients st))(brk (clients st) := None) = cells (clients st)"
    "(cells (rhs st))(brk (rhs st) := None) = cells (rhs st)"
    by (rule fun_upd_idem, rule heap_wf_fresh, rule clients_okD [OF ok])+
  then show ?thesis
    using o by (simp add: cachercise_cache_handle_release_def cachercise_client_finalize_def opened_def
        loopback_addr_free)
qed

lemma client_session_ok:
  assumes P: "procs_ok (le_procs E)" and ok: "clients_ok st"
    and g: "grants (clients st) (brk (clients st))" "grants (rhs st) (brk (rhs st))"
    and r: "routed E (network st) pid (le_id E ''cachercise_hello'') H_hello True"
      "routed E (network st) pid (le_id E ''cachercise_sum'') H_sum False"
    and sv: "dummy_server e jl ml D (lp_server (network st)) xs C"
    and k: "cache_map (lp_server (network st)) xs k \<noteq> None"
    and fr: "\<And>n. margo_addr_free_code A (Some a) n = 0"
  shows "\<exists>st' n'. client_session (loopback E) A (le_procs E) m (Some a) pid k st = Some (Exited 0, [Sum_is 68], st')
    \<and> cells (clients st') = cells (clients st) \<and> cells (rhs st') = cells (rhs st) \<and> warnings st' = warnings st
    \<and> network st' = margo_finalize A m n' \<and> loop_hs n' = loop_hs (network st)
    \<and> dummy_server e jl ml D (lp_server n') xs C
    \<and> cache_list (lp_server n') xs = cache_list (lp_server (network st)) xs"
proof -
  let ?sv = "lp_server (network st)"
  obtain st1 st2 ns where s2: "cachercise_client_init (loopback E) m st = Some (ok_code, Some (brk (clients st)), st1)"
    "cachercise_cache_handle_create (loopback E) (Some (brk (clients st))) (Some a) pid k st1
      = Some (ok_code, Some (brk (rhs st)), st2)"
    "opened E m pid k a st st2" "network st2 = named (network st) ns"
    using client_open [OF ok g] by blast
  from hello_run [OF sv k] obtain w where w: "cachercise_hello_ult (Some \<lparr>he_cache_id = k\<rparr>) ?sv = Some (?sv\<lparr>world := w\<rparr>)"
    "dummy_server e jl ml D (?sv\<lparr>world := w\<rparr>) xs C" by blast
  let ?n3 = "loop_after (network st2) (?sv\<lparr>world := w\<rparr>)"
  let ?st3 = "st2\<lparr>network := ?n3\<rparr>"
  have s3: "cachercise_say_hello (loopback E) (le_procs E) (Some (brk (rhs st))) st2 = Some (ok_code, ?st3)"
    using opened_handle [OF s2(3)] r(1) w(1) s2(4) remote_hello [OF P] by fastforce
  have sm: "cachercise_sum_ult (Some \<lparr>su_cache_id = k, su_x = 45, su_y = 23\<rparr>) (le_sum E) (?sv\<lparr>world := w\<rparr>)
      = Some (\<lparr>so_result = 68, so_ret = 0\<rparr>, ?sv\<lparr>world := w\<rparr>)"
  proof -
    obtain bd where "cache_map (?sv\<lparr>world := w\<rparr>) xs k = Some bd"
      using k by (auto simp: cache_map_def cache_list_def)
    then show ?thesis using sum_ult_run [OF w(2), of "\<lparr>su_cache_id = k, su_x = 45, su_y = 23\<rparr>"] by simp
  qed
  let ?n4 = "loop_after ?n3 (?sv\<lparr>world := w\<rparr>)"
  have o3: "opened E m pid k a st ?st3" by (rule opened_only_net [OF s2(3)]) simp
  from opened_handle [OF o3] obtain rh c where h3: "rh_ok ?st3 (Some (brk (rhs st))) rh c" "rh_cache_id rh = k"
    "rh_provider_id rh = pid" "c_sum_id c = le_id E ''cachercise_sum''" by blast
  have "routed E ?n3 pid (le_id E ''cachercise_sum'') H_sum False"
    using r(2) s2(4) by (intro routed_after(1)) simp_all
  then have s4: "cachercise_compute_sum (loopback E) (le_procs E) (Some (brk (rhs st))) 45 23 ?st3
      = Some (ok_code, Some 68, st2\<lparr>network := ?n4\<rparr>)"
    using remote_sum [OF P h3(1), of 45 23] h3(2-4) sm by (simp add: loop_after_def)
  have "opened E m pid k a st (st2\<lparr>network := ?n4\<rparr>)" by (rule opened_only_net [OF s2(3)]) simp
  from client_close [OF this ok] obtain st5 st6 where
    s6: "cachercise_cache_handle_release (loopback E) (Some (brk (rhs st))) (st2\<lparr>network := ?n4\<rparr>) = Some (ok_code, st5)"
    "cachercise_client_finalize (Some (brk (clients st))) st5 = Some (ok_code, st6)"
    "cells (clients st6) = cells (clients st)" "cells (rhs st6) = cells (rhs st)" "warnings st6 = warnings st"
    "network st6 = ?n4" by auto
  have "client_session (loopback E) A (le_procs E) m (Some a) pid k st
      = Some (Exited 0, [Sum_is 68], st6\<lparr>network := margo_finalize A m ?n4\<rparr>)"
    using s2(1,2) s3 s4 s6(1,2,6) fr by (simp add: client_session_def loopback_addr_free)
  moreover have "loop_hs ?n4 = loop_hs (network st)"
    using loop_hs_world [of "named (network st) ns" "network st"] s2(4) by (simp add: loop_after_hs)
  moreover have "cache_list (lp_server ?n4) xs = cache_list ?sv xs"
    by (simp add: loop_after_def cache_list_def)
  moreover have "dummy_server e jl ml D (lp_server ?n4) xs C" using w(2) by (simp add: loop_after_def)
  ultimately show ?thesis using s6(3-5)
    by (intro exI [of _ "st6\<lparr>network := margo_finalize A m ?n4\<rparr>"] exI [of _ ?n4]) simp
qed

lemma client_main_ok:
  assumes P: "procs_ok (le_procs E)" and ok: "clients_ok st"
    and g: "grants (clients st) (brk (clients st))" "grants (rhs st) (brk (rhs st))"
    and argv: "argv = [prog, host, ps, us]" "atoi ps = Some z" "length us = 36"
    and init: "margo_init A (network st) = (Some m, n1)" "margo_addr_lookup A (Some m) host n1 = (0, Some a, n)"
    and fr: "\<And>n. margo_addr_free_code A (Some a) n = 0"
    and r: "routed E n (ucast z) (le_id E ''cachercise_hello'') H_hello True"
      "routed E n (ucast z) (le_id E ''cachercise_sum'') H_sum False"
    and sv: "dummy_server e jl ml D (lp_server n) xs C"
    and k: "cache_map (lp_server n) xs (uuid_parse U us id0) \<noteq> None"
  shows "\<exists>st' n'. client_main (loopback E) A U (le_procs E) id0 argv st = Some (Exited 0, [Sum_is 68], st')
    \<and> cells (clients st') = cells (clients st) \<and> cells (rhs st') = cells (rhs st) \<and> warnings st' = warnings st
    \<and> network st' = margo_finalize A (Some m) n' \<and> loop_hs n' = loop_hs n
    \<and> dummy_server e jl ml D (lp_server n') xs C \<and> cache_list (lp_server n') xs = cache_list (lp_server n) xs"
proof -
  let ?st = "st\<lparr>network := n\<rparr>"
  have "client_main (loopback E) A U (le_procs E) id0 argv st
      = client_session (loopback E) A (le_procs E) (Some m) (Some a) (ucast z) (uuid_parse U us id0) ?st"
    using argv init by (simp add: client_main_def)
  then show ?thesis
    using client_session_ok [OF P clients_ok_network [OF ok], of n "ucast z" e jl ml D xs C "uuid_parse U us id0" A a "Some m"]
      g r sv k fr by simp
qed

lemma admin_init_loop:
  assumes g: "grants (admins st) (brk (admins st))"
  shows "\<exists>st' ns. cachercise_admin_init (loopback E) m st = Some (ok_code, Some (brk (admins st)), st')
    \<and> cells (admins st') = (cells (admins st))(brk (admins st) \<mapsto>
        \<lparr>ad_mid = m, ad_create_cache_id = le_id E ''cachercise_create_cache'',
         ad_open_cache_id = le_id E ''cachercise_open_cache'', ad_close_cache_id = le_id E ''cachercise_close_cache'',
         ad_destroy_cache_id = le_id E ''cachercise_destroy_cache'', ad_list_caches_id = le_id E ''cachercise_list_caches''\<rparr>)
    \<and> anet st' = named (anet st) ns"
  using g by (cases "''cachercise_create_cache'' \<in> set (lp_names (anet st))")
    (auto simp: cachercise_admin_init_def admin_ids_def h_alloc_granted zero_admin_def loopback_def Let_def
      intro: exI [of _ "lp_names (anet st)"])

text \<open>The lines the administrator prints for a list of ids.\<close>

definition id_lines :: "uuid_lib \<Rightarrow> nat \<Rightarrow> cachercise_cache_id_t list \<Rightarrow> log_line list" where
  "id_lines U i us = map (\<lambda>(j, u). Id_is (of_nat j) (uuid_unparse U u)) (zip [i..<i + length us] us)"

lemma print_ids_prefix:
  "print_ids U (pre @ us @ rest) (length us) (length pre) = Some (id_lines U (length pre) us)"
proof (induction us arbitrary: pre)
  case (Cons u us)
  have "[length pre..<length pre + length (u # us)] = length pre # [Suc (length pre)..<Suc (length pre) + length us]"
    by (simp add: upt_rec)
  with Cons.IH [of "pre @ [u]"] show ?case
    by (simp add: id_lines_def nth_append)
qed (simp add: id_lines_def)

lemma take_length_take: "take (length (take n zs)) zs = take n zs"
  by (simp add: min_def)

lemma admin_session_ok:
  assumes P: "procs_ok (le_procs E)" and g: "grants (admins st) (brk (admins st))" "heap_wf (admins st)" "le_calloc E"
    and r: "routed E (anet st) pid (le_id E ''cachercise_create_cache'') H_create False"
      "routed E (anet st) pid (le_id E ''cachercise_list_caches'') H_list False"
    and sv: "dummy_server e jl ml D (lp_server (anet st)) xs C" and D: "D \<noteq> NULL"
    and tok: "check_token (prov (lp_server (anet st))) None = Some True"
    and be: "backend_named (lp_server (anet st)) ''dummy'' = D"
    and room: "table_room (lp_server (anet st))" "dummy_room (world (lp_server (anet st)))"
    and new: "cache_map (lp_server (anet st)) xs (next_uuid (anet st)) = None"
    and cr: "dummy_create_cache e (self (lp_server (anet st))) (Some ''{}'') NULL (world (lp_server (anet st)))
        = Some (CACHERCISE_SUCCESS, c, w)"
    and ids: "length ids = 4" and a: "\<And>n. margo_addr_free_code A addr n = 0"
    and us: "us = take 4 (map fst (cache_list (lp_server (anet st)) xs) @ [next_uuid (anet st)])"
  shows "\<exists>st' n' ys C'. admin_session (loopback E) A U (le_procs E) True ids m addr pid st
      = Some (Exited 0, Count_is (of_nat (length us)) # id_lines U 0 us, st')
    \<and> cells (admins st') = cells (admins st) \<and> anet st' = margo_finalize A m n' \<and> loop_hs n' = loop_hs (anet st)
    \<and> dummy_server e jl ml D (lp_server n') ys C'
    \<and> cache_list (lp_server n') ys = cache_list (lp_server (anet st)) xs @ [(next_uuid (anet st), (D, c))]"
proof -
  let ?a = "brk (admins st)" and ?sv = "lp_server (anet st)"
  obtain st1 ns where s1: "cachercise_admin_init (loopback E) m st = Some (ok_code, Some ?a, st1)"
    "cells (admins st1) = (cells (admins st))(?a \<mapsto>
        \<lparr>ad_mid = m, ad_create_cache_id = le_id E ''cachercise_create_cache'',
         ad_open_cache_id = le_id E ''cachercise_open_cache'', ad_close_cache_id = le_id E ''cachercise_close_cache'',
         ad_destroy_cache_id = le_id E ''cachercise_destroy_cache'', ad_list_caches_id = le_id E ''cachercise_list_caches''\<rparr>)"
    "anet st1 = named (anet st) ns"
    using admin_init_loop [OF g(1)] by blast
  let ?ad = "\<lparr>ad_mid = m, ad_create_cache_id = le_id E ''cachercise_create_cache'',
         ad_open_cache_id = le_id E ''cachercise_open_cache'', ad_close_cache_id = le_id E ''cachercise_close_cache'',
         ad_destroy_cache_id = le_id E ''cachercise_destroy_cache'', ad_list_caches_id = le_id E ''cachercise_list_caches''\<rparr>"
  have ad: "h_load (Some ?a) (admins st1) = Some ?ad" by (simp add: s1(2))
  have nu: "next_uuid (named (anet st) ns) = next_uuid (anet st)" by (simp add: next_uuid_def)
  have l: "length us = min (Suc (length xs)) (unat (4 :: u64))" using us by (simp add: cache_list_def)
  obtain n1 n2 ys C' where run:
    "cachercise_create_cache (loopback E) (le_procs E) (Some ?a) addr pid None (Some ''dummy'') (Some ''{}'') st1
      = Some (ok_code, Some (next_uuid (anet st)), st1\<lparr>anet := n1\<rparr>)"
    "cachercise_list_caches (loopback E) (le_procs E) True (Some ?a) addr pid None ids 4 (st1\<lparr>anet := n1\<rparr>)
      = Some (ok_code, take (length us) (map fst (cache_list ?sv xs) @ [next_uuid (anet st)]) @ drop (length us) ids,
          of_nat (length us), st1\<lparr>anet := n2\<rparr>)"
    "dummy_server e jl ml D (lp_server n2) ys C'"
    "cache_list (lp_server n2) ys = cache_list ?sv xs @ [(next_uuid (anet st), (D, c))]"
    "loop_hs n2 = loop_hs (named (anet st) ns)"
    using admin_create_list_run [OF P ad g(3), of pid e jl ml D xs C None "''dummy''" "Some ''{}''" c w 4 ids "length us" addr,
        unfolded s1(3)] r sv D tok be room new cr ids l nu by auto
  have u: "take (length us) (map fst (cache_list ?sv xs) @ [next_uuid (anet st)]) = us"
    unfolding us by (rule take_length_take)
  have p: "print_ids U (us @ drop (length us) ids) (length us) 0 = Some (id_lines U 0 us)"
    using print_ids_prefix [of U "[]" us] by simp
  let ?st = "st1\<lparr>anet := n2, admins := (admins st1)\<lparr>cells := (cells (admins st))(?a := None)\<rparr>\<rparr>"
  have f: "cachercise_admin_finalize (Some ?a) (st1\<lparr>anet := n2\<rparr>) = Some (ok_code, ?st)"
    by (simp add: cachercise_admin_finalize_def s1(2))
  have n: "unat (of_nat (length us) :: u64) = length us"
    by (rule unat_of_nat_lt) (use l in simp)
  have "admin_session (loopback E) A U (le_procs E) True ids m addr pid st
      = Some (Exited 0, Count_is (of_nat (length us)) # id_lines U 0 us, ?st\<lparr>anet := margo_finalize A m n2\<rparr>)"
    using s1(1) run(1) run(2) [unfolded u] p f n a by (simp add: admin_session_def loopback_addr_free)
  moreover have "(cells (admins st))(?a := None) = cells (admins st)"
    by (rule fun_upd_idem) (rule heap_wf_fresh [OF g(2)])
  ultimately show ?thesis
    using run(3,4,5) loop_hs_world [of "named (anet st) ns" "anet st"]
    by (intro exI [of _ "?st\<lparr>anet := margo_finalize A m n2\<rparr>"] exI [of _ n2]) auto
qed

lemma admin_main_ok:
  assumes P: "procs_ok (le_procs E)" and g: "grants (admins st) (brk (admins st))" "heap_wf (admins st)" "le_calloc E"
    and argv: "argv = [prog, host, ps]" "atoi ps = Some z"
    and init: "margo_init A (anet st) = (Some m, n1)" "margo_addr_lookup A (Some m) host n1 = (0, addr, n)"
    and fr: "\<And>n. margo_addr_free_code A addr n = 0"
    and r: "routed E n (ucast z) (le_id E ''cachercise_create_cache'') H_create False"
      "routed E n (ucast z) (le_id E ''cachercise_list_caches'') H_list False"
    and sv: "dummy_server e jl ml D (lp_server n) xs C" and D: "D \<noteq> NULL"
    and tok: "check_token (prov (lp_server n)) None = Some True" and be: "backend_named (lp_server n) ''dummy'' = D"
    and room: "table_room (lp_server n)" "dummy_room (world (lp_server n))"
    and new: "cache_map (lp_server n) xs (next_uuid n) = None"
    and cr: "dummy_create_cache e (self (lp_server n)) (Some ''{}'') NULL (world (lp_server n))
        = Some (CACHERCISE_SUCCESS, c, w)"
    and ids: "length ids = 4" and us: "us = take 4 (map fst (cache_list (lp_server n) xs) @ [next_uuid n])"
  shows "\<exists>st' n' ys C'. admin_main (loopback E) A U (le_procs E) True ids argv st
      = Some (Exited 0, Count_is (of_nat (length us)) # id_lines U 0 us, st')
    \<and> cells (admins st') = cells (admins st) \<and> anet st' = margo_finalize A (Some m) n' \<and> loop_hs n' = loop_hs n
    \<and> dummy_server e jl ml D (lp_server n') ys C'
    \<and> cache_list (lp_server n') ys = cache_list (lp_server n) xs @ [(next_uuid n, (D, c))]"
proof -
  let ?st = "st\<lparr>anet := n\<rparr>"
  have "admin_main (loopback E) A U (le_procs E) True ids argv st
      = admin_session (loopback E) A U (le_procs E) True ids (Some m) addr (ucast z) ?st"
    using argv init by (simp add: admin_main_def)
  then show ?thesis
    using admin_session_ok [OF P, of ?st "ucast z" e jl ml D xs C c w ids A addr us U "Some m"]
      g r sv D tok be room new cr ids fr us by simp
qed

end
