(* ===== verification/Abstract_Server.thy ===== *)
theory Abstract_Server
  imports Dummy_System
begin

text \<open>
  What the server promises, without hash tables, heaps, contexts or vectors: the
  caches in the order of their creation, each an unbounded array of integers that
  starts out as zeros, or nothing at all if it was opened instead of created (the
  backend gives an opened cache no store).  \<open>astep\<close> says which answers a request may
  get and what it does to this state; \<open>abs_server\<close> maps a state of the model to it.
  \<open>serve_simulated\<close> shows that every answer of the server with the dummy backend is one
  the abstract server gives, from the abstraction of the one state to that
  of the other.

  Creation may be refused at any time, as json-c decides which configurations are good;
  every other request may be refused only when it does not decode, carries
  the wrong token or names an unknown cache.
\<close>

section \<open>The specification\<close>

type_synonym contents = "(nat \<Rightarrow> i64) option"

record aserver =
  spec_token :: "string option"
  spec_caches :: "(cachercise_cache_id_t \<times> contents) list"

definition a_lookup :: "cachercise_cache_id_t \<Rightarrow> aserver \<Rightarrow> contents option" where
  "a_lookup k S = map_of (spec_caches S) k"

definition a_insert :: "cachercise_cache_id_t \<Rightarrow> contents \<Rightarrow> aserver \<Rightarrow> aserver" where
  "a_insert k v S =
     (if a_lookup k S = None then S\<lparr>spec_caches := spec_caches S @ [(k, v)]\<rparr> else S)"

definition a_delete :: "cachercise_cache_id_t \<Rightarrow> aserver \<Rightarrow> aserver" where
  "a_delete k S = S\<lparr>spec_caches := filter (\<lambda>p. fst p \<noteq> k) (spec_caches S)\<rparr>"

definition a_write :: "cachercise_cache_id_t \<Rightarrow> nat \<Rightarrow> i64 \<Rightarrow> aserver \<Rightarrow> aserver" where
  "a_write k i x S =
     S\<lparr>spec_caches := map (\<lambda>(k', v). (k', if k' = k then map_option (\<lambda>d. d(i := x)) v else v)) (spec_caches S)\<rparr>"

definition a_auth :: "aserver \<Rightarrow> string option \<Rightarrow> bool" where
  "a_auth S t \<longleftrightarrow> spec_token S = None \<or> t = spec_token S"

text \<open>Answers that report an error.\<close>

fun refusal :: "request \<Rightarrow> response \<Rightarrow> bool" where
  "refusal (ReqCreate _ _ _) (RespCreate out) \<longleftrightarrow> cc_ret out \<noteq> 0"
| "refusal (ReqOpen _ _ _) (RespOpen out) \<longleftrightarrow> oc_ret out \<noteq> 0"
| "refusal (ReqClose _ _) (RespClose out) \<longleftrightarrow> cl_ret out \<noteq> 0"
| "refusal (ReqDestroy _ _) (RespDestroy out) \<longleftrightarrow> ds_ret out \<noteq> 0"
| "refusal (ReqList _ _ _) (RespList out) \<longleftrightarrow> lo_ret out \<noteq> 0"
| "refusal (ReqSum _ _) (RespSum out) \<longleftrightarrow> so_ret out \<noteq> 0"
| "refusal (ReqIo _ _) (RespIo out) \<longleftrightarrow> out_ret out \<noteq> 0"
| "refusal _ _ \<longleftrightarrow> False"

fun may_refuse :: "aserver \<Rightarrow> request \<Rightarrow> bool" where
  "may_refuse S (ReqCreate i _ _) \<longleftrightarrow> i \<noteq> None"
| "may_refuse S (ReqOpen i _ _) \<longleftrightarrow> i \<noteq> None"
| "may_refuse S (ReqClose (Some i) _) \<longleftrightarrow> \<not> a_auth S (cl_token i) \<or> a_lookup (cl_id i) S = None"
| "may_refuse S (ReqDestroy (Some i) _) \<longleftrightarrow> \<not> a_auth S (ds_token i) \<or> a_lookup (ds_id i) S = None"
| "may_refuse S (ReqList (Some i) _ _) \<longleftrightarrow> \<not> a_auth S (li_token i)"
| "may_refuse S (ReqHello _) \<longleftrightarrow> False"
| "may_refuse S (ReqSum (Some i) _) \<longleftrightarrow> a_lookup (su_cache_id i) S = None"
| "may_refuse S (ReqIo (Some i) _) \<longleftrightarrow> a_lookup (io_cache_id i) S = None"
| "may_refuse S (ReqSum None _) \<longleftrightarrow> True"
| "may_refuse S (ReqIo None _) \<longleftrightarrow> True"
| "may_refuse S _ \<longleftrightarrow> False"

definition io_answer :: "u64 \<Rightarrow> i64 \<Rightarrow> io_out_t" where
  "io_answer n scr = \<lparr>out_bytes = 8 * n, out_scratch = scr, out_result = n, out_ret = 0\<rparr>"

inductive astep :: "aserver \<Rightarrow> request \<Rightarrow> response \<Rightarrow> aserver \<Rightarrow> bool" where
  as_refuse: "refusal req resp \<Longrightarrow> may_refuse S req \<Longrightarrow> astep S req resp S"
| as_create: "a_auth S (cc_token i) \<Longrightarrow>
    astep S (ReqCreate (Some i) o0 u) (RespCreate \<lparr>cc_ret = 0, cc_id = u\<rparr>) (a_insert u (Some (\<lambda>_. 0)) S)"
| as_open: "a_auth S (oc_token i) \<Longrightarrow>
    astep S (ReqOpen (Some i) o0 u) (RespOpen \<lparr>oc_ret = 0, oc_id = u\<rparr>) (a_insert u None S)"
| as_close: "a_auth S (cl_token i) \<Longrightarrow> a_lookup (cl_id i) S \<noteq> None \<Longrightarrow>
    astep S (ReqClose (Some i) o0) (RespClose \<lparr>cl_ret = 0\<rparr>) (a_delete (cl_id i) S)"
| as_destroy: "a_auth S (ds_token i) \<Longrightarrow> a_lookup (ds_id i) S \<noteq> None \<Longrightarrow>
    astep S (ReqDestroy (Some i) o0) (RespDestroy \<lparr>ds_ret = 0\<rparr>) (a_delete (ds_id i) S)"
| as_list: "a_auth S (li_token i) \<Longrightarrow>
    astep S (ReqList (Some i) o0 g)
      (RespList \<lparr>lo_ret = 0, lo_count = of_nat (min (length (spec_caches S)) (unat (li_max_ids i))),
                 lo_ids = Some (map fst (spec_caches S))\<rparr>) S"
| as_hello: "astep S (ReqHello i) RespHello S"
| as_sum: "a_lookup (su_cache_id i) S \<noteq> None \<Longrightarrow> sint r = sint (su_x i) + sint (su_y i) \<Longrightarrow>
    astep S (ReqSum (Some i) o0) (RespSum \<lparr>so_result = r, so_ret = 0\<rparr>) S"
| as_io_empty: "a_lookup (io_cache_id i) S = Some (Some d) \<Longrightarrow> unat (io_count i) < 8 \<Longrightarrow>
    astep S (ReqIo (Some i) o0) (RespIo (io_answer 0 (io_scratch i))) S"
| as_io_write: "a_lookup (io_cache_id i) S = Some (Some d) \<Longrightarrow>
    8 \<le> unat (io_count i) \<Longrightarrow> unat (io_count i) < 16 \<Longrightarrow> ucast (io_kind i) = CACHERCISE_WRITE \<Longrightarrow>
    astep S (ReqIo (Some i) o0) (RespIo (io_answer 1 (io_scratch i)))
      (a_write (io_cache_id i) (unat (io_offset i)) (io_scratch i) S)"
| as_io_read: "a_lookup (io_cache_id i) S = Some (Some d) \<Longrightarrow>
    8 \<le> unat (io_count i) \<Longrightarrow> unat (io_count i) < 16 \<Longrightarrow> ucast (io_kind i) \<noteq> CACHERCISE_WRITE \<Longrightarrow>
    astep S (ReqIo (Some i) o0) (RespIo (io_answer 1 (d (unat (io_offset i))))) S"

text \<open>A conversation: requests with the answers they got, in order.\<close>

inductive arun :: "aserver \<Rightarrow> (request \<times> response) list \<Rightarrow> aserver \<Rightarrow> bool" where
  ar_nil: "arun S [] S"
| ar_cons: "astep S req resp S1 \<Longrightarrow> arun S1 tr S2 \<Longrightarrow> arun S ((req, resp) # tr) S2"

inductive srun :: "('w \<Rightarrow> bool) \<Rightarrow> 'w server \<Rightarrow> (request \<times> response) list \<Rightarrow> 'w server \<Rightarrow> bool"
  for rm :: "'w \<Rightarrow> bool" where
  sr_nil: "srun rm sv [] sv"
| sr_cons: "step rm sv req resp sv1 \<Longrightarrow> srun rm sv1 tr sv2 \<Longrightarrow> srun rm sv ((req, resp) # tr) sv2"

section \<open>The abstraction\<close>

definition abs_contents :: "'l dworld \<Rightarrow> ptr \<Rightarrow> contents" where
  "abs_contents w c = (if cache_hoard w c = NULL then None else Some (cache_data w c))"

definition abs_server :: "'l dworld server \<Rightarrow> addr list \<Rightarrow> aserver" where
  "abs_server sv xs =
     \<lparr>spec_token = token (prov sv),
      spec_caches = map (\<lambda>(k, bd). (k, abs_contents (world sv) (snd bd))) (cache_list sv xs)\<rparr>"

text \<open>
  One kind of request is left out, a write of less than one element at an offset of
  \<open>2 ^ 62\<close> or more: near \<open>2 ^ 63\<close> the size \<open>put\<close> asks for wraps around and the vector is
  cut (\<open>hoard_put_zero_cuts\<close>), which no specification asks for.
\<close>

fun sized :: "request \<Rightarrow> bool" where
  "sized (ReqIo (Some i) _) \<longleftrightarrow> ucast (io_kind i) = CACHERCISE_WRITE \<longrightarrow>
     8 \<le> unat (io_count i) \<or> unat (io_offset i) < 2 ^ 62"
| "sized _ \<longleftrightarrow> True"

section \<open>What the backend does to the contents of the caches\<close>

lemma abs_contents_cong:
  assumes "cells (ctxs w') a = cells (ctxs w) a"
    and "\<And>x q. cells (ctxs w) a = Some x \<Longrightarrow> ctx_h x = Some q \<Longrightarrow> cells (hoards w') q = cells (hoards w) q"
  shows "abs_contents w' (Some a) = abs_contents w (Some a)"
proof (cases "cells (ctxs w) a")
  case None
  then show ?thesis using assms(1) by (simp add: abs_contents_def cache_hoard_def)
next
  case (Some x)
  then show ?thesis using assms(1) assms(2) [OF Some]
    by (cases "ctx_h x") (auto simp: abs_contents_def cache_hoard_def cache_data_def hoard_read_def)
qed

text \<open>A context of \<open>w\<close> has the same contents in \<open>w'\<close>.\<close>

definition keeps :: "'l dworld \<Rightarrow> 'l dworld \<Rightarrow> addr \<Rightarrow> bool" where
  "keeps w w' a \<longleftrightarrow> abs_contents w' (Some a) = abs_contents w (Some a)"

lemma dummy_create_contents:
  assumes ok: "dummy_ok e jl ml w" and r: "dummy_create_cache e p cfg c0 w = Some (ret, c, w')"
  shows "\<And>a x. cells (ctxs w) a = Some x \<Longrightarrow> keeps w w' a"
    and "ret = CACHERCISE_SUCCESS \<Longrightarrow> abs_contents w' c = Some (\<lambda>_. 0)"
proof -
  note D = dummy_okD [OF ok]
  show "keeps w w' a" if a: "cells (ctxs w) a = Some x" for a x
  proof (cases "ret = CACHERCISE_SUCCESS")
    case True
    from dummy_create_effect [OF ok r [unfolded True]] obtain y where y:
      "cells (ctxs w') = (cells (ctxs w))(brk (ctxs w) \<mapsto> y)"
      "cells (hoards w') = (cells (hoards w))(brk (hoards w) \<mapsto> \<lparr>m_hoard = []\<rparr>)" by blast
    have "a \<noteq> brk (ctxs w)" using D(2) a by auto
    moreover have "q \<noteq> brk (hoards w)" if "ctx_h x = Some q" for q
      using D(3) D(4) [OF a] that by (auto simp: ctx_ok_def hoard_ok_def)
    ultimately show ?thesis unfolding keeps_def using a y by (intro abs_contents_cong) auto
  next
    case False
    then have "ctxs w' = ctxs w" "hoards w' = hoards w"
      using r by (auto simp: dummy_create_cache_def Let_def bind_Some_iff split: prod.splits option.splits)
    then show ?thesis unfolding keeps_def by (intro abs_contents_cong) auto
  qed
  assume "ret = CACHERCISE_SUCCESS"
  with dummy_create_effect [OF ok] r obtain y where
    "c = Some (brk (ctxs w))" "cells (ctxs w') = (cells (ctxs w))(brk (ctxs w) \<mapsto> y)"
    "ctx_h y = Some (brk (hoards w))"
    "cells (hoards w') = (cells (hoards w))(brk (hoards w) \<mapsto> \<lparr>m_hoard = []\<rparr>)" by blast
  then show "abs_contents w' c = Some (\<lambda>_. 0)"
    by (simp add: abs_contents_def cache_hoard_def cache_data_def hoard_read_def hoard_at_def fun_eq_iff)
qed

lemma dummy_open_contents:
  assumes ok: "dummy_ok e jl ml w" and r: "dummy_open_cache e p cfg c0 w = Some (ret, c, w')"
  shows "\<And>a x. cells (ctxs w) a = Some x \<Longrightarrow> keeps w w' a"
    and "ret = CACHERCISE_SUCCESS \<Longrightarrow> abs_contents w' c = None"
proof -
  note D = dummy_okD [OF ok]
  have h: "hoards w' = hoards w"
    using r by (auto simp: dummy_open_cache_def Let_def bind_Some_iff split: prod.splits option.splits)
  show "keeps w w' a" if a: "cells (ctxs w) a = Some x" for a x
  proof -
    have "a \<noteq> brk (ctxs w)" using D(2) a by auto
    then have "cells (ctxs w') a = cells (ctxs w) a" using dummy_open_ok [OF ok r] by auto
    then show ?thesis unfolding keeps_def using h by (intro abs_contents_cong) auto
  qed
  assume "ret = CACHERCISE_SUCCESS"
  with dummy_open_ok [OF ok r] obtain y where "c = Some (brk (ctxs w))"
    "cells (ctxs w') = (cells (ctxs w))(brk (ctxs w) \<mapsto> y)" "ctx_h y = NULL" by auto
  then show "abs_contents w' c = None" by (simp add: abs_contents_def cache_hoard_def)
qed

text \<open>Giving back the context \<open>a\<close> takes only its own hoard.\<close>

lemma dummy_drop_contents:
  assumes ok: "dummy_ok e jl ml w" and a: "cells (ctxs w) a = Some x"
    and c: "cells (ctxs w') = (cells (ctxs w))(a := None)"
    and h: "cells (hoards w') = (\<lambda>q. if ctx_h x = Some q then None else cells (hoards w) q)"
    and b: "cells (ctxs w) b = Some y" "b \<noteq> a"
  shows "keeps w w' b"
  unfolding keeps_def
proof (rule abs_contents_cong)
  show "cells (ctxs w') b = cells (ctxs w) b" using b c by simp
  fix z q assume "cells (ctxs w) b = Some z" "ctx_h z = Some q"
  then have "ctx_h x \<noteq> Some q"
    using dummy_okD(6) [OF ok] a b(2) unfolding unshared_def by blast
  then show "cells (hoards w') q = cells (hoards w) q" using h by simp
qed

lemma dummy_io_few:
  assumes ok: "dummy_ok e jl ml w" and a: "cells (ctxs w) a = Some x" and n: "unat n < 8"
    and k: "k = CACHERCISE_WRITE \<longrightarrow> unat off < 2 ^ 62"
    and r: "dummy_io e (Some a) n off [v] k w = Some (t, buf, w')"
  shows "ctx_h x \<noteq> NULL" "t = 0" "buf = [v]" "ctxs w' = ctxs w"
    "\<And>b y. cells (ctxs w) b = Some y \<Longrightarrow> keeps w w' b"
proof -
  note D = dummy_okD [OF ok]
  have n0: "n div 8 = 0" using n by (intro word_unat_eq_iff [THEN iffD2]) (simp add: unat_div)
  show h: "ctx_h x \<noteq> NULL"
    using r a by (cases "ctx_h x") (auto simp: dummy_io_def bind_Some_iff split: if_splits)
  have "t = 0 \<and> buf = [v] \<and> ctxs w' = ctxs w \<and> (\<forall>b y. cells (ctxs w) b = Some y \<longrightarrow> keeps w w' b)"
  proof (cases "k = CACHERCISE_WRITE")
    case True
    have ho: "hoard_ok (ctx_h x) (hoards w)" using D(4) [OF a] h by (simp add: ctx_ok_def)
    from r a True n0 obtain q where q: "hoard_put (ctx_h x) [v] 0 off (hoards w) = Some q"
      by (auto simp: dummy_io_def bind_Some_iff)
    from hoard_put_none [OF ho _ q] k True obtain hs where
      hs: "q = (0, hs)" "hoard_read (ctx_h x) hs = hoard_read (ctx_h x) (hoards w)"
        "\<And>p. p \<noteq> the (ctx_h x) \<Longrightarrow> cells hs p = cells (hoards w) p" by auto
    have w': "t = 0" "buf = [v]" "ctxs w' = ctxs w" "hoards w' = hs"
      using r a True n0 q hs(1) by (auto simp: dummy_io_def bind_Some_iff)
    have "hoard_read (ctx_h y) hs = hoard_read (ctx_h y) (hoards w)" if "cells (ctxs w) b = Some y" for b y
    proof (cases "ctx_h y = ctx_h x")
      case False
      with hs(3) h show ?thesis by (cases "ctx_h y"; cases "ctx_h x") (auto simp: hoard_read_def)
    qed (simp add: hs(2))
    with w' show ?thesis by (auto simp: keeps_def abs_contents_def cache_hoard_def cache_data_def)
  next
    case False
    then show ?thesis
      using r a by (auto simp: dummy_io_def n0 hoard_get_def Hoard_get_def bind_Some_iff keeps_def)
  qed
  then show "t = 0" "buf = [v]" "ctxs w' = ctxs w"
    "\<And>b y. cells (ctxs w) b = Some y \<Longrightarrow> keeps w w' b" by auto
qed

lemma dummy_io_one:
  assumes ok: "dummy_ok e jl ml w" and a: "cells (ctxs w) a = Some x" and n: "8 \<le> unat n"
    and r: "dummy_io e (Some a) n off [v] k w = Some (t, buf, w')"
  shows "unat n < 16" "ctx_h x \<noteq> NULL"
    "k \<noteq> CACHERCISE_WRITE \<Longrightarrow> t = 1 \<and> buf = [cache_data w (Some a) (unat off)] \<and> w' = w"
    "k = CACHERCISE_WRITE \<Longrightarrow> t = 1 \<and> buf = [v] \<and> ctxs w' = ctxs w
       \<and> cache_data w' (Some a) = (cache_data w (Some a))(unat off := v)
       \<and> (\<forall>b y. cells (ctxs w) b = Some y \<longrightarrow> b \<noteq> a \<longrightarrow> keeps w w' b)"
proof -
  note B = dummy_io_bounds [OF ok a r n]
  show "unat n < 16" "ctx_h x \<noteq> NULL" using B by simp_all
  have n1: "unat n div 8 = 1" using n B(1) by (rule one_element)
  show "t = 1 \<and> buf = [cache_data w (Some a) (unat off)] \<and> w' = w" if k: "k \<noteq> CACHERCISE_WRITE"
    using dummy_io_read [OF ok a k n1 B(3) [OF k], of v] r by simp
  assume k: "k = CACHERCISE_WRITE"
  have "hoard_fits (ctx_h x) (hoards w) 1 (unat off)" using dummy_io_fits [OF ok a n] r k by blast
  from dummy_io_write [OF ok a B(2) n1 this, of v] r k
  have w': "t = 1" "buf = [v]" "ctxs w' = ctxs w" "cache_data w' (Some a) = (cache_data w (Some a))(unat off := v)"
    "\<And>b y. cells (ctxs w) b = Some y \<Longrightarrow> b \<noteq> a \<Longrightarrow> cache_data w' (Some b) = cache_data w (Some b)"
    by auto
  then show "t = 1 \<and> buf = [v] \<and> ctxs w' = ctxs w
       \<and> cache_data w' (Some a) = (cache_data w (Some a))(unat off := v)
       \<and> (\<forall>b y. cells (ctxs w) b = Some y \<longrightarrow> b \<noteq> a \<longrightarrow> keeps w w' b)"
    by (auto simp: keeps_def abs_contents_def cache_hoard_def)
qed

section \<open>Simulation\<close>

lemma a_lookup_abs:
  "a_lookup k (abs_server sv xs) = map_option (\<lambda>bd. abs_contents (world sv) (snd bd)) (cache_map sv xs k)"
  by (simp add: a_lookup_def abs_server_def cache_map_def map_of_map)

lemma spec_token_abs [simp]: "spec_token (abs_server sv xs) = token (prov sv)"
  by (simp add: abs_server_def)

lemma a_auth_abs:
  "check_token (prov sv) t = Some True \<Longrightarrow> a_auth (abs_server sv xs) t"
  "check_token (prov sv) t = Some b \<Longrightarrow> a_auth (abs_server sv xs) t = b"
  by (cases "token (prov sv)"; cases t; auto simp: a_auth_def check_token_def)+

text \<open>Every cache of the table has a context of the backend.\<close>

lemma cache_list_ctx:
  assumes sv: "dummy_server e jl ml D sv xs C" and p: "(k, f, c) \<in> set (cache_list sv xs)"
  obtains a x where "f = D" "c = Some a" "cells (ctxs (world sv)) a = Some x"
proof -
  have "(f, c) \<in> C" using server_okD(3) [OF sv [unfolded dummy_server_def]] p by force
  then show thesis using dummy_serverD(3) [OF sv] that by blast
qed

lemma cache_map_ctx:
  assumes sv: "dummy_server e jl ml D sv xs C" and k: "cache_map sv xs k = Some (f, c)"
  obtains a x where "f = D" "c = Some a" "cells (ctxs (world sv)) a = Some x"
proof -
  have "(k, f, c) \<in> set (cache_list sv xs)" using k by (simp add: cache_map_def map_of_SomeD)
  then show thesis by (rule cache_list_ctx [OF sv]) (rule that)
qed

lemma abs_server_keeps:
  assumes sv: "dummy_server e jl ml D sv xs C"
    and k: "\<And>a x. cells (ctxs (world sv)) a = Some x \<Longrightarrow> keeps (world sv) w a"
  shows "map (\<lambda>(k, bd). (k, abs_contents w (snd bd))) (cache_list sv xs) = spec_caches (abs_server sv xs)"
proof -
  have "abs_contents w c = abs_contents (world sv) c" if "(i, f, c) \<in> set (cache_list sv xs)" for i f c
    using cache_list_ctx [OF sv that] k unfolding keeps_def by metis
  then show ?thesis by (auto simp: abs_server_def)
qed

text \<open>A new cache.\<close>

lemma abs_attached:
  assumes sv: "dummy_server e jl ml D sv xs C"
    and k: "\<And>a x. cells (ctxs (world sv)) a = Some x \<Longrightarrow> keeps (world sv) (world sv') a"
    and at: "attached sv xs u (f, c) sv' ys"
  shows "abs_server sv' ys = a_insert u (abs_contents (world sv') c) (abs_server sv xs)"
proof -
  have tok: "token (prov sv') = token (prov sv)" using at by (simp add: attached_def)
  have "spec_caches (abs_server sv' ys) = map (\<lambda>(k, bd). (k, abs_contents (world sv') (snd bd))) (cache_list sv' ys)"
    by (simp add: abs_server_def)
  then have "spec_caches (abs_server sv' ys) = (if cache_map sv xs u = None
      then spec_caches (abs_server sv xs) @ [(u, abs_contents (world sv') c)] else spec_caches (abs_server sv xs))"
    using at abs_server_keeps [OF sv k] by (simp add: attached_def)
  then show ?thesis using tok by (simp add: a_insert_def a_lookup_abs)
qed

text \<open>A cache less.\<close>

lemma abs_removed:
  assumes sv: "dummy_server e jl ml D sv xs C" and sv': "dummy_server e jl ml D sv' ys C'"
    and l: "cache_list sv' ys = filter (\<lambda>p. fst p \<noteq> k) (cache_list sv xs)"
    and tok: "token (prov sv') = token (prov sv)"
    and kp: "\<And>a x. cells (ctxs (world sv')) a = Some x \<Longrightarrow> keeps (world sv) (world sv') a"
  shows "abs_server sv' ys = a_delete k (abs_server sv xs)"
proof -
  have "abs_contents (world sv') c = abs_contents (world sv) c" if "(i, f, c) \<in> set (cache_list sv' ys)" for i f c
    using cache_list_ctx [OF sv' that] kp unfolding keeps_def by metis
  then have "map (\<lambda>(k, bd). (k, abs_contents (world sv') (snd bd))) (cache_list sv' ys)
      = map (\<lambda>(k, bd). (k, abs_contents (world sv) (snd bd))) (cache_list sv' ys)"
    by auto
  then show ?thesis
    using tok by (simp add: abs_server_def a_delete_def l filter_map comp_def case_prod_beta)
qed

text \<open>The answer is one the abstract server gives, and the state after it is again a good one.\<close>

definition simulated ::
  "'l ext \<Rightarrow> ('l \<Rightarrow> addr set) \<Rightarrow> ('l \<Rightarrow> addr set) \<Rightarrow> ptr \<Rightarrow> aserver \<Rightarrow> request \<Rightarrow> response
    \<Rightarrow> 'l dworld server \<Rightarrow> bool" where
  "simulated e jl ml D S req resp sv' \<longleftrightarrow>
     (\<exists>ys C'. dummy_server e jl ml D sv' ys C' \<and> astep S req resp (abs_server sv' ys))"

lemma simulatedI:
  "dummy_server e jl ml D sv' ys C' \<Longrightarrow> astep S req resp (abs_server sv' ys) \<Longrightarrow>
     simulated e jl ml D S req resp sv'"
  unfolding simulated_def by blast

lemma abs_same:
  assumes sv: "dummy_server e jl ml D sv xs C"
    and k: "\<And>a x. cells (ctxs (world sv)) a = Some x \<Longrightarrow> keeps (world sv) (world sv') a"
    and l: "cache_list sv' xs = cache_list sv xs" and t: "token (prov sv') = token (prov sv)"
  shows "abs_server sv' xs = abs_server sv xs"
  using abs_server_keeps [OF sv k] l t by (simp add: abs_server_def)

lemma ret_code_nonzero: "ret \<noteq> CACHERCISE_SUCCESS \<Longrightarrow> ret_code ret \<noteq> 0"
  by (cases ret) (simp_all add: ret_code_def)

lemma sim_create:
  assumes sv: "dummy_server e jl ml D sv xs C" and room: "table_room sv" "dummy_room (world sv)"
    and r: "cachercise_create_cache_ult inp o0 u sv = Some (out, sv')"
  shows "simulated e jl ml D (abs_server sv xs) (ReqCreate inp o0 u) (RespCreate out) sv'"
  using r
proof (cases rule: create_ult_cases)
  case 1
  moreover have "inp \<noteq> None" using r by (cases inp) (simp_all add: cachercise_create_cache_ult_def)
  ultimately show ?thesis by (auto intro!: simulatedI [OF sv] as_refuse)
next
  case (2 i nm be)
  note S = sv [unfolded dummy_server_def]
  note dw = dummy_serverD(2) [OF sv]
  have "backend_named sv nm \<noteq> NULL" using 2 server_find_backend(1) [OF S, of nm] by simp
  from dm.create_ult_ok [OF S 2(2,3) this room, of o0 u, folded dummy_server_def] r 2(1)
  obtain ret c where
    cr: "dummy_create_cache e (self sv) (cc_config i) NULL (world sv) = Some (ret, c, world sv')"
    and out: "cc_ret out = ret_code ret"
    and rest: "if ret = CACHERCISE_SUCCESS then cc_id out = u \<and> (backend_named sv nm, c) \<notin> C
        \<and> (\<exists>ys. dummy_server e jl ml D sv' ys (insert (backend_named sv nm, c) C)
             \<and> attached sv xs u (backend_named sv nm, c) sv' ys)
      else cc_id out = cc_id o0 \<and> dummy_server e jl ml D sv' xs C
        \<and> cache_list sv' xs = cache_list sv xs \<and> token (prov sv') = token (prov sv)"
    by (auto simp only: dummy_backend_sel option.inject prod.inject)
  note kp = dummy_create_contents(1) [OF dw cr]
  show ?thesis
  proof (cases "ret = CACHERCISE_SUCCESS")
    case True
    from rest True obtain ys where ys: "cc_id out = u"
      "dummy_server e jl ml D sv' ys (insert (backend_named sv nm, c) C)"
      "attached sv xs u (backend_named sv nm, c) sv' ys" by auto
    have "out = \<lparr>cc_ret = 0, cc_id = u\<rparr>" using out ys(1) True by (cases out) (simp add: ret_code_def)
    moreover have "abs_server sv' ys = a_insert u (Some (\<lambda>_. 0)) (abs_server sv xs)"
      using abs_attached [OF sv kp ys(3)] dummy_create_contents(2) [OF dw cr True] by simp
    moreover have "a_auth (abs_server sv xs) (cc_token i)" using 2(2) by (rule a_auth_abs)
    ultimately show ?thesis using ys(2) 2(1) by (auto intro!: simulatedI [OF ys(2)] as_create)
  next
    case False
    then have "refusal (ReqCreate inp o0 u) (RespCreate out)" using out by (simp add: ret_code_nonzero)
    moreover have "abs_server sv' xs = abs_server sv xs"
      using rest False by (intro abs_same [OF sv kp]) auto
    ultimately show ?thesis using rest False 2(1) by (auto intro!: simulatedI [of e jl ml D sv' xs C] as_refuse)
  qed
qed

text \<open>A successful opening: the new cache is in the table, and its context has no hoard.\<close>

lemma open_ult_opened:
  assumes sv: "dummy_server e jl ml D sv xs C" and room: "table_room sv" "dummy_room (world sv)"
    and r: "cachercise_open_cache_ult inp o0 u sv = Some (out, sv')" and z: "oc_ret out = 0"
    and u: "cache_map sv xs u = None"
  shows "\<exists>c ys C'. dummy_server e jl ml D sv' ys C' \<and> cache_list sv' ys = cache_list sv xs @ [(u, (D, c))]
    \<and> cache_hoard (world sv') c = NULL"
  using r
proof (cases rule: open_ult_cases)
  case 1
  then show ?thesis using z by simp
next
  case (2 i nm be)
  note S = sv [unfolded dummy_server_def]
  have be: "backend_named sv nm \<noteq> NULL" using 2 server_find_backend(1) [OF S, of nm] by simp
  from dm.open_ult_ok [OF S 2(2,3) be room, of o0 u, folded dummy_server_def] r 2(1)
  obtain ret c where D: "backend_named sv nm = D"
    and cr: "dummy_open_cache e (self sv) (oc_config i) NULL (world sv) = Some (ret, c, world sv')"
    and out: "oc_ret out = ret_code ret"
    and rest: "if ret = CACHERCISE_SUCCESS then oc_id out = u \<and> (backend_named sv nm, c) \<notin> C
        \<and> (\<exists>ys. dummy_server e jl ml D sv' ys (insert (backend_named sv nm, c) C)
             \<and> attached sv xs u (backend_named sv nm, c) sv' ys)
      else oc_id out = oc_id o0 \<and> dummy_server e jl ml D sv' xs C
        \<and> cache_list sv' xs = cache_list sv xs \<and> token (prov sv') = token (prov sv)"
    by (auto simp only: dummy_backend_sel option.inject prod.inject)
  have ok: "ret = CACHERCISE_SUCCESS" using out z ret_code_nonzero by fastforce
  have "cache_hoard (world sv') c = NULL"
    using dummy_open_ok [OF dummy_serverD(2) [OF sv] cr] ok by (auto simp: cache_hoard_def)
  with rest ok D u show ?thesis by (auto simp: attached_def)
qed

lemma sim_open:
  assumes sv: "dummy_server e jl ml D sv xs C" and room: "table_room sv" "dummy_room (world sv)"
    and r: "cachercise_open_cache_ult inp o0 u sv = Some (out, sv')"
  shows "simulated e jl ml D (abs_server sv xs) (ReqOpen inp o0 u) (RespOpen out) sv'"
  using r
proof (cases rule: open_ult_cases)
  case 1
  moreover have "inp \<noteq> None" using r by (cases inp) (simp_all add: cachercise_open_cache_ult_def)
  ultimately show ?thesis by (auto intro!: simulatedI [OF sv] as_refuse)
next
  case (2 i nm be)
  note S = sv [unfolded dummy_server_def]
  note dw = dummy_serverD(2) [OF sv]
  have "backend_named sv nm \<noteq> NULL" using 2 server_find_backend(1) [OF S, of nm] by simp
  from dm.open_ult_ok [OF S 2(2,3) this room, of o0 u, folded dummy_server_def] r 2(1)
  obtain ret c where
    cr: "dummy_open_cache e (self sv) (oc_config i) NULL (world sv) = Some (ret, c, world sv')"
    and out: "oc_ret out = ret_code ret"
    and rest: "if ret = CACHERCISE_SUCCESS then oc_id out = u \<and> (backend_named sv nm, c) \<notin> C
        \<and> (\<exists>ys. dummy_server e jl ml D sv' ys (insert (backend_named sv nm, c) C)
             \<and> attached sv xs u (backend_named sv nm, c) sv' ys)
      else oc_id out = oc_id o0 \<and> dummy_server e jl ml D sv' xs C
        \<and> cache_list sv' xs = cache_list sv xs \<and> token (prov sv') = token (prov sv)"
    by (auto simp only: dummy_backend_sel option.inject prod.inject)
  note kp = dummy_open_contents(1) [OF dw cr]
  show ?thesis
  proof (cases "ret = CACHERCISE_SUCCESS")
    case True
    from rest True obtain ys where ys: "oc_id out = u"
      "dummy_server e jl ml D sv' ys (insert (backend_named sv nm, c) C)"
      "attached sv xs u (backend_named sv nm, c) sv' ys" by auto
    have "out = \<lparr>oc_ret = 0, oc_id = u\<rparr>" using out ys(1) True by (cases out) (simp add: ret_code_def)
    moreover have "abs_server sv' ys = a_insert u (None) (abs_server sv xs)"
      using abs_attached [OF sv kp ys(3)] dummy_open_contents(2) [OF dw cr True] by simp
    moreover have "a_auth (abs_server sv xs) (oc_token i)" using 2(2) by (rule a_auth_abs)
    ultimately show ?thesis using ys(2) 2(1) by (auto intro!: simulatedI [OF ys(2)] as_open)
  next
    case False
    then have "refusal (ReqOpen inp o0 u) (RespOpen out)" using out by (simp add: ret_code_nonzero)
    moreover have "abs_server sv' xs = abs_server sv xs"
      using rest False by (intro abs_same [OF sv kp]) auto
    ultimately show ?thesis using rest False 2(1) by (auto intro!: simulatedI [of e jl ml D sv' xs C] as_refuse)
  qed
qed

lemma sim_close:
  assumes sv: "dummy_server e jl ml D sv xs C"
    and r: "cachercise_close_cache_ult inp o0 sv = Some (out, sv')"
  shows "simulated e jl ml D (abs_server sv xs) (ReqClose inp o0) (RespClose out) sv'"
proof (cases "\<exists>i bd. inp = Some i \<and> check_token (prov sv) (cl_token i) = Some True
    \<and> cache_map sv xs (cl_id i) = Some bd")
  case True
  then obtain i f c where i: "inp = Some i" "check_token (prov sv) (cl_token i) = Some True"
    "cache_map sv xs (cl_id i) = Some (f, c)" by auto
  note S = sv [unfolded dummy_server_def]
  obtain a x where c: "c = Some a" "cells (ctxs (world sv)) a = Some x"
    by (rule cache_map_ctx [OF sv i(3)]) blast
  note eff = dummy_close_ok [OF dummy_serverD(2) [OF sv] c(2)]
  from dm.close_ult_ok [OF S i(2,3), of o0] obtain ret ys where
    cl: "dummy_close_cache e (Some a) (world sv) = Some (ret, world sv')"
    and out: "out = o0\<lparr>cl_ret := ret_code ret\<rparr>"
    and ys: "dummy_server e jl ml D sv' ys (C - {(f, c)})"
      "cache_list sv' ys = filter (\<lambda>p. fst p \<noteq> cl_id i) (cache_list sv xs)"
      "token (prov sv') = token (prov sv)"
    using r i(1) c(1) by (auto simp: dummy_backend_def dummy_server_def)
  from eff cl have w: "ret = CACHERCISE_SUCCESS" "cells (ctxs (world sv')) = (cells (ctxs (world sv)))(a := None)"
    "cells (hoards (world sv')) = (\<lambda>q. if ctx_h x = Some q then None else cells (hoards (world sv)) q)"
    by auto
  have kp: "keeps (world sv) (world sv') b" if b: "cells (ctxs (world sv')) b = Some y" for b y
  proof (rule dummy_drop_contents [OF dummy_serverD(2) [OF sv] c(2) w(2,3)])
    show "b \<noteq> a" using b w(2) by auto
    then show "cells (ctxs (world sv)) b = Some y" using b w(2) by simp
  qed
  have "out = \<lparr>cl_ret = 0\<rparr>" using out w(1) by (cases out) (simp add: ret_code_def)
  moreover have "abs_server sv' ys = a_delete (cl_id i) (abs_server sv xs)"
    by (rule abs_removed [OF sv ys(1-3) kp])
  moreover have "a_auth (abs_server sv xs) (cl_token i)" using i(2) by (rule a_auth_abs)
  moreover have "a_lookup (cl_id i) (abs_server sv xs) \<noteq> None" using i(3) by (simp add: a_lookup_abs)
  ultimately show ?thesis using i(1) by (auto intro!: simulatedI [OF ys(1)] as_close)
next
  case False
  have m: "may_refuse (abs_server sv xs) (ReqClose inp o0)"
  proof (cases inp)
    case (Some i)
    with r obtain b where b: "check_token (prov sv) (cl_token i) = Some b"
      by (auto simp: cachercise_close_cache_ult_def bind_Some_iff)
    with False Some show ?thesis
      by (cases b; cases "cache_map sv xs (cl_id i)") (auto simp: a_auth_abs(2) [OF b] a_lookup_abs)
  qed (use r in \<open>simp add: cachercise_close_cache_ult_def\<close>)
  from dummy_serverD(1) [OF sv] r show ?thesis
  proof (cases rule: close_ult_cases)
    case 1
    then show ?thesis using m by (auto intro!: simulatedI [OF sv] as_refuse)
  qed (use False in auto)
qed

lemma sim_destroy:
  assumes sv: "dummy_server e jl ml D sv xs C"
    and r: "cachercise_destroy_cache_ult inp o0 sv = Some (out, sv')"
  shows "simulated e jl ml D (abs_server sv xs) (ReqDestroy inp o0) (RespDestroy out) sv'"
proof (cases "\<exists>i bd. inp = Some i \<and> check_token (prov sv) (ds_token i) = Some True
    \<and> cache_map sv xs (ds_id i) = Some bd")
  case True
  then obtain i f c where i: "inp = Some i" "check_token (prov sv) (ds_token i) = Some True"
    "cache_map sv xs (ds_id i) = Some (f, c)" by auto
  note S = sv [unfolded dummy_server_def]
  obtain a x where c: "c = Some a" "cells (ctxs (world sv)) a = Some x"
    by (rule cache_map_ctx [OF sv i(3)]) blast
  note eff = dummy_destroy_ok [OF dummy_serverD(2) [OF sv] c(2)]
  from dm.destroy_ult_ok [OF S i(2,3), of o0] obtain ret ys where
    cl: "dummy_destroy_cache e (Some a) (world sv) = Some (ret, world sv')"
    and out: "out = o0\<lparr>ds_ret := ret_code CACHERCISE_SUCCESS\<rparr>"
    and ys: "dummy_server e jl ml D sv' ys (C - {(f, c)})"
      "cache_list sv' ys = filter (\<lambda>p. fst p \<noteq> ds_id i) (cache_list sv xs)"
      "token (prov sv') = token (prov sv)"
    using r i(1) c(1) by (auto simp: dummy_backend_def dummy_server_def)
  from eff cl have w: "ret = CACHERCISE_SUCCESS" "cells (ctxs (world sv')) = (cells (ctxs (world sv)))(a := None)"
    "cells (hoards (world sv')) = (\<lambda>q. if ctx_h x = Some q then None else cells (hoards (world sv)) q)"
    by auto
  have kp: "keeps (world sv) (world sv') b" if b: "cells (ctxs (world sv')) b = Some y" for b y
  proof (rule dummy_drop_contents [OF dummy_serverD(2) [OF sv] c(2) w(2,3)])
    show "b \<noteq> a" using b w(2) by auto
    then show "cells (ctxs (world sv)) b = Some y" using b w(2) by simp
  qed
  have "out = \<lparr>ds_ret = 0\<rparr>" using out w(1) by (cases out) (simp add: ret_code_def)
  moreover have "abs_server sv' ys = a_delete (ds_id i) (abs_server sv xs)"
    by (rule abs_removed [OF sv ys(1-3) kp])
  moreover have "a_auth (abs_server sv xs) (ds_token i)" using i(2) by (rule a_auth_abs)
  moreover have "a_lookup (ds_id i) (abs_server sv xs) \<noteq> None" using i(3) by (simp add: a_lookup_abs)
  ultimately show ?thesis using i(1) by (auto intro!: simulatedI [OF ys(1)] as_destroy)
next
  case False
  have m: "may_refuse (abs_server sv xs) (ReqDestroy inp o0)"
  proof (cases inp)
    case (Some i)
    with r obtain b where b: "check_token (prov sv) (ds_token i) = Some b"
      by (auto simp: cachercise_destroy_cache_ult_def bind_Some_iff)
    with False Some show ?thesis
      by (cases b; cases "cache_map sv xs (ds_id i)") (auto simp: a_auth_abs(2) [OF b] a_lookup_abs)
  qed (use r in \<open>simp add: cachercise_destroy_cache_ult_def\<close>)
  from dummy_serverD(1) [OF sv] r show ?thesis
  proof (cases rule: destroy_ult_cases)
    case 1
    then show ?thesis using m by (auto intro!: simulatedI [OF sv] as_refuse)
  qed (use False in auto)
qed

lemma sim_list:
  assumes sv: "dummy_server e jl ml D sv xs C"
    and r: "cachercise_list_caches_ult inp o0 True sv = Some (out, sv')"
  shows "simulated e jl ml D (abs_server sv xs) (ReqList inp o0 True) (RespList out) sv'"
proof (cases inp)
  case None
  with r show ?thesis by (simp add: cachercise_list_caches_ult_def)
next
  case (Some i)
  with r obtain b where b: "check_token (prov sv) (li_token i) = Some b"
    by (auto simp: cachercise_list_caches_ult_def bind_Some_iff Let_def)
  show ?thesis
  proof (cases b)
    case True
    have "a_auth (abs_server sv xs) (li_token i)" using b True by (simp add: a_auth_abs)
    moreover have "length (spec_caches (abs_server sv xs)) = length xs"
      by (simp add: abs_server_def cache_list_def)
    moreover have "map fst (spec_caches (abs_server sv xs)) = map fst (cache_list sv xs)"
      by (simp add: abs_server_def case_prod_beta comp_def)
    ultimately have "astep (abs_server sv xs) (ReqList (Some i) o0 True) (RespList \<lparr>lo_ret = 0,
        lo_count = of_nat (min (length xs) (unat (li_max_ids i))), lo_ids = Some (map fst (cache_list sv xs))\<rparr>)
        (abs_server sv xs)"
      using as_list [of "abs_server sv xs" i o0 True] by simp
    moreover have "sv' = sv" using r by (rule list_ult_same)
    ultimately show ?thesis
      using list_ult_ok [OF dummy_serverD(1) [OF sv] b [unfolded True [THEN eqTrueI]], of o0] r Some
      by (auto intro: simulatedI [OF sv])
  next
    case False
    with r Some b have "out = o0\<lparr>lo_ids := None, lo_ret := ret_code CACHERCISE_ERR_INVALID_TOKEN\<rparr>" "sv' = sv"
      by (auto simp: cachercise_list_caches_ult_def Let_def)
    then show ?thesis using Some a_auth_abs(2) [OF b] False
      by (auto simp: ret_code_nonzero intro!: simulatedI [OF sv] as_refuse)
  qed
qed

lemma sim_hello:
  assumes sv: "dummy_server e jl ml D sv xs C" and r: "cachercise_hello_ult inp sv = Some sv'"
  shows "simulated e jl ml D (abs_server sv xs) (ReqHello inp) RespHello sv'"
  using dummy_serverD(1) [OF sv] r
proof (cases rule: hello_ult_cases)
  case 1
  then show ?thesis by (auto intro!: simulatedI [OF sv] as_hello)
next
  case (2 i bd)
  obtain f c where bd: "bd = (f, c)" by (cases bd)
  from dm.hello_ult_ok [OF sv [unfolded dummy_server_def] 2(2) [unfolded bd], folded dummy_server_def] r 2(1)
  obtain w where w: "dummy_say_hello c (world sv) = Some w" "sv' = sv\<lparr>world := w\<rparr>"
    "dummy_server e jl ml D (sv\<lparr>world := w\<rparr>) xs C"
    by (auto simp only: dummy_backend_sel option.inject)
  have "keeps (world sv) w a" for a
    using w(1) unfolding keeps_def by (intro abs_contents_cong) (auto simp: dummy_say_hello_def)
  then have "abs_server sv' xs = abs_server sv xs"
    using w(2) by (intro abs_same [OF sv]) (auto simp: cache_list_def)
  then show ?thesis using w(2) by (auto intro!: simulatedI [OF w(3)] as_hello)
qed

lemma sim_sum:
  assumes sv: "dummy_server e jl ml D sv xs C"
    and r: "cachercise_sum_ult inp o0 sv = Some (out, sv')"
  shows "simulated e jl ml D (abs_server sv xs) (ReqSum inp o0) (RespSum out) sv'"
proof (cases "\<exists>i bd. inp = Some i \<and> cache_map sv xs (su_cache_id i) = Some bd")
  case True
  then obtain i bd where i: "inp = Some i" "cache_map sv xs (su_cache_id i) = Some bd" by auto
  let ?s = "sint (su_x i) + sint (su_y i)"
  from sum_ult_run [OF sv i(2), of o0] r i(1)
  have s: "- (2 ^ 31) \<le> ?s" "?s < 2 ^ 31" "out = \<lparr>so_result = word_of_int ?s, so_ret = 0\<rparr>" "sv' = sv"
    by (auto simp: Let_def split: if_splits)
  have "sint (word_of_int z :: i32) = z" if "- (2 ^ 31) \<le> z" "z < 2 ^ 31" for z
    using that by (simp add: signed_of_int signed_take_bit_int_eq_self)
  from this [OF s(1,2)] have "sint (word_of_int ?s :: i32) = ?s" .
  then show ?thesis using s(3,4) i by (auto simp: a_lookup_abs intro!: simulatedI [OF sv] as_sum)
next
  case False
  have m: "may_refuse (abs_server sv xs) (ReqSum inp o0)"
  proof (cases inp)
    case (Some i)
    with False show ?thesis by (cases "cache_map sv xs (su_cache_id i)") (auto simp: a_lookup_abs)
  qed simp
  from dummy_serverD(1) [OF sv] r show ?thesis
  proof (cases rule: sum_ult_cases)
    case 1
    then show ?thesis using m by (auto intro!: simulatedI [OF sv] as_refuse)
  qed (use False in auto)
qed

lemma abs_written:
  assumes sv: "dummy_server e jl ml D sv xs C" and k: "cache_map sv xs k = Some (f, Some a)"
    and a: "cells (ctxs (world sv)) a = Some x" "ctx_h x \<noteq> NULL"
    and w: "ctxs w = ctxs (world sv)"
      "cache_data w (Some a) = (cache_data (world sv) (Some a))(n := v)"
      "\<And>b y. cells (ctxs (world sv)) b = Some y \<Longrightarrow> b \<noteq> a \<Longrightarrow> keeps (world sv) w b"
  shows "abs_server (sv\<lparr>world := w\<rparr>) xs = a_write k n v (abs_server sv xs)"
proof -
  note S = server_okD [OF sv [unfolded dummy_server_def]]
  have km: "(k, f, Some a) \<in> set (cache_list sv xs)" using k by (simp add: cache_map_def map_of_SomeD)
  have dk: "distinct (map fst (cache_list sv xs))"
    using table_invD(5,6) [OF S(1)] by (simp add: cache_list_def comp_def distinct_map)
  have wr: "abs_contents w (Some a) = map_option (\<lambda>d. d(n := v)) (abs_contents (world sv) (Some a))"
    using a w(1,2) by (simp add: abs_contents_def cache_hoard_def)
  have "abs_contents w (snd bd) = (if i = k then map_option (\<lambda>d. d(n := v)) (abs_contents (world sv) (snd bd))
      else abs_contents (world sv) (snd bd))" if p: "(i, bd) \<in> set (cache_list sv xs)" for i bd
  proof -
    obtain g c where bd: "bd = (g, c)" by (cases bd)
    obtain b y where b: "g = D" "c = Some b" "cells (ctxs (world sv)) b = Some y"
      by (rule cache_list_ctx [OF sv p [unfolded bd]]) blast
    obtain "f = D" by (rule cache_map_ctx [OF sv k])
    have "i = k \<longleftrightarrow> b = a"
    proof
      assume "i = k"
      then show "b = a"
        using map_of_is_SomeI [OF dk p] k bd b(2) by (simp add: cache_map_def)
    next
      assume "b = a"
      then have "snd (i, bd) = snd (k, f, Some a)" using bd b(1,2) \<open>f = D\<close> by simp
      with p km S(4) have "(i, bd) = (k, f, Some a)" unfolding distinct_map inj_on_def by blast
      then show "i = k" by simp
    qed
    then show ?thesis using wr w(3) [OF b(3)] b(2) bd by (auto simp: keeps_def)
  qed
  then show ?thesis by (auto simp: abs_server_def a_write_def cache_list_def)
qed

lemma sim_io:
  assumes sv: "dummy_server e jl ml D sv xs C"
    and r: "cachercise_io_ult inp o0 sv = Some (out, sv')" and sz: "sized (ReqIo inp o0)"
  shows "simulated e jl ml D (abs_server sv xs) (ReqIo inp o0) (RespIo out) sv'"
proof (cases "\<exists>i bd. inp = Some i \<and> cache_map sv xs (io_cache_id i) = Some bd")
  case True
  then obtain i f c where i: "inp = Some i" "cache_map sv xs (io_cache_id i) = Some (f, c)" by auto
  note dw = dummy_serverD(2) [OF sv]
  obtain a x where a: "f = D" "c = Some a" "cells (ctxs (world sv)) a = Some x"
    by (rule cache_map_ctx [OF sv i(2)])
  from dm.io_ult_ok [OF sv [unfolded dummy_server_def] i(2) r [unfolded i(1)], folded dummy_server_def]
  obtain t scr w where io: "dummy_io e (Some a) (io_count i) (io_offset i) [io_scratch i]
      (ucast (io_kind i)) (world sv) = Some (t, [scr], w)"
    and out: "out = \<lparr>out_bytes = t * 8, out_scratch = scr, out_result = t, out_ret = 0\<rparr>"
    and sv': "sv' = sv\<lparr>world := w\<rparr>" "dummy_server e jl ml D sv' xs C"
    using a(2) by (auto simp: dummy_backend_sel)
  have lk: "a_lookup (io_cache_id i) (abs_server sv xs) = Some (abs_contents (world sv) (Some a))"
    using i(2) a(2) by (simp add: a_lookup_abs)
  have stored: "abs_contents (world sv) (Some a) = Some (cache_data (world sv) (Some a))" if "ctx_h x \<noteq> NULL"
    using that a(3) by (simp add: abs_contents_def cache_hoard_def)
  show ?thesis
  proof (cases "8 \<le> unat (io_count i)")
    case True
    note one = dummy_io_one [OF dw a(3) True io]
    note lk1 = lk [unfolded stored [OF one(2)]]
    show ?thesis
    proof (cases "ucast (io_kind i) = CACHERCISE_WRITE")
      case wr: True
      note W = one(4) [OF wr]
      have "abs_server sv' xs = a_write (io_cache_id i) (unat (io_offset i)) (io_scratch i) (abs_server sv xs)"
        unfolding sv'(1) using W by (intro abs_written [OF sv i(2) [unfolded a(2)] a(3) one(2)]) auto
      moreover have "out = io_answer 1 (io_scratch i)" using W out by (simp add: io_answer_def)
      ultimately show ?thesis
        using as_io_write [OF lk1 True one(1) wr, of o0] i(1) by (intro simulatedI [OF sv'(2)]) simp
    next
      case rd: False
      have "sv' = sv" "out = io_answer 1 (cache_data (world sv) (Some a) (unat (io_offset i)))"
        using one(3) [OF rd] out sv'(1) by (simp_all add: io_answer_def)
      then show ?thesis
        using as_io_read [OF lk1 True one(1) rd, of o0] i(1) by (intro simulatedI [OF sv'(2)]) simp
    qed
  next
    case False
    then have few: "unat (io_count i) < 8"
      and off: "ucast (io_kind i) = CACHERCISE_WRITE \<longrightarrow> unat (io_offset i) < 2 ^ 62"
      using sz i(1) by auto
    note F = dummy_io_few [OF dw a(3) few off io]
    have "abs_server sv' xs = abs_server sv xs"
      unfolding sv'(1) by (rule abs_same [OF sv]) (use F(5) in \<open>auto simp: cache_list_def\<close>)
    moreover have "out = io_answer 0 (io_scratch i)" using F out by (simp add: io_answer_def)
    ultimately show ?thesis
      using as_io_empty [OF lk [unfolded stored [OF F(1)]] few, of o0] i(1)
      by (intro simulatedI [OF sv'(2)]) simp
  qed
next
  case False
  have m: "may_refuse (abs_server sv xs) (ReqIo inp o0)"
  proof (cases inp)
    case (Some i)
    with False show ?thesis by (cases "cache_map sv xs (io_cache_id i)") (auto simp: a_lookup_abs)
  qed simp
  from dummy_serverD(1) [OF sv] r show ?thesis
  proof (cases rule: io_ult_cases)
    case 1
    then show ?thesis using m by (auto intro!: simulatedI [OF sv] as_refuse)
  qed (use False in auto)
qed

section \<open>Refinement\<close>

lemma serve_simulated:
  assumes sv: "dummy_server e jl ml D sv xs C" and room: "has_room dummy_room req sv" and sz: "sized req"
    and r: "serve req sv = Some (resp, sv')"
  shows "\<exists>ys C'. dummy_server e jl ml D sv' ys C'
     \<and> astep (abs_server sv xs) req resp (abs_server sv' ys)"
proof -
  have "simulated e jl ml D (abs_server sv xs) req resp sv'"
  proof (cases req)
    case (ReqList inp o0 g)
    then show ?thesis using r room sim_list [OF sv] by auto
  qed (use r room sz sim_create [OF sv] sim_open [OF sv] sim_close [OF sv] sim_destroy [OF sv]
        sim_hello [OF sv] sim_sum [OF sv] sim_io [OF sv] in auto)
  then show ?thesis unfolding simulated_def .
qed

lemma run_simulated:
  assumes "srun dummy_room sv tr sv'" and "dummy_server e jl ml D sv xs C"
    and "\<forall>q \<in> fst ` set tr. sized q"
  shows "\<exists>ys C'. dummy_server e jl ml D sv' ys C' \<and> arun (abs_server sv xs) tr (abs_server sv' ys)"
  using assms
proof (induction arbitrary: xs C rule: srun.induct)
  case (sr_nil sv)
  then show ?case by (blast intro: ar_nil)
next
  case (sr_cons sv req resp sv1 tr sv2)
  from sr_cons.hyps(1) have s: "has_room dummy_room req sv" "serve req sv = Some (resp, sv1)"
    by (auto simp: step_iff)
  from serve_simulated [OF sr_cons.prems(1) s(1) _ s(2)] sr_cons.prems(2) obtain ys C1 where
    y: "dummy_server e jl ml D sv1 ys C1" "astep (abs_server sv xs) req resp (abs_server sv1 ys)" by auto
  from sr_cons.IH [OF y(1)] sr_cons.prems(2) obtain zs C2 where
    "dummy_server e jl ml D sv2 zs C2" "arun (abs_server sv1 ys) tr (abs_server sv2 zs)" by auto
  with y(2) show ?case by (blast intro: ar_cons)
qed

end
