(* ===== verification/Cachebench.thy ===== *)
theory Cachebench
  imports Bench Examples Abstract_Server
begin

text \<open>
  The benchmark program, \<open>examples/cachebench.c\<close> with the macros of
  \<open>examples/json-macros.h\<close> it uses: reading the arguments and the configuration, the
  set-up through MPI, SSG and margo, the run, and the clean-up labels.  The two loops
  are those of theory \<open>Bench\<close>.  One process is modelled, that of one rank;
  what the others do shows in the state after \<open>MPI_Barrier\<close> and \<open>MPI_Bcast\<close>.

  Timings and the barriers that only serve them are left out.
\<close>

section \<open>What the program uses\<close>

text \<open>
  json-c over the state \<open>'j\<close>, which it shares with no other library.  \<open>json_tokener_parse\<close> is the sequence of the four
  functions of the tokener; \<open>json_object_put\<close> is \<open>None\<close> for a pointer that is no live
  object.
\<close>

record 'j json =
  json_tokener_parse :: "string \<Rightarrow> 'j \<Rightarrow> ptr \<times> 'j"
  json_object_object_get :: "ptr \<Rightarrow> string \<Rightarrow> 'j \<Rightarrow> ptr"
  json_object_object_add :: "ptr \<Rightarrow> string \<Rightarrow> ptr \<Rightarrow> 'j \<Rightarrow> 'j"
  json_object_object_del :: "ptr \<Rightarrow> string \<Rightarrow> 'j \<Rightarrow> 'j"
  json_object_is_int :: "ptr \<Rightarrow> 'j \<Rightarrow> bool"
  json_object_get_int :: "ptr \<Rightarrow> 'j \<Rightarrow> i32"
  json_object_new_int :: "i64 \<Rightarrow> 'j \<Rightarrow> ptr \<times> 'j"
  json_object_to_string :: "ptr \<Rightarrow> 'j \<Rightarrow> string"
  json_object_release :: "ptr \<Rightarrow> 'j \<Rightarrow> 'j option"

text \<open>
  MPI, SSG and the rest of margo, over the state \<open>'n\<close> of the network.  Codes are \<open>int\<close>s, \<open>SSG_SUCCESS\<close> is 0.  A group or
  member id is a number.  \<open>MPI_Bcast\<close> gets what \<open>cache_id\<close> holds and gives what it
  holds afterwards.  \<open>getopt\<close> gives the options found in \<open>argv\<close>, in order.
\<close>

record 'n bench_lib =
  MPI_Init :: "'n \<Rightarrow> 'n"
  MPI_Comm_size :: "'n \<Rightarrow> nat"
  MPI_Comm_rank :: "'n \<Rightarrow> nat"
  MPI_Barrier :: "'n \<Rightarrow> 'n"
  MPI_Bcast :: "cachercise_cache_id_t \<Rightarrow> 'n \<Rightarrow> cachercise_cache_id_t \<times> 'n"
  MPI_Abort :: "'n \<Rightarrow> 'n"
  MPI_Finalize :: "'n \<Rightarrow> 'n"
  ssg_get_group_transport_from_file :: "string \<Rightarrow> 'n \<Rightarrow> i32 \<times> string \<times> 'n"
  ssg_init :: "'n \<Rightarrow> i32 \<times> 'n"
  ssg_group_id_load :: "string \<Rightarrow> 'n \<Rightarrow> i32 \<times> nat \<times> 'n"
  ssg_group_refresh :: "ptr \<Rightarrow> nat \<Rightarrow> 'n \<Rightarrow> i32 \<times> 'n"
  ssg_get_group_member_id_from_rank :: "nat \<Rightarrow> nat \<Rightarrow> 'n \<Rightarrow> i32 \<times> nat \<times> 'n"
  ssg_get_group_member_addr_str :: "nat \<Rightarrow> nat \<Rightarrow> 'n \<Rightarrow> i32 \<times> string \<times> 'n"
  ssg_finalize :: "'n \<Rightarrow> 'n"
  margo_init_ext :: "string \<Rightarrow> string option \<Rightarrow> 'n \<Rightarrow> ptr \<times> 'n"
  margo_get_config :: "ptr \<Rightarrow> 'n \<Rightarrow> string"
  getopt :: "string list \<Rightarrow> (char \<times> string) list"
  file_contents :: "string \<Rightarrow> string option"
  malloc_ok :: "nat \<Rightarrow> bool"

text \<open>What the program prints.\<close>

datatype bench_line =
    Overriding string "i32 option" i32
  | Wrong_type string
  | No_file string
  | Parse_error
  | Usage
  | Refreshed
  | Updates nat i32
  | Mismatches nat
  | Config string

text \<open>The state of a process: the heaps of both libraries, the JSON objects, the network, and what it has printed.\<close>

record ('j, 'n) bench =
  b_admins :: "cachercise_admin heap"
  b_clients :: "cachercise_client heap"
  b_rhs :: "cachercise_cache_handle heap"
  b_warnings :: "u64 list"
  b_json :: 'j
  b_net :: 'n
  b_out :: "bench_line list"

definition adm :: "('j, 'n) bench \<Rightarrow> 'n aworld" where
  "adm st = \<lparr>admins = b_admins st, anet = b_net st\<rparr>"

definition cli :: "('j, 'n) bench \<Rightarrow> 'n cworld" where
  "cli st = \<lparr>clients = b_clients st, rhs = b_rhs st, network = b_net st, warnings = b_warnings st\<rparr>"

definition set_adm :: "'n aworld \<Rightarrow> ('j, 'n) bench \<Rightarrow> ('j, 'n) bench" where
  "set_adm a st = st\<lparr>b_admins := admins a, b_net := anet a\<rparr>"

definition set_cli :: "'n cworld \<Rightarrow> ('j, 'n) bench \<Rightarrow> ('j, 'n) bench" where
  "set_cli c st = st\<lparr>b_clients := clients c, b_rhs := rhs c, b_net := network c, b_warnings := warnings c\<rparr>"

abbreviation at_net :: "('n \<Rightarrow> 'n) \<Rightarrow> ('j, 'n) bench \<Rightarrow> ('j, 'n) bench" where
  "at_net f st \<equiv> st\<lparr>b_net := f (b_net st)\<rparr>"

abbreviation at_json :: "('j \<Rightarrow> 'j) \<Rightarrow> ('j, 'n) bench \<Rightarrow> ('j, 'n) bench" where
  "at_json f st \<equiv> st\<lparr>b_json := f (b_json st)\<rparr>"

abbreviation say :: "bench_line list \<Rightarrow> ('j, 'n) bench \<Rightarrow> ('j, 'n) bench" where
  "say ls st \<equiv> st\<lparr>b_out := b_out st @ ls\<rparr>"

section \<open>The configuration\<close>

definition CONFIG_OVERRIDE_INTEGER ::
  "'j json \<Rightarrow> ptr \<Rightarrow> string \<Rightarrow> i32 \<Rightarrow> bool \<Rightarrow> ('j, 'n) bench \<Rightarrow> ('j, 'n) bench" where
  "CONFIG_OVERRIDE_INTEGER J cfg k v warning st =
     (let tmp = json_object_object_get J cfg k (b_json st);
          ls = (if tmp \<noteq> NULL \<and> warning
                then if \<not> json_object_is_int J tmp (b_json st) then [Overriding k None v]
                     else if json_object_get_int J tmp (b_json st) \<noteq> v
                     then [Overriding k (Some (json_object_get_int J tmp (b_json st))) v] else []
                else []);
          st = say ls st;
          (x, j) = json_object_new_int J (scast v) (b_json st)
      in st\<lparr>b_json := json_object_object_add J cfg k x j\<rparr>)"

text \<open>The instance for the type \<open>int\<close>.  The result is \<open>None\<close> where the macro returns -1.\<close>

definition CONFIG_HAS_OR_CREATE ::
  "'j json \<Rightarrow> ptr \<Rightarrow> string \<Rightarrow> i32 \<Rightarrow> ('j, 'n) bench \<Rightarrow> ptr option \<times> ('j, 'n) bench" where
  "CONFIG_HAS_OR_CREATE J cfg k v st =
     (let out = json_object_object_get J cfg k (b_json st) in
      if out \<noteq> NULL \<and> \<not> json_object_is_int J out (b_json st) then (None, say [Wrong_type k] st)
      else if out = NULL
      then let (x, j) = json_object_new_int J (scast v) (b_json st)
           in (Some x, st\<lparr>b_json := json_object_object_add J cfg k x j\<rparr>)
      else (Some out, st))"

text \<open>
  \<open>json_cfg\<close> is a variable of \<open>main\<close>: the second component is what it holds, \<open>None\<close> as
  long as nothing has been stored there.  The text that is parsed ends at the first zero byte.
\<close>

definition parse_json ::
  "'n bench_lib \<Rightarrow> 'j json \<Rightarrow> string \<Rightarrow> ('j, 'n) bench \<Rightarrow> i32 \<times> ptr option \<times> ('j, 'n) bench" where
  "parse_json L J json_file st =
     (case file_contents L json_file of
        None \<Rightarrow> (- 1, None, say [No_file json_file] st)
      | Some s \<Rightarrow>
          if \<not> malloc_ok L (length s + 1) then (- 1, None, st)
          else let (cfg, j) = json_tokener_parse J (takeWhile (\<lambda>c. c \<noteq> CHR 0x00) s) (b_json st);
                   st = st\<lparr>b_json := j\<rparr> in
          if cfg = NULL then (- 1, Some NULL, say [Parse_error] st)
          else let st = CONFIG_OVERRIDE_INTEGER J cfg ''nranks'' (of_nat (MPI_Comm_size L (b_net st))) True st in
          (case CONFIG_HAS_OR_CREATE J cfg ''items_per_process'' 100 st of
             (None, st) \<Rightarrow> (- 1, Some cfg, st)
           | (Some val, st) \<Rightarrow> (0, Some cfg, st)))"

text \<open>\<open>sscanf(optarg, "%s", \<dots>)\<close> into an array of 256 bytes: a word, if there is one.\<close>

definition scan_word :: "string \<Rightarrow> string option option" where
  "scan_word s =
     (let w = takeWhile (\<lambda>c. \<not> c_space c) (dropWhile c_space s) in
      if w = [] then Some None else if length w < 256 then Some (Some w) else None)"

text \<open>The member \<open>output_file\<close> is never used.\<close>

record options =
  group_file :: string
  json_file :: string

text \<open>The loop over the options; the inner \<open>None\<close> is \<open>return -1\<close>.\<close>

fun parse_opts :: "(char \<times> string) list \<Rightarrow> options \<Rightarrow> options option option" where
  "parse_opts [] o1 = Some (Some o1)"
| "parse_opts ((c, arg) # xs) o1 =
     (if c = CHR ''g''
      then do {
        w \<leftarrow> scan_word arg;
        (case w of None \<Rightarrow> Some None | Some w \<Rightarrow> parse_opts xs (o1\<lparr>group_file := w\<rparr>)) }
      else if c = CHR ''j''
      then do {
        w \<leftarrow> scan_word arg;
        (case w of None \<Rightarrow> Some None | Some w \<Rightarrow> parse_opts xs (o1\<lparr>json_file := w\<rparr>)) }
      else Some None)"

definition parse_args ::
  "'n bench_lib \<Rightarrow> 'j json \<Rightarrow> string list \<Rightarrow> ('j, 'n) bench
    \<Rightarrow> (i32 \<times> options \<times> ptr option \<times> ('j, 'n) bench) option" where
  "parse_args L J argv st =
     (let o0 = \<lparr>group_file = [], json_file = []\<rparr> in
      do {
        r \<leftarrow> parse_opts (getopt L argv) o0;
        (case r of
           None \<Rightarrow> Some (- 1, o0, None, st)
         | Some o1 \<Rightarrow>
             if json_file o1 \<noteq> []
             then let (ret, cfg, st) = parse_json L J (json_file o1) st in Some (ret, o1, cfg, st)
             else Some (0, o1, None, st)) })"

definition dump_json :: "'n bench_lib \<Rightarrow> 'j json \<Rightarrow> ptr \<Rightarrow> ptr \<Rightarrow> ('j, 'n) bench \<Rightarrow> i32 \<times> ('j, 'n) bench" where
  "dump_json L J m cfg st =
     (let (margo_config, j) = json_tokener_parse J (margo_get_config L m (b_net st)) (b_json st);
          st = st\<lparr>b_json := j\<rparr> in
      if margo_config = NULL then (- 1, say [Parse_error] st)
      else let st = at_json (json_object_object_del J cfg ''margo'') st;
               st = at_json (json_object_object_add J cfg ''margo'' margo_config) st
           in (0, say [Config (json_object_to_string J cfg (b_json st))] st))"

section \<open>The run\<close>

text \<open>
  \<open>main\<close> from the creation of the admin to the label \<open>err_ssg_cleanup\<close>.  The first component
  is the value of \<open>ret\<close> there, \<open>None\<close> after \<open>FATAL\<close>.  \<open>id0\<close> is what \<open>cache_id\<close> holds
  before it is set, \<open>scr\<close> what \<open>in.scratch\<close> of \<open>cachercise_io\<close> holds.
\<close>

definition bench_create ::
  "'n net \<Rightarrow> procs \<Rightarrow> nat \<Rightarrow> ptr \<Rightarrow> ptr \<Rightarrow> cachercise_cache_id_t \<Rightarrow> ('j, 'n) bench
    \<Rightarrow> (i32 \<times> cachercise_cache_id_t \<times> ('j, 'n) bench) option" where
  "bench_create N P rank admin svr_addr id0 st =
     (if rank = 0
      then do {
        (ret, i, a) \<leftarrow> cachercise_create_cache N P admin svr_addr 1 None (Some ''dummy'') (Some ''{}'') (adm st);
        Some (ret, case i of None \<Rightarrow> id0 | Some i \<Rightarrow> i, set_adm a st) }
      else Some (ok_code, id0, st))"

text \<open>An \<open>int\<close> product; outside of the range it is undefined.\<close>

definition c_mult :: "i32 \<Rightarrow> nat \<Rightarrow> i32 option" where
  "c_mult a b = (let z = sint a * int b in if - (2 ^ 31) \<le> z \<and> z < 2 ^ 31 then Some (word_of_int z) else None)"

text \<open>The part of rank 0 behind the loops, and what the other ranks do there.\<close>

definition bench_report ::
  "'n net \<Rightarrow> 'n bench_lib \<Rightarrow> 'j json \<Rightarrow> procs \<Rightarrow> i64 \<Rightarrow> nat \<Rightarrow> nat \<Rightarrow> i32 \<Rightarrow> ptr \<Rightarrow> ptr \<Rightarrow> ptr \<Rightarrow> ('j, 'n) bench
    \<Rightarrow> ('j, 'n) bench option" where
  "bench_report N L J P scr nprocs rank nr_items m rh cfg st =
     (if rank = 0
      then do {
        total \<leftarrow> c_mult nr_items nprocs;
        let st = at_net (MPI_Barrier L) (say [Updates nprocs total] st);
        (nerrors, c) \<leftarrow> bench_verify N P scr rh (nat (sint nr_items) * nprocs) 0 (- 9999) 0 (cli st);
        let st = say (if nerrors = 0 then [] else [Mismatches nerrors]) (set_cli c st);
        Some (snd (dump_json L J m cfg st)) }
      else Some (at_net (MPI_Barrier L) st))"

definition bench_session ::
  "'n net \<Rightarrow> 'n bench_lib \<Rightarrow> 'j json \<Rightarrow> procs \<Rightarrow> i64 \<Rightarrow> cachercise_cache_id_t \<Rightarrow> nat \<Rightarrow> nat \<Rightarrow> ptr \<Rightarrow> ptr \<Rightarrow> ptr
    \<Rightarrow> ('j, 'n) bench \<Rightarrow> (i32 option \<times> ('j, 'n) bench) option" where
  "bench_session N L J P scr id0 nprocs rank m svr_addr cfg st = do {
     (ret, admin, a) \<leftarrow> cachercise_admin_init N m (adm st);
     let st = set_adm a st;
     if ret \<noteq> ok_code then Some (None, st) else do {
     (ret, cache_id, st) \<leftarrow> bench_create N P rank admin svr_addr id0 st;
     if ret \<noteq> ok_code then Some (None, st) else do {
     let (cache_id, n) = MPI_Bcast L cache_id (b_net st);
     let st = st\<lparr>b_net := n\<rparr>;
     (ret, clt, c) \<leftarrow> cachercise_client_init N m (cli st);
     let st = set_cli c st;
     if ret \<noteq> ok_code then Some (None, st) else do {
     (ret, rh, c) \<leftarrow> cachercise_cache_handle_create N clt svr_addr 1 cache_id (cli st);
     let st = set_cli c st;
     if ret \<noteq> ok_code then Some (None, st) else do {
     let nr_items = json_object_get_int J (json_object_object_get J cfg ''items_per_process'' (b_json st)) (b_json st);
     c \<leftarrow> bench_writes N P scr (\<lambda>r. rh) nprocs (map (Pair rank) [0..<nat (sint nr_items)]) (cli st);
     st \<leftarrow> bench_report N L J P scr nprocs rank nr_items m rh cfg (set_cli c st);
     (ret, c) \<leftarrow> cachercise_cache_handle_release N rh (cli st);
     let st = set_cli c st;
     if ret \<noteq> ok_code then Some (None, st) else do {
     (ret, c) \<leftarrow> cachercise_client_finalize clt (cli st);
     let st = set_cli c st;
     if ret \<noteq> ok_code then Some (None, st) else do {
     (ret, a) \<leftarrow> cachercise_admin_finalize admin (adm st);
     let st = set_adm a st;
     if ret \<noteq> ok_code then Some (None, st) else Some (Some ret, st) } } } } } } }"

section \<open>The set-up and the labels\<close>

text \<open>
  The three labels, each with the fall through to the next.  The address string that \<open>err_ssg_cleanup\<close>
  frees is a value here.
\<close>

definition err_mpi_cleanup ::
  "'n bench_lib \<Rightarrow> 'j json \<Rightarrow> ptr option \<Rightarrow> i32 \<Rightarrow> ('j, 'n) bench \<Rightarrow> (outcome \<times> ('j, 'n) bench) option" where
  "err_mpi_cleanup L J json_cfg ret st = do {
     cfg \<leftarrow> json_cfg;
     j \<leftarrow> (if cfg \<noteq> NULL then json_object_release J cfg (b_json st) else Some (b_json st));
     let st = st\<lparr>b_json := j\<rparr>;
     Some (Exited ret, at_net (if ret \<noteq> 0 then MPI_Abort L else MPI_Finalize L) st) }"

definition err_margo_cleanup ::
  "'n net \<Rightarrow> 'n margo_app \<Rightarrow> 'n bench_lib \<Rightarrow> 'j json \<Rightarrow> ptr \<Rightarrow> ptr \<Rightarrow> ptr option \<Rightarrow> i32 \<Rightarrow> ('j, 'n) bench
    \<Rightarrow> (outcome \<times> ('j, 'n) bench) option" where
  "err_margo_cleanup N A L J m svr_addr json_cfg ret st =
     (let st = (if svr_addr \<noteq> NULL then at_net (margo_addr_free N svr_addr) st else st);
          st = at_net (margo_finalize A m) st
      in err_mpi_cleanup L J json_cfg ret st)"

definition err_ssg_cleanup ::
  "'n net \<Rightarrow> 'n margo_app \<Rightarrow> 'n bench_lib \<Rightarrow> 'j json \<Rightarrow> ptr \<Rightarrow> ptr \<Rightarrow> ptr option \<Rightarrow> i32 \<Rightarrow> ('j, 'n) bench
    \<Rightarrow> (outcome \<times> ('j, 'n) bench) option" where
  "err_ssg_cleanup N A L J m svr_addr json_cfg ret st =
     err_margo_cleanup N A L J m svr_addr json_cfg ret (at_net (ssg_finalize L) st)"

text \<open>
  From the load of the group to the lookup of the server.  The result is \<open>ret\<close>, \<open>svr_addr\<close> and
  the state; \<open>svr_addr\<close> stays \<open>NULL\<close> unless the lookup succeeds.
\<close>

definition find_server ::
  "'n margo_app \<Rightarrow> 'n bench_lib \<Rightarrow> string \<Rightarrow> nat \<Rightarrow> ptr \<Rightarrow> ('j, 'n) bench \<Rightarrow> i32 \<times> ptr \<times> ('j, 'n) bench" where
  "find_server A L file rank m st =
     (let (ret, gid, n) = ssg_group_id_load L file (b_net st); st = st\<lparr>b_net := n\<rparr> in
      if ret \<noteq> 0 then (ret, NULL, st)
      else let (ret, n) = ssg_group_refresh L m gid (b_net st); st = st\<lparr>b_net := n\<rparr> in
      if ret \<noteq> 0 then (ret, NULL, st)
      else let st = at_net (MPI_Barrier L) st;
               st = (if rank = 0 then say [Refreshed] st else st);
               (ret, svr_id, n) = ssg_get_group_member_id_from_rank L gid 0 (b_net st); st = st\<lparr>b_net := n\<rparr> in
      if ret \<noteq> 0 then (ret, NULL, st)
      else let (ret, svr_addr_str, n) = ssg_get_group_member_addr_str L gid svr_id (b_net st); st = st\<lparr>b_net := n\<rparr> in
      if ret \<noteq> 0 then (ret, NULL, st)
      else let (ret, svr_addr, n) = margo_addr_lookup A m svr_addr_str (b_net st); st = st\<lparr>b_net := n\<rparr> in
      (ret, if ret \<noteq> 0 then NULL else svr_addr, st))"

definition cachebench_main ::
  "'n net \<Rightarrow> 'n margo_app \<Rightarrow> 'n bench_lib \<Rightarrow> 'j json \<Rightarrow> procs \<Rightarrow> i64 \<Rightarrow> cachercise_cache_id_t \<Rightarrow> string list
    \<Rightarrow> ('j, 'n) bench \<Rightarrow> (outcome \<times> ('j, 'n) bench) option" where
  "cachebench_main N A L J P scr id0 argv st = do {
     let st = at_net (MPI_Init L) st;
     let nprocs = MPI_Comm_size L (b_net st);
     let rank = MPI_Comm_rank L (b_net st);
     (ret, opts, json_cfg, st) \<leftarrow> parse_args L J argv st;
     if sint ret < 0 then Some (Exited 1, say [Usage] st) else do {
     let (_, proto, n) = ssg_get_group_transport_from_file L (group_file opts) (b_net st);
     let st = st\<lparr>b_net := n\<rparr>;
     cfg \<leftarrow> json_cfg;
     let margo_config = json_object_object_get J cfg ''margo'' (b_json st);
     let conf = (if margo_config \<noteq> NULL then Some (json_object_to_string J margo_config (b_json st)) else None);
     let (m, n) = margo_init_ext L proto conf (b_net st);
     let st = st\<lparr>b_net := n\<rparr>;
     if m = NULL then err_mpi_cleanup L J json_cfg (- 1) st else do {
     let (ret, n) = ssg_init L (b_net st);
     let st = st\<lparr>b_net := n\<rparr>;
     if ret \<noteq> 0 then err_margo_cleanup N A L J m NULL json_cfg ret st else do {
     let (ret, svr_addr, st) = find_server A L (group_file opts) rank m st;
     if ret \<noteq> 0 then err_ssg_cleanup N A L J m svr_addr json_cfg ret st else do {
     (ret, st) \<leftarrow> bench_session N L J P scr id0 nprocs rank m svr_addr cfg st;
     (case ret of
        None \<Rightarrow> Some (Exited (- 1), st)
      | Some ret \<Rightarrow> err_ssg_cleanup N A L J m svr_addr json_cfg ret st) } } } } }"

section \<open>The two views of the state\<close>

lemma views [simp]:
  "adm (set_adm a st) = a" "cli (set_cli c st) = c"
  "adm (set_cli c st) = \<lparr>admins = b_admins st, anet = network c\<rparr>"
  "cli (set_adm a st) = (cli st)\<lparr>network := anet a\<rparr>"
  "b_out (set_adm a st) = b_out st" "b_out (set_cli c st) = b_out st"
  "b_net (set_adm a st) = anet a" "b_net (set_cli c st) = network c"
  "b_admins (set_cli c st) = b_admins st" "b_admins (set_adm a st) = admins a"
  "b_clients (set_cli c st) = clients c" "b_rhs (set_cli c st) = rhs c" "b_warnings (set_cli c st) = warnings c"
  "b_json (set_adm a st) = b_json st" "b_json (set_cli c st) = b_json st"
  "b_clients (set_adm a st) = b_clients st" "b_rhs (set_adm a st) = b_rhs st" "b_warnings (set_adm a st) = b_warnings st"
  by (simp_all add: adm_def cli_def set_adm_def set_cli_def)

lemma views_out [simp]:
  "adm (st\<lparr>b_out := x\<rparr>) = adm st" "cli (st\<lparr>b_out := x\<rparr>) = cli st"
  "cli (st\<lparr>b_net := n\<rparr>) = (cli st)\<lparr>network := n\<rparr>"
  "adm (st\<lparr>b_json := j\<rparr>) = adm st" "cli (st\<lparr>b_json := j\<rparr>) = cli st"
  "admins (adm st) = b_admins st" "anet (adm st) = b_net st"
  "clients (cli st) = b_clients st" "rhs (cli st) = b_rhs st" "network (cli st) = b_net st"
  "warnings (cli st) = b_warnings st"
  by (simp_all add: adm_def cli_def)

lemma set_views [simp]:
  "set_cli c (st\<lparr>b_net := n\<rparr>) = set_cli c st" "set_cli c (st\<lparr>b_out := x\<rparr>) = (set_cli c st)\<lparr>b_out := x\<rparr>"
  "(cli st)\<lparr>network := b_net st\<rparr> = cli st"
  by (simp_all add: cli_def set_cli_def)

lemma network_same [simp]: "c\<lparr>network := network c\<rparr> = c" "st\<lparr>b_net := b_net st\<rparr> = st"
  by simp_all

section \<open>A run alone\<close>

text \<open>
  MPI in a job of one process: a barrier and a broadcast to nobody change nothing.
\<close>

definition alone :: "'n bench_lib \<Rightarrow> bool" where
  "alone L \<longleftrightarrow> (\<forall>n. MPI_Barrier L n = n) \<and> (\<forall>i n. MPI_Bcast L i n = (i, n))"

text \<open>
  Who has to release a JSON object: \<open>own\<close> are the objects of which the program holds the
  reference.  Parsing and making a number give it a new one; adding an object to another one
  hands it over; an object the program holds can be released.
\<close>

definition json_owns :: "('j \<Rightarrow> ptr set) \<Rightarrow> 'j json \<Rightarrow> bool" where
  "json_owns own J \<longleftrightarrow>
     (\<forall>s j p j'. json_tokener_parse J s j = (p, j') \<longrightarrow>
        (if p \<noteq> NULL then p \<notin> own j \<and> own j' = insert p (own j) else own j' = own j))
   \<and> (\<forall>v j p j'. json_object_new_int J v j = (p, j') \<longrightarrow>
        (if p \<noteq> NULL then p \<notin> own j \<and> own j' = insert p (own j) else own j' = own j))
   \<and> (\<forall>c k x j. own (json_object_object_add J c k x j) = own j - (if x \<noteq> NULL then {x} else {}))
   \<and> (\<forall>c k j. own (json_object_object_del J c k j) = own j)
   \<and> (\<forall>p j. p \<in> own j \<longrightarrow> (\<exists>j'. json_object_release J p j = Some j' \<and> own j' = own j - {p}))"

lemma json_ownsD:
  assumes "json_owns own J"
  shows "json_tokener_parse J s j = (p, j') \<Longrightarrow>
      if p \<noteq> NULL then p \<notin> own j \<and> own j' = insert p (own j) else own j' = own j"
    and "json_object_new_int J v j = (p, j') \<Longrightarrow>
      if p \<noteq> NULL then p \<notin> own j \<and> own j' = insert p (own j) else own j' = own j"
    and "own (json_object_object_add J c k x j) = own j - (if x \<noteq> NULL then {x} else {})"
    and "own (json_object_object_del J c k j) = own j"
    and "p \<in> own j \<Longrightarrow> \<exists>j'. json_object_release J p j = Some j' \<and> own j' = own j - {p}"
proof -
  note O1 = assms [unfolded json_owns_def]
  show "json_tokener_parse J s j = (p, j') \<Longrightarrow>
      if p \<noteq> NULL then p \<notin> own j \<and> own j' = insert p (own j) else own j' = own j"
    by (rule O1 [THEN conjunct1, rule_format])
  note O2 = O1 [THEN conjunct2]
  show "json_object_new_int J v j = (p, j') \<Longrightarrow>
      if p \<noteq> NULL then p \<notin> own j \<and> own j' = insert p (own j) else own j' = own j"
    by (rule O2 [THEN conjunct1, rule_format])
  note O3 = O2 [THEN conjunct2]
  show "own (json_object_object_add J c k x j) = own j - (if x \<noteq> NULL then {x} else {})"
    by (rule O3 [THEN conjunct1, rule_format])
  note O4 = O3 [THEN conjunct2]
  show "own (json_object_object_del J c k j) = own j" by (rule O4 [THEN conjunct1, rule_format])
  show "p \<in> own j \<Longrightarrow> \<exists>j'. json_object_release J p j = Some j' \<and> own j' = own j - {p}"
    by (rule O4 [THEN conjunct2, rule_format])
qed

text \<open>The dump adds what it has parsed to the configuration, or has got nothing.\<close>

lemma dump_json_owned:
  assumes O: "json_owns own J"
  shows "\<exists>r l j. dump_json L J m cfg st = (r, say [l] (st\<lparr>b_json := j\<rparr>)) \<and> (\<forall>n. l \<noteq> Mismatches n)
    \<and> own j = own (b_json st)"
proof -
  obtain p j where r: "json_tokener_parse J (margo_get_config L m (b_net st)) (b_json st) = (p, j)" by fastforce
  note p = json_ownsD(1) [OF O r]
  show ?thesis
  proof (cases "p = NULL")
    case True
    then show ?thesis using r p
      by (intro exI [of _ "- 1"] exI [of _ Parse_error] exI [of _ j]) (simp add: dump_json_def)
  next
    case False
    let ?j = "json_object_object_add J cfg ''margo'' p (json_object_object_del J cfg ''margo'' j)"
    have "own ?j = own (b_json st)"
      using p False json_ownsD(3) [OF O, of cfg "''margo''" p] json_ownsD(4) [OF O] by auto
    moreover from False obtain c where "p = Some c" by blast
    ultimately show ?thesis using r
      by (intro exI [of _ 0] exI [of _ "Config (json_object_to_string J cfg ?j)"] exI [of _ ?j])
        (simp add: dump_json_def Let_def)
  qed
qed

lemma bench_report_alone:
  assumes q: "alone L" and O: "json_owns own J" and items: "0 \<le> sint items" "sint items + 100 < 2 ^ 31"
    and v: "bench_verify (loopback E) (le_procs E) scr (Some h) (nat (sint items)) 0 (- 9999) 0 (cli st) = Some (0, c)"
  shows "\<exists>l st'. bench_report (loopback E) L J (le_procs E) scr 1 0 items m (Some h) cfg st = Some st'
    \<and> cli st' = c \<and> b_admins st' = b_admins st \<and> b_out st' = b_out st @ [Updates 1 items, l]
    \<and> (\<forall>n. l \<noteq> Mismatches n) \<and> own (b_json st') = own (b_json st)"
proof -
  let ?q = "say [Updates 1 items] st"
  obtain k l j where d: "dump_json L J m cfg (set_cli c ?q) = (k, say [l] ((set_cli c ?q)\<lparr>b_json := j\<rparr>))"
    "\<forall>n. l \<noteq> Mismatches n" "own j = own (b_json st)"
    using dump_json_owned [OF O, of L m cfg "set_cli c ?q"] by auto
  have b: "MPI_Barrier L n = n" for n using q by (simp add: alone_def)
  have "bench_report (loopback E) L J (le_procs E) scr 1 0 items m (Some h) cfg st
      = Some (say [l] ((set_cli c ?q)\<lparr>b_json := j\<rparr>))"
    using items v d(1) b by (simp add: bench_report_def c_mult_def)
  with d(2,3) show ?thesis by (intro exI [of _ l] exI [of _ "say [l] ((set_cli c ?q)\<lparr>b_json := j\<rparr>)"]) simp
qed

text \<open>The cache a creation has made: a hoard of its own that reads as zeros.\<close>

lemma created_holds:
  assumes sv: "dummy_server e jl ml D sv ys C" "cache_map sv ys k = Some (D, c)"
    and w0: "dummy_ok e jl ml w0" "dummy_create_cache e p cfg c0 w0 = Some (CACHERCISE_SUCCESS, c, world sv)"
    and g: "\<forall>i. grants (hoards (world sv)) i" and n: "lp_server (network st) = sv"
  shows "holds e jl ml D ys C k c st (\<lambda>_. 0) 0"
  using assms dummy_create_contents(2) [OF w0 refl]
  by (auto simp: holds_def Let_def abs_contents_def split: if_splits)

lemma bench_session_ok:
  fixes st :: "('j, 'l dworld loop) bench"
  assumes P: "procs_ok (le_procs E)" and q: "alone L" and O: "json_owns own J"
    and it: "items = json_object_get_int J (json_object_object_get J cfg ''items_per_process'' (b_json st)) (b_json st)"
    and items: "0 \<le> sint items" "sint items + 100 < 2 ^ 31"
    and ok: "clients_ok (cli st)" "heap_wf (b_admins st)"
    and g: "grants (b_clients st) (brk (b_clients st))" "grants (b_rhs st) (brk (b_rhs st))"
      "grants (b_admins st) (brk (b_admins st))"
    and r: "routed E (b_net st) 1 (le_id E ''cachercise_create_cache'') H_create False"
      "routed E (b_net st) 1 (le_id E ''cachercise_io'') H_io False"
    and sv: "dummy_server e jl ml D (lp_server (b_net st)) xs C" and D: "D \<noteq> NULL"
    and tok: "check_token (prov (lp_server (b_net st))) None = Some True"
    and be: "backend_named (lp_server (b_net st)) ''dummy'' = D"
    and room: "table_room (lp_server (b_net st))" "dummy_room (world (lp_server (b_net st)))"
    and new: "cache_map (lp_server (b_net st)) xs (next_uuid (b_net st)) = None"
    and cr: "dummy_create_cache e (self (lp_server (b_net st))) (Some ''{}'') NULL (world (lp_server (b_net st)))
        = Some (CACHERCISE_SUCCESS, c, w)" "\<forall>i. grants (hoards w) i"
  shows "\<exists>st' l ys C'. bench_session (loopback E) L J (le_procs E) scr id0 1 0 m (Some a) cfg st = Some (Some ok_code, st')
    \<and> b_out st' = b_out st @ [Updates 1 items, l] \<and> (\<forall>n. l \<noteq> Mismatches n)
    \<and> cells (b_admins st') = cells (b_admins st) \<and> cells (b_clients st') = cells (b_clients st)
    \<and> cells (b_rhs st') = cells (b_rhs st) \<and> b_warnings st' = b_warnings st
    \<and> own (b_json st') = own (b_json st)
    \<and> dummy_server e jl ml D (lp_server (b_net st')) ys C'
    \<and> cache_map (lp_server (b_net st')) ys (next_uuid (b_net st)) = Some (D, c)
    \<and> (\<forall>j < nat (sint items). cache_data (world (lp_server (b_net st'))) c j = of_nat (j + 100))"
proof -
  let ?sv = "lp_server (b_net st)" and ?u = "next_uuid (b_net st)" and ?n = "nat (sint items)"
  let ?ad = "brk (b_admins st)" and ?c = "brk (b_clients st)" and ?h = "brk (b_rhs st)"
  obtain st1 ns where s1: "cachercise_admin_init (loopback E) m (adm st) = Some (ok_code, Some ?ad, st1)"
    "cells (admins st1) = (cells (b_admins st))(?ad \<mapsto>
        \<lparr>ad_mid = m, ad_create_cache_id = le_id E ''cachercise_create_cache'',
         ad_open_cache_id = le_id E ''cachercise_open_cache'', ad_close_cache_id = le_id E ''cachercise_close_cache'',
         ad_destroy_cache_id = le_id E ''cachercise_destroy_cache'', ad_list_caches_id = le_id E ''cachercise_list_caches''\<rparr>)"
    "anet st1 = named (b_net st) ns"
    using admin_init_loop [of "adm st" E m] g(3) by auto
  have ad: "h_load (Some ?ad) (admins st1) = Some
      \<lparr>ad_mid = m, ad_create_cache_id = le_id E ''cachercise_create_cache'',
         ad_open_cache_id = le_id E ''cachercise_open_cache'', ad_close_cache_id = le_id E ''cachercise_close_cache'',
         ad_destroy_cache_id = le_id E ''cachercise_destroy_cache'', ad_list_caches_id = le_id E ''cachercise_list_caches''\<rparr>"
    by (simp add: s1(2))
  have nu: "next_uuid (named (b_net st) ns) = ?u" by (simp add: next_uuid_def)
  obtain sv' ys where s2: "cachercise_create_cache (loopback E) (le_procs E) (Some ?ad) (Some a) 1 None (Some ''dummy'') (Some ''{}'') st1
      = Some (ok_code, Some ?u, st1\<lparr>anet := loop_after (anet st1) sv'\<rparr>)"
    "dummy_server e jl ml D sv' ys (insert (D, c) C)" "world sv' = w"
    "cache_list sv' ys = cache_list ?sv xs @ [(?u, (D, c))]" "self sv' = self ?sv"
    using admin_create_run [OF P ad, of 1 e jl ml D xs C None "''dummy''" "Some ''{}''" c w "Some a", unfolded s1(3)]
      r(1) sv D tok be room new cr(1) nu s1(3) by auto
  let ?st2 = "set_adm (st1\<lparr>anet := loop_after (anet st1) sv'\<rparr>) (set_adm st1 st)"
  have c2: "cli ?st2 = (cli st)\<lparr>network := loop_after (named (b_net st) ns) sv'\<rparr>" by (simp add: s1(3))
  obtain c3 c4 ns4 where s4: "cachercise_client_init (loopback E) m (cli ?st2) = Some (ok_code, Some ?c, c3)"
    "cachercise_cache_handle_create (loopback E) (Some ?c) (Some a) 1 ?u c3 = Some (ok_code, Some ?h, c4)"
    "opened E m 1 ?u a (cli ?st2) c4" "network c4 = named (network (cli ?st2)) ns4"
    using client_open [OF clients_ok_network [OF ok(1)], of "loop_after (named (b_net st) ns) sv'" E m a 1 ?u] g(1,2)
    unfolding c2 by auto
  let ?sched = "map (Pair 0) [0..<?n]"
  have n4: "network c4 = named (loop_after (named (b_net st) ns) sv') ns4" using s4(4) unfolding c2 by simp
  have h: "brk (rhs (cli ?st2)) = ?h" "brk (clients (cli ?st2)) = ?c" unfolding c2 by simp_all
  have "routed E (network c4) 1 (le_id E ''cachercise_io'') H_io False"
    unfolding n4 using r(2) s2(5) by (simp add: routed_after(1))
  then have con: "connected E c4 (Some ?h) ?u"
    using opened_handle [OF s4(3)] unfolding connected_def h by metis
  have map: "cache_map sv' ys ?u = Some (D, c)"
    using new s2(4) by (simp add: cache_map_def map_add_def)
  have hol: "holds e jl ml D ys (insert (D, c) C) ?u c c4 (\<lambda>_. 0) 0"
    by (rule created_holds [OF s2(2) map dummy_serverD(2) [OF sv]])
      (use cr s2(3) in \<open>simp_all add: n4 loop_after_def\<close>)
  have sched: "item_pos 1 ` set ?sched = {0..<?n}" "\<forall>x \<in> set ?sched. item_pos 1 x + 100 < 2 ^ 31"
    using items by (auto simp: item_pos_def image_image)
  obtain c5 data sz where s5: "bench_writes (loopback E) (le_procs E) scr (\<lambda>r. Some ?h) 1 ?sched c4 = Some c5"
    "connected E c5 (Some ?h) ?u" "holds e jl ml D ys (insert (D, c) C) ?u c c5 data sz"
    "\<forall>j < ?n. data j = of_nat (j + 100)" "\<forall>j < ?n. j < sz"
    using bench_writes_ok [where p = 1 and sched = ?sched and hr = "\<lambda>r. Some ?h" and scr = scr,
        OF P _ con hol sched(2), unfolded sched(1)] con by auto
  have "?n < 2 ^ 64" using items by (simp add: nat_less_iff)
  moreover have "?n \<le> sz" using s5(5) by (cases ?n) auto
  ultimately obtain c6 where s6: "bench_verify (loopback E) (le_procs E) scr (Some ?h) ?n 0 (- 9999) 0 c5 = Some (0, c6)"
    "holds e jl ml D ys (insert (D, c) C) ?u c c6 data sz"
    using bench_verify_ok [OF P s5(2,3), of 0 ?n scr "- 9999"] s5(4) by auto
  have o6: "opened E m 1 ?u a (cli ?st2) c6"
    by (rule opened_only_net [OF opened_only_net [OF s4(3)]])
      (rule bench_writes_only_net [OF s5(1)], rule bench_verify_only_net [OF s6(1)])
  have "clients_ok (cli ?st2)" unfolding c2 by (rule clients_ok_network [OF ok(1)])
  from client_close [OF o6 this] obtain c7 c8 where s8:
    "cachercise_cache_handle_release (loopback E) (Some ?h) c6 = Some (ok_code, c7)"
    "cachercise_client_finalize (Some ?c) c7 = Some (ok_code, c8)"
    "cells (clients c8) = cells (b_clients st)" "cells (rhs c8) = cells (b_rhs st)" "warnings c8 = b_warnings st"
    "network c8 = network c6"
    unfolding h c2 by auto
  let ?st5 = "set_cli c5 (set_cli c4 (set_cli c3 ?st2))"
  obtain l st6 where s6': "bench_report (loopback E) L J (le_procs E) scr 1 0 items m (Some ?h) cfg ?st5 = Some st6"
    "cli st6 = c6" "b_admins st6 = b_admins ?st2" "b_out st6 = b_out st @ [Updates 1 items, l]"
    "\<forall>n. l \<noteq> Mismatches n" "own (b_json st6) = own (b_json st)"
    using bench_report_alone [OF q O items, of E scr ?h ?st5 c6 m cfg] s6(1) by auto
  let ?st8 = "set_cli c8 (set_cli c7 st6)"
  let ?a9 = "\<lparr>admins = (b_admins ?st2)\<lparr>cells := cells (b_admins st)\<rparr>, anet = network c8\<rparr>"
  have "(cells (b_admins st))(?ad := None) = cells (b_admins st)"
    by (rule fun_upd_idem) (rule heap_wf_fresh [OF ok(2)])
  then have s9: "cachercise_admin_finalize (Some ?ad) (adm ?st8) = Some (ok_code, ?a9)"
    by (simp add: cachercise_admin_finalize_def s6'(3) s1(2))
  have get: "MPI_Bcast L i n = (i, n)" for i n using q by (simp add: alone_def)
  have same: "st\<lparr>b_net := n\<rparr> = st" if "b_net st = n" for st :: "('j, 'l dworld loop) bench" and n
    using that by auto
  have run: "bench_session (loopback E) L J (le_procs E) scr id0 1 0 m (Some a) cfg st
      = Some (Some ok_code, set_adm ?a9 ?st8)"
    using s1(1) s2(1) s4(1,2) s5(1) s6'(1,2) s8(1,2) s9
    by (simp add: bench_session_def bench_create_def get same it [symmetric])
  have fin: "lp_server (network c8) = lp_server (network c6)" by (simp add: s8(6))
  have "dummy_server e jl ml D (lp_server (network c8)) ys (insert (D, c) C)"
    "cache_map (lp_server (network c8)) ys ?u = Some (D, c)"
    "\<forall>j < ?n. cache_data (world (lp_server (network c8))) c j = of_nat (j + 100)"
    using s6(2) s5(4) unfolding fin by (simp_all add: holds_def Let_def)
  with run s6'(4-6) s8(3-5) show ?thesis
    by (intro exI [of _ "set_adm ?a9 ?st8"] exI [of _ l] exI [of _ ys] exI [of _ "insert (D, c) C"])
      (simp del: One_nat_def)
qed

text \<open>
  What \<open>main\<close> does before that, if all of it succeeds: \<open>st0\<close> is the state in which the
  session starts, with the margo instance \<open>m\<close>, the address \<open>a\<close> of the server and the
  configuration \<open>cfg\<close>.
\<close>

definition set_up ::
  "'n margo_app \<Rightarrow> 'n bench_lib \<Rightarrow> 'j json \<Rightarrow> string list \<Rightarrow> ('j, 'n) bench \<Rightarrow> ptr \<Rightarrow> ptr \<Rightarrow> ptr \<Rightarrow> ('j, 'n) bench \<Rightarrow> bool" where
  "set_up A L J argv st m a cfg st0 \<longleftrightarrow>
     (\<exists>opts st1 ret proto n1 n2 n3.
        parse_args L J argv (at_net (MPI_Init L) st) = Some (0, opts, Some cfg, st1)
      \<and> ssg_get_group_transport_from_file L (group_file opts) (b_net st1) = (ret, proto, n1)
      \<and> margo_init_ext L proto
          (if json_object_object_get J cfg ''margo'' (b_json st1) \<noteq> NULL
           then Some (json_object_to_string J (json_object_object_get J cfg ''margo'' (b_json st1)) (b_json st1))
           else None) n1 = (m, n2)
      \<and> m \<noteq> NULL \<and> ssg_init L n2 = (0, n3)
      \<and> find_server A L (group_file opts) (MPI_Comm_rank L (MPI_Init L (b_net st))) m (st1\<lparr>b_net := n3\<rparr>) = (0, a, st0))"

lemma cachebench_main_set_up:
  assumes "set_up A L J argv st m a cfg st0"
    and "bench_session N L J P scr id0 (MPI_Comm_size L (MPI_Init L (b_net st))) (MPI_Comm_rank L (MPI_Init L (b_net st)))
      m a cfg st0 = Some (Some ret, st')"
  shows "cachebench_main N A L J P scr id0 argv st = err_ssg_cleanup N A L J m a (Some cfg) ret st'"
proof -
  obtain opts st1 r proto n1 n2 n3 where
    "parse_args L J argv (at_net (MPI_Init L) st) = Some (0, opts, Some cfg, st1)"
    "ssg_get_group_transport_from_file L (group_file opts) (b_net st1) = (r, proto, n1)"
    "margo_init_ext L proto
          (if json_object_object_get J cfg ''margo'' (b_json st1) \<noteq> NULL
           then Some (json_object_to_string J (json_object_object_get J cfg ''margo'' (b_json st1)) (b_json st1))
           else None) n1 = (m, n2)"
    "m \<noteq> NULL" "ssg_init L n2 = (0, n3)"
    "find_server A L (group_file opts) (MPI_Comm_rank L (MPI_Init L (b_net st))) m (st1\<lparr>b_net := n3\<rparr>) = (0, a, st0)"
    using assms(1) unfolding set_up_def by (elim exE conjE) (rule that)
  with assms(2) show ?thesis
    by (cases m; cases "json_object_object_get J cfg ''margo'' (b_json st1)") (simp_all add: cachebench_main_def Let_def)
qed

lemma cachebench_main_ok:
  fixes st :: "('j, 'l dworld loop) bench"
  assumes P: "procs_ok (le_procs E)" and up: "set_up A L J argv st m (Some a) cfg st0"
    and one: "MPI_Comm_size L (MPI_Init L (b_net st)) = 1" "MPI_Comm_rank L (MPI_Init L (b_net st)) = 0"
    and q: "alone L" and O: "json_owns own J" and cf: "cfg \<in> own (b_json st0)" "cfg \<noteq> NULL"
    and it: "items = json_object_get_int J (json_object_object_get J cfg ''items_per_process'' (b_json st0)) (b_json st0)"
    and items: "0 \<le> sint items" "sint items + 100 < 2 ^ 31"
    and ok: "clients_ok (cli st0)" "heap_wf (b_admins st0)"
    and g: "grants (b_clients st0) (brk (b_clients st0))" "grants (b_rhs st0) (brk (b_rhs st0))"
      "grants (b_admins st0) (brk (b_admins st0))"
    and r: "routed E (b_net st0) 1 (le_id E ''cachercise_create_cache'') H_create False"
      "routed E (b_net st0) 1 (le_id E ''cachercise_io'') H_io False"
    and sv: "dummy_server e jl ml D (lp_server (b_net st0)) xs C" and D: "D \<noteq> NULL"
    and tok: "check_token (prov (lp_server (b_net st0))) None = Some True"
    and be: "backend_named (lp_server (b_net st0)) ''dummy'' = D"
    and room: "table_room (lp_server (b_net st0))" "dummy_room (world (lp_server (b_net st0)))"
    and new: "cache_map (lp_server (b_net st0)) xs (next_uuid (b_net st0)) = None"
    and cr: "dummy_create_cache e (self (lp_server (b_net st0))) (Some ''{}'') NULL (world (lp_server (b_net st0)))
        = Some (CACHERCISE_SUCCESS, c, w)" "\<forall>i. grants (hoards w) i"
  shows "\<exists>st' l n ys C'. cachebench_main (loopback E) A L J (le_procs E) scr id0 argv st = Some (Exited 0, st')
    \<and> b_out st' = b_out st0 @ [Updates 1 items, l] \<and> (\<forall>k. l \<noteq> Mismatches k)
    \<and> cells (b_admins st') = cells (b_admins st0) \<and> cells (b_clients st') = cells (b_clients st0)
    \<and> cells (b_rhs st') = cells (b_rhs st0) \<and> b_warnings st' = b_warnings st0
    \<and> own (b_json st') = own (b_json st0) - {cfg}
    \<and> b_net st' = MPI_Finalize L (margo_finalize A m (ssg_finalize L n))
    \<and> dummy_server e jl ml D (lp_server n) ys C'
    \<and> cache_map (lp_server n) ys (next_uuid (b_net st0)) = Some (D, c)
    \<and> (\<forall>j < nat (sint items). cache_data (world (lp_server n)) c j = of_nat (j + 100))"
proof -
  obtain st1 l ys C' where s: "bench_session (loopback E) L J (le_procs E) scr id0 1 0 m (Some a) cfg st0 = Some (Some ok_code, st1)"
    "b_out st1 = b_out st0 @ [Updates 1 items, l] \<and> (\<forall>n. l \<noteq> Mismatches n)
    \<and> cells (b_admins st1) = cells (b_admins st0) \<and> cells (b_clients st1) = cells (b_clients st0)
    \<and> cells (b_rhs st1) = cells (b_rhs st0) \<and> b_warnings st1 = b_warnings st0
    \<and> own (b_json st1) = own (b_json st0)
    \<and> dummy_server e jl ml D (lp_server (b_net st1)) ys C'
    \<and> cache_map (lp_server (b_net st1)) ys (next_uuid (b_net st0)) = Some (D, c)
    \<and> (\<forall>j < nat (sint items). cache_data (world (lp_server (b_net st1))) c j = of_nat (j + 100))"
    using bench_session_ok [OF P q O it items ok g r sv D tok be room new cr, of scr id0 m a] by blast
  have "cfg \<in> own (b_json st1)" using s(2) cf by simp
  from json_ownsD(5) [OF O this] obtain j where j: "json_object_release J cfg (b_json st1) = Some j"
    "own j = own (b_json st1) - {cfg}" by blast
  let ?st = "st1\<lparr>b_json := j, b_net := MPI_Finalize L (margo_finalize A m (ssg_finalize L (b_net st1)))\<rparr>"
  have "cachebench_main (loopback E) A L J (le_procs E) scr id0 argv st = Some (Exited 0, ?st)"
    using cachebench_main_set_up [OF up, unfolded one, OF s(1)] j(1) cf(2)
    by (simp add: err_ssg_cleanup_def err_margo_cleanup_def err_mpi_cleanup_def loopback_addr_free Let_def)
  with s(2) j(2) show ?thesis
    by (intro exI [of _ ?st] exI [of _ l] exI [of _ "b_net st1"] exI [of _ ys] exI [of _ C']) simp
qed

section \<open>Arguments and configuration\<close>

text \<open>
  Without the option \<open>-j\<close> nothing is stored to \<open>json_cfg\<close>, and the first use of it is
  undefined.
\<close>

lemma no_config_undefined:
  assumes "parse_opts (getopt L argv) \<lparr>group_file = [], json_file = []\<rparr> = Some (Some o1)" and "json_file o1 = []"
  shows "cachebench_main N A L J P scr id0 argv st = None"
  using assms by (simp add: cachebench_main_def parse_args_def Let_def split: prod.split)

text \<open>
  What is used of json-c: a stored field is found and leaves the others alone, a new number is
  an object of type \<open>int\<close> with its value, and a number that stays in the object stays what it
  is.
\<close>

definition json_ok :: "'j json \<Rightarrow> bool" where
  "json_ok J \<longleftrightarrow>
     (\<forall>a k x k' n. json_object_object_get J (Some a) k' (json_object_object_add J (Some a) k x n)
        = (if k' = k then x else json_object_object_get J (Some a) k' n))
     \<and> (\<forall>a k x p n. p = x \<or> (\<exists>k'. k' \<noteq> k \<and> json_object_object_get J (Some a) k' n = p) \<longrightarrow>
          json_object_is_int J p (json_object_object_add J (Some a) k x n) = json_object_is_int J p n
          \<and> json_object_get_int J p (json_object_object_add J (Some a) k x n) = json_object_get_int J p n)
     \<and> (\<forall>v n p n'. json_object_new_int J (scast v) n = (p, n') \<longrightarrow>
          p \<noteq> NULL \<and> json_object_is_int J p n' \<and> json_object_get_int J p n' = v
          \<and> (\<forall>c k. json_object_object_get J c k n' = json_object_object_get J c k n)
          \<and> (\<forall>q. json_object_is_int J q n \<longrightarrow> json_object_is_int J q n' \<and> json_object_get_int J q n' = json_object_get_int J q n))"

lemma json_okD:
  assumes "json_ok J"
  shows "json_object_object_get J (Some a) k' (json_object_object_add J (Some a) k x n)
        = (if k' = k then x else json_object_object_get J (Some a) k' n)"
    and "p = x \<or> (\<exists>k'. k' \<noteq> k \<and> json_object_object_get J (Some a) k' n = p)
      \<Longrightarrow> json_object_is_int J p (json_object_object_add J (Some a) k x n) = json_object_is_int J p n"
    and "p = x \<or> (\<exists>k'. k' \<noteq> k \<and> json_object_object_get J (Some a) k' n = p)
      \<Longrightarrow> json_object_get_int J p (json_object_object_add J (Some a) k x n) = json_object_get_int J p n"
    and "json_object_new_int J (scast v) n = (p, n') \<Longrightarrow> p \<noteq> NULL"
    and "json_object_new_int J (scast v) n = (p, n') \<Longrightarrow> json_object_is_int J p n'"
    and "json_object_new_int J (scast v) n = (p, n') \<Longrightarrow> json_object_get_int J p n' = v"
    and "json_object_new_int J (scast v) n = (p, n')
      \<Longrightarrow> json_object_object_get J c k n' = json_object_object_get J c k n"
    and "json_object_new_int J (scast v) n = (p, n') \<Longrightarrow> json_object_is_int J q n
      \<Longrightarrow> json_object_is_int J q n' \<and> json_object_get_int J q n' = json_object_get_int J q n"
proof -
  note c = assms [unfolded json_ok_def]
  note kept = c [THEN conjunct2, THEN conjunct1, THEN spec [of _ a], THEN spec [of _ k], THEN spec [of _ x],
      THEN spec [of _ p], THEN spec [of _ n], THEN mp]
  note new = c [THEN conjunct2, THEN conjunct2, THEN spec [of _ v], THEN spec [of _ n], THEN spec [of _ p],
      THEN spec [of _ n'], THEN mp]
  show "json_object_object_get J (Some a) k' (json_object_object_add J (Some a) k x n)
        = (if k' = k then x else json_object_object_get J (Some a) k' n)"
    using c [THEN conjunct1] by blast
  show "p = x \<or> (\<exists>k'. k' \<noteq> k \<and> json_object_object_get J (Some a) k' n = p)
      \<Longrightarrow> json_object_is_int J p (json_object_object_add J (Some a) k x n) = json_object_is_int J p n"
    "p = x \<or> (\<exists>k'. k' \<noteq> k \<and> json_object_object_get J (Some a) k' n = p)
      \<Longrightarrow> json_object_get_int J p (json_object_object_add J (Some a) k x n) = json_object_get_int J p n"
    by (drule kept, simp)+
  show "json_object_new_int J (scast v) n = (p, n') \<Longrightarrow> p \<noteq> NULL"
    "json_object_new_int J (scast v) n = (p, n') \<Longrightarrow> json_object_is_int J p n'"
    "json_object_new_int J (scast v) n = (p, n') \<Longrightarrow> json_object_get_int J p n' = v"
    "json_object_new_int J (scast v) n = (p, n')
      \<Longrightarrow> json_object_object_get J c k n' = json_object_object_get J c k n"
    "json_object_new_int J (scast v) n = (p, n') \<Longrightarrow> json_object_is_int J q n
      \<Longrightarrow> json_object_is_int J q n' \<and> json_object_get_int J q n' = json_object_get_int J q n" for c
    by (drule new, simp)+
qed

text \<open>The value of a field of type \<open>int\<close>.\<close>

definition int_field :: "'j json \<Rightarrow> ptr \<Rightarrow> string \<Rightarrow> 'j \<Rightarrow> i32 option" where
  "int_field J cfg k n =
     (let p = json_object_object_get J cfg k n in
      if p \<noteq> NULL \<and> json_object_is_int J p n then Some (json_object_get_int J p n) else None)"

lemma stored_int:
  assumes J: "json_ok J" and n: "json_object_new_int J (scast v) n = (p, n1)"
  shows "int_field J (Some a) k (json_object_object_add J (Some a) k p n1) = Some v"
    and "k' \<noteq> k \<Longrightarrow> int_field J (Some a) k' n = Some x
      \<Longrightarrow> int_field J (Some a) k' (json_object_object_add J (Some a) k p n1) = Some x"
    and "k' \<noteq> k \<Longrightarrow> json_object_object_get J (Some a) k' (json_object_object_add J (Some a) k p n1)
      = json_object_object_get J (Some a) k' n"
proof -
  note D = json_okD [OF J]
  have new: "p \<noteq> NULL" "json_object_is_int J p n1" "json_object_get_int J p n1 = v" using D(4-6) n by blast+
  then show "int_field J (Some a) k (json_object_object_add J (Some a) k p n1) = Some v"
    by (simp add: int_field_def D(1-3))
  show "json_object_object_get J (Some a) k' (json_object_object_add J (Some a) k p n1)
      = json_object_object_get J (Some a) k' n" if "k' \<noteq> k"
    using that D(7) [OF n] by (simp add: D(1))
  show "int_field J (Some a) k' (json_object_object_add J (Some a) k p n1) = Some x"
    if "k' \<noteq> k" "int_field J (Some a) k' n = Some x"
  proof -
    let ?q = "json_object_object_get J (Some a) k' n"
    have q: "?q \<noteq> NULL" "json_object_is_int J ?q n" "json_object_get_int J ?q n = x"
      using that(2) by (auto simp: int_field_def Let_def split: if_splits)
    have "json_object_object_get J (Some a) k' n1 = ?q" by (rule D(7) [OF n])
    then have r: "?q = p \<or> (\<exists>k'. k' \<noteq> k \<and> json_object_object_get J (Some a) k' n1 = ?q)" using that(1) by blast
    have "json_object_object_get J (Some a) k' (json_object_object_add J (Some a) k p n1) = ?q"
      using that(1) D(7) [OF n] by (simp add: D(1))
    then show ?thesis using q D(2) [OF r] D(3) [OF r] D(8) [OF n q(2)] by (simp add: int_field_def)
  qed
qed

lemma override_typed:
  assumes J: "json_ok J" and r: "CONFIG_OVERRIDE_INTEGER J (Some a) k v wn st = st'"
  shows "int_field J (Some a) k (b_json st') = Some v"
    and "k' \<noteq> k \<Longrightarrow> int_field J (Some a) k' (b_json st) = Some x \<Longrightarrow> int_field J (Some a) k' (b_json st') = Some x"
    and "k' \<noteq> k \<Longrightarrow> json_object_object_get J (Some a) k' (b_json st') = json_object_object_get J (Some a) k' (b_json st)"
proof -
  obtain p n1 where n: "json_object_new_int J (scast v) (b_json st) = (p, n1)" by fastforce
  have "b_json st' = json_object_object_add J (Some a) k p n1"
    using r n by (auto simp: CONFIG_OVERRIDE_INTEGER_def Let_def)
  with stored_int [OF J n] show "int_field J (Some a) k (b_json st') = Some v"
    "k' \<noteq> k \<Longrightarrow> int_field J (Some a) k' (b_json st) = Some x \<Longrightarrow> int_field J (Some a) k' (b_json st') = Some x"
    "k' \<noteq> k \<Longrightarrow> json_object_object_get J (Some a) k' (b_json st') = json_object_object_get J (Some a) k' (b_json st)"
    by simp_all
qed

lemma has_or_create_typed:
  assumes J: "json_ok J" and r: "CONFIG_HAS_OR_CREATE J (Some a) k v st = (Some p, st')"
  shows "int_field J (Some a) k (b_json st')
      = (if json_object_object_get J (Some a) k (b_json st) = NULL then Some v else int_field J (Some a) k (b_json st))"
    and "int_field J (Some a) k (b_json st') \<noteq> None"
    and "k' \<noteq> k \<Longrightarrow> int_field J (Some a) k' (b_json st) = Some x \<Longrightarrow> int_field J (Some a) k' (b_json st') = Some x"
proof -
  obtain q n1 where n: "json_object_new_int J (scast v) (b_json st) = (q, n1)" by fastforce
  note S = stored_int [OF J n]
  from r show "int_field J (Some a) k (b_json st')
      = (if json_object_object_get J (Some a) k (b_json st) = NULL then Some v else int_field J (Some a) k (b_json st))"
    "int_field J (Some a) k (b_json st') \<noteq> None"
    "k' \<noteq> k \<Longrightarrow> int_field J (Some a) k' (b_json st) = Some x \<Longrightarrow> int_field J (Some a) k' (b_json st') = Some x"
    using S by (auto simp: CONFIG_HAS_OR_CREATE_def Let_def n split: if_splits)
      (auto simp: int_field_def)
qed

lemma parse_json_typed:
  assumes J: "json_ok J" and r: "parse_json L J f st = (0, cfg, st')"
  shows "\<exists>a s n1. cfg = Some (Some a) \<and> file_contents L f = Some s
    \<and> json_tokener_parse J (takeWhile (\<lambda>c. c \<noteq> CHR 0x00) s) (b_json st) = (Some a, n1)
    \<and> int_field J (Some a) ''nranks'' (b_json st') = Some (of_nat (MPI_Comm_size L (b_net st)))
    \<and> (json_object_object_get J (Some a) ''items_per_process'' n1 = NULL
      \<longrightarrow> int_field J (Some a) ''items_per_process'' (b_json st') = Some 100)
    \<and> (\<forall>x. int_field J (Some a) ''items_per_process'' n1 = Some x
      \<longrightarrow> int_field J (Some a) ''items_per_process'' (b_json st') = Some x)
    \<and> int_field J (Some a) ''items_per_process'' (b_json st') \<noteq> None"
proof -
  obtain s where s: "file_contents L f = Some s" "malloc_ok L (length s + 1)"
    using r by (cases "file_contents L f") (auto simp: parse_json_def split: if_splits)
  obtain q n1 where q: "json_tokener_parse J (takeWhile (\<lambda>c. c \<noteq> CHR 0x00) s) (b_json st) = (q, n1)" by fastforce
  obtain a where a: "q = Some a" using r s q by (cases q) (auto simp: parse_json_def Let_def)
  define v :: i32 where "v = of_nat (MPI_Comm_size L (b_net st))"
  define st1 where "st1 = CONFIG_OVERRIDE_INTEGER J (Some a) ''nranks'' v True (st\<lparr>b_json := n1\<rparr>)"
  obtain p st2 where p: "CONFIG_HAS_OR_CREATE J (Some a) ''items_per_process'' 100 st1 = (p, st2)" by fastforce
  obtain x where x: "p = Some x" "cfg = Some (Some a)" "st2 = st'"
    using r s q a p by (cases p) (auto simp: parse_json_def Let_def st1_def v_def)
  note O = override_typed [OF J st1_def [symmetric]]
  note H = has_or_create_typed [OF J p [unfolded x]]
  have nr: "int_field J (Some a) ''nranks'' (b_json st') = Some v" by (rule H(3) [OF _ O(1)]) simp
  have g: "json_object_object_get J (Some a) ''items_per_process'' (b_json st1)
      = json_object_object_get J (Some a) ''items_per_process'' n1"
    using O(3) [of "''items_per_process''"] by simp
  have it: "json_object_object_get J (Some a) ''items_per_process'' n1 = NULL
      \<longrightarrow> int_field J (Some a) ''items_per_process'' (b_json st') = Some 100"
    using H(1) g by simp
  have keep: "int_field J (Some a) ''items_per_process'' (b_json st') = Some y"
    if "int_field J (Some a) ''items_per_process'' n1 = Some y" for y
  proof -
    have "json_object_object_get J (Some a) ''items_per_process'' n1 \<noteq> NULL"
      using that unfolding int_field_def Let_def by (metis option.distinct(1))
    then show ?thesis using H(1) g O(2) [of "''items_per_process''" y] that by (simp del: not_None_eq)
  qed
  show ?thesis using x(2) s(1) q nr H(2) it keep unfolding a v_def
    by (intro exI [of _ a] exI [of _ s] exI [of _ n1]) simp
qed

end
