(* ===== verification/Cleanup.thy ===== *)
theory Cleanup
  imports Cachebench
begin

text \<open>
  What a set-up of the benchmark that fails gives back.  A \<open>holding\<close> is something a process
  has of margo and SSG and has to give back; \<open>tracks held A L\<close>: each library function changes
  \<open>held\<close> by what it acquires and releases, and one that fails acquires nothing.  The JSON
  objects a process holds are those of \<open>json_owns\<close>.
\<close>

datatype holding = A_margo ptr | A_ssg

definition acquires :: "('n \<Rightarrow> holding set) \<Rightarrow> holding \<Rightarrow> 'n \<Rightarrow> 'n \<Rightarrow> bool" where
  "acquires held x n n' \<longleftrightarrow> x \<notin> held n \<and> held n' = insert x (held n)"

definition tracks :: "('n \<Rightarrow> holding set) \<Rightarrow> 'n margo_app \<Rightarrow> 'n bench_lib \<Rightarrow> bool" where
  "tracks held A L \<longleftrightarrow>
     (\<forall>n. held (MPI_Init L n) = held n \<and> held (MPI_Barrier L n) = held n \<and> held (MPI_Abort L n) = held n
        \<and> held (MPI_Finalize L n) = held n \<and> held (ssg_finalize L n) = held n - {A_ssg}
        \<and> (\<forall>m. held (margo_finalize A m n) = held n - {A_margo m}))
   \<and> (\<forall>f n r x n'. ssg_get_group_transport_from_file L f n = (r, x, n') \<longrightarrow> held n' = held n)
   \<and> (\<forall>f n r g n'. ssg_group_id_load L f n = (r, g, n') \<longrightarrow> held n' = held n)
   \<and> (\<forall>m g n r n'. ssg_group_refresh L m g n = (r, n') \<longrightarrow> held n' = held n)
   \<and> (\<forall>g i n r j n'. ssg_get_group_member_id_from_rank L g i n = (r, j, n') \<longrightarrow> held n' = held n)
   \<and> (\<forall>g i n r x n'. ssg_get_group_member_addr_str L g i n = (r, x, n') \<longrightarrow> held n' = held n)
   \<and> (\<forall>m s n r a n'. margo_addr_lookup A m s n = (r, a, n') \<longrightarrow> r \<noteq> 0 \<longrightarrow> held n' = held n)
   \<and> (\<forall>n r n'. ssg_init L n = (r, n') \<longrightarrow> (if r = 0 then acquires held A_ssg n n' else held n' = held n))
   \<and> (\<forall>p c n m n'. margo_init_ext L p c n = (m, n') \<longrightarrow>
        (if m \<noteq> NULL then acquires held (A_margo m) n n' else held n' = held n))"

lemma tracksD:
  assumes "tracks held A L"
  shows "held (MPI_Init L n) = held n" "held (MPI_Barrier L n) = held n" "held (MPI_Abort L n) = held n"
    "held (MPI_Finalize L n) = held n" "held (ssg_finalize L n) = held n - {A_ssg}"
    "held (margo_finalize A m n) = held n - {A_margo m}"
    and "ssg_get_group_transport_from_file L f n = (r, s, n') \<Longrightarrow> held n' = held n"
    and "ssg_group_id_load L f n = (r, g, n') \<Longrightarrow> held n' = held n"
    and "ssg_group_refresh L m g n = (r, n') \<Longrightarrow> held n' = held n"
    and "ssg_get_group_member_id_from_rank L g i n = (r, j, n') \<Longrightarrow> held n' = held n"
    and "ssg_get_group_member_addr_str L g i n = (r, s, n') \<Longrightarrow> held n' = held n"
    and "margo_addr_lookup A m s n = (r, a, n') \<Longrightarrow> r \<noteq> 0 \<Longrightarrow> held n' = held n"
    and "ssg_init L n = (r, n') \<Longrightarrow> if r = 0 then acquires held A_ssg n n' else held n' = held n"
    and "margo_init_ext L pr c n = (m, n') \<Longrightarrow> if m \<noteq> NULL then acquires held (A_margo m) n n' else held n' = held n"
proof -
  note T = assms [unfolded tracks_def]
  show "held (MPI_Init L n) = held n" "held (MPI_Barrier L n) = held n" "held (MPI_Abort L n) = held n"
    "held (MPI_Finalize L n) = held n" "held (ssg_finalize L n) = held n - {A_ssg}"
    "held (margo_finalize A m n) = held n - {A_margo m}"
    using T [THEN conjunct1] by simp_all
  note T1 = T [THEN conjunct2]
  show "ssg_get_group_transport_from_file L f n = (r, s, n') \<Longrightarrow> held n' = held n"
    by (rule T1 [THEN conjunct1, rule_format])
  note T2 = T1 [THEN conjunct2]
  show "ssg_group_id_load L f n = (r, g, n') \<Longrightarrow> held n' = held n"
    by (rule T2 [THEN conjunct1, rule_format])
  note T3 = T2 [THEN conjunct2]
  show "ssg_group_refresh L m g n = (r, n') \<Longrightarrow> held n' = held n"
    by (rule T3 [THEN conjunct1, rule_format])
  note T4 = T3 [THEN conjunct2]
  show "ssg_get_group_member_id_from_rank L g i n = (r, j, n') \<Longrightarrow> held n' = held n"
    by (rule T4 [THEN conjunct1, rule_format])
  note T5 = T4 [THEN conjunct2]
  show "ssg_get_group_member_addr_str L g i n = (r, s, n') \<Longrightarrow> held n' = held n"
    by (rule T5 [THEN conjunct1, rule_format])
  note T6 = T5 [THEN conjunct2]
  show "margo_addr_lookup A m s n = (r, a, n') \<Longrightarrow> r \<noteq> 0 \<Longrightarrow> held n' = held n"
    by (rule T6 [THEN conjunct1, rule_format])
  note T7 = T6 [THEN conjunct2]
  show "ssg_init L n = (r, n') \<Longrightarrow> if r = 0 then acquires held A_ssg n n' else held n' = held n"
    by (rule T7 [THEN conjunct1, rule_format])
  show "margo_init_ext L pr c n = (m, n') \<Longrightarrow> if m \<noteq> NULL then acquires held (A_margo m) n n' else held n' = held n"
    by (rule T7 [THEN conjunct2, rule_format])
qed

lemma find_server_held:
  assumes T: "tracks held A L" and r: "find_server A L f rank m st = (r, a, st')" and f: "r \<noteq> 0"
  shows "held (b_net st') = held (b_net st) \<and> a = NULL \<and> b_json st' = b_json st"
proof -
  obtain r1 g n1 where 1: "ssg_group_id_load L f (b_net st) = (r1, g, n1)" by (metis prod_cases3)
  obtain r2 n2 where 2: "ssg_group_refresh L m g n1 = (r2, n2)" by fastforce
  obtain r3 i n3 where 3: "ssg_get_group_member_id_from_rank L g 0 (MPI_Barrier L n2) = (r3, i, n3)" by (metis prod_cases3)
  obtain r4 s n4 where 4: "ssg_get_group_member_addr_str L g i n3 = (r4, s, n4)" by (metis prod_cases3)
  obtain r5 b n5 where 5: "margo_addr_lookup A m s n4 = (r5, b, n5)" by (metis prod_cases3)
  have h: "held n1 = held (b_net st)" "held n2 = held n1" "held n3 = held n2" "held n4 = held n3"
    using tracksD(8) [OF T 1] tracksD(9) [OF T 2] tracksD(10) [OF T 3] tracksD(11) [OF T 4] tracksD(2) [OF T] by simp_all
  consider "r1 \<noteq> 0" | "r1 = 0" "r2 \<noteq> 0" | "r1 = 0" "r2 = 0" "r3 \<noteq> 0" | "r1 = 0" "r2 = 0" "r3 = 0" "r4 \<noteq> 0"
    | "r1 = 0" "r2 = 0" "r3 = 0" "r4 = 0" by blast
  then show ?thesis
  proof cases
    case 1
    with r \<open>ssg_group_id_load L f (b_net st) = (r1, g, n1)\<close> h show ?thesis by (auto simp: find_server_def)
  qed (use r f h 1 2 3 4 5 tracksD(12) [OF T 5] in \<open>auto simp: find_server_def Let_def split: if_splits\<close>)
qed

text \<open>The configuration: reading it makes the process the owner of one object.\<close>

lemma new_int_add_owned:
  assumes O: "json_owns own J" and n: "json_object_new_int J v j = (p, j1)"
  shows "own (json_object_object_add J c k p j1) = own j"
  using json_ownsD(2) [OF O n] json_ownsD(3) [OF O, of c k p j1] by (auto split: if_splits)

lemma override_owned:
  assumes O: "json_owns own J"
  shows "own (b_json (CONFIG_OVERRIDE_INTEGER J c k v w st)) = own (b_json st)
    \<and> b_net (CONFIG_OVERRIDE_INTEGER J c k v w st) = b_net st"
proof -
  obtain p j1 where n: "json_object_new_int J (scast v) (b_json st) = (p, j1)" by fastforce
  have "b_json (CONFIG_OVERRIDE_INTEGER J c k v w st) = json_object_object_add J c k p j1
    \<and> b_net (CONFIG_OVERRIDE_INTEGER J c k v w st) = b_net st"
    using n by (simp add: CONFIG_OVERRIDE_INTEGER_def Let_def)
  then show ?thesis by (simp add: new_int_add_owned [OF O n])
qed

lemma has_or_create_owned:
  assumes O: "json_owns own J" and r: "CONFIG_HAS_OR_CREATE J c k v st = (q, st')"
  shows "own (b_json st') = own (b_json st) \<and> b_net st' = b_net st"
proof -
  obtain p j1 where n: "json_object_new_int J (scast v) (b_json st) = (p, j1)" by fastforce
  have "(b_json st' = b_json st \<or> b_json st' = json_object_object_add J c k p j1) \<and> b_net st' = b_net st"
  proof (cases "json_object_object_get J c k (b_json st)")
    case None
    then show ?thesis using r n by (auto simp: CONFIG_HAS_OR_CREATE_def)
  next
    case (Some x)
    then have "st' = (if json_object_is_int J (Some x) (b_json st) then st else say [Wrong_type k] st)"
      using r by (cases "json_object_is_int J (Some x) (b_json st)") (simp_all add: CONFIG_HAS_OR_CREATE_def Let_def)
    then show ?thesis by (cases "json_object_is_int J (Some x) (b_json st)") simp_all
  qed
  then show ?thesis by (metis new_int_add_owned [OF O n])
qed

text \<open>\<open>gets own a st st'\<close>: the process has become the owner of \<open>a\<close>, nothing else has changed hands.\<close>

definition gets :: "('j \<Rightarrow> ptr set) \<Rightarrow> ptr \<Rightarrow> ('j, 'n) bench \<Rightarrow> ('j, 'n) bench \<Rightarrow> bool" where
  "gets own a st st' \<longleftrightarrow> a \<noteq> NULL \<and> a \<notin> own (b_json st) \<and> own (b_json st') = insert a (own (b_json st))
     \<and> b_net st' = b_net st"

lemma parse_json_owned:
  assumes O: "json_owns own J" and r: "parse_json L J f st = (ret, cfg, st')" and ok: "0 \<le> sint ret"
  shows "ret = 0 \<and> (\<exists>a. cfg = Some a \<and> gets own a st st')"
proof -
  obtain s where s: "file_contents L f = Some s" "malloc_ok L (length s + 1)"
    using r ok by (cases "file_contents L f") (auto simp: parse_json_def split: if_splits)
  obtain a j1 where a: "json_tokener_parse J (takeWhile (\<lambda>c. c \<noteq> CHR 0x00) s) (b_json st) = (a, j1)" by fastforce
  have nn: "a \<noteq> NULL"
  proof
    assume "a = NULL"
    then have "ret = - 1" using r s a by (simp add: parse_json_def)
    then show False using ok by simp
  qed
  then obtain c where c: "a = Some c" by blast
  let ?st = "CONFIG_OVERRIDE_INTEGER J a ''nranks'' (of_nat (MPI_Comm_size L (b_net st))) True (st\<lparr>b_json := j1\<rparr>)"
  obtain q st2 where q: "CONFIG_HAS_OR_CREATE J a ''items_per_process'' 100 ?st = (q, st2)" by fastforce
  have "(ret, cfg, st') = (if q = None then - 1 else 0, Some a, st2)"
    using r s a c q by (cases q) (simp_all add: parse_json_def Let_def)
  moreover from this have "q \<noteq> None" using ok by (cases q) auto
  ultimately have "ret = 0" "cfg = Some a" "st' = st2" by simp_all
  moreover have "own (b_json st2) = own j1" "b_net st2 = b_net st"
    using has_or_create_owned [OF O q] override_owned [OF O, of a "''nranks''" _ True "st\<lparr>b_json := j1\<rparr>"] by simp_all
  ultimately show ?thesis using json_ownsD(1) [OF O a] nn by (simp add: gets_def)
qed

lemma parse_args_owned:
  assumes O: "json_owns own J" and r: "parse_args L J argv st = Some (ret, opts, Some a, st')" and ok: "0 \<le> sint ret"
  shows "ret = 0 \<and> gets own a st st'"
proof -
  obtain x where x: "parse_opts (getopt L argv) \<lparr>group_file = [], json_file = []\<rparr> = Some x"
    using r by (cases "parse_opts (getopt L argv) \<lparr>group_file = [], json_file = []\<rparr>") (simp_all add: parse_args_def Let_def)
  obtain y where y: "x = Some y" using r x by (cases x) (simp_all add: parse_args_def Let_def)
  have "parse_json L J (json_file y) st = (ret, Some a, st')"
    using r x y by (cases "parse_json L J (json_file y) st") (simp add: parse_args_def Let_def split: if_splits)
  from parse_json_owned [OF O this ok] show ?thesis by auto
qed

text \<open>After a set-up that succeeds the configuration is what the process owns in addition.\<close>

lemma find_server_json: "find_server A L f rank m st = (r, a, st') \<Longrightarrow> b_json st' = b_json st"
  by (auto simp: find_server_def Let_def split: if_splits prod.splits)

lemma set_up_owned:
  assumes O: "json_owns own J" and up: "set_up A L J argv st m a cfg st0"
  shows "cfg \<noteq> NULL \<and> cfg \<notin> own (b_json st) \<and> own (b_json st0) = insert cfg (own (b_json st))"
proof -
  obtain opts st1 ret proto n3 where
    p: "parse_args L J argv (at_net (MPI_Init L) st) = Some (0, opts, Some cfg, st1)"
    and f: "find_server A L (group_file opts) (MPI_Comm_rank L (MPI_Init L (b_net st))) m (st1\<lparr>b_net := n3\<rparr>) = (0, a, st0)"
    using up unfolding set_up_def by blast
  have "b_json st0 = b_json st1" using find_server_json [OF f] by simp
  with parse_args_owned [OF O p] show ?thesis by (simp add: gets_def)
qed

text \<open>The labels give back what they are named for, and everything below them.\<close>

lemma err_mpi_back:
  assumes T: "tracks held A L" and O: "json_owns own J" and a: "a \<in> own (b_json st)" "a \<noteq> NULL"
  shows "\<exists>st'. err_mpi_cleanup L J (Some a) ret st = Some (Exited ret, st')
    \<and> held (b_net st') = held (b_net st) \<and> own (b_json st') = own (b_json st) - {a}"
proof -
  from json_ownsD(5) [OF O a(1)] obtain j where
    "json_object_release J a (b_json st) = Some j" "own j = own (b_json st) - {a}" by blast
  with a(2) tracksD(3,4) [OF T] show ?thesis by (auto simp: err_mpi_cleanup_def Let_def)
qed

lemma err_margo_back:
  assumes T: "tracks held A L" and O: "json_owns own J" and a: "a \<in> own (b_json st)" "a \<noteq> NULL"
  shows "\<exists>st'. err_margo_cleanup N A L J m NULL (Some a) ret st = Some (Exited ret, st')
    \<and> held (b_net st') = held (b_net st) - {A_margo m} \<and> own (b_json st') = own (b_json st) - {a}"
  using err_mpi_back [OF T O, of a "at_net (margo_finalize A m) st" ret] a tracksD(6) [OF T]
  by (simp add: err_margo_cleanup_def Let_def)

lemma err_ssg_back:
  assumes T: "tracks held A L" and O: "json_owns own J" and a: "a \<in> own (b_json st)" "a \<noteq> NULL"
  shows "\<exists>st'. err_ssg_cleanup N A L J m NULL (Some a) ret st = Some (Exited ret, st')
    \<and> held (b_net st') = held (b_net st) - {A_ssg} - {A_margo m} \<and> own (b_json st') = own (b_json st) - {a}"
  using err_margo_back [OF T O, of a "at_net (ssg_finalize L) st" N m ret] a tracksD(5) [OF T]
  by (simp add: err_ssg_cleanup_def)

lemma failed_set_up_releases:
  assumes T: "tracks held A L" and O: "json_owns own J"
    and run: "cachebench_main N A L J P scr id0 argv st = Some (o1, st')"
    and p: "parse_args L J argv (at_net (MPI_Init L) st) = Some (ret, opts, cf, st1)" "0 \<le> sint ret"
    and no: "\<And>m a cfg st0. \<not> set_up A L J argv st m a cfg st0"
  shows "\<exists>r. o1 = Exited r \<and> r \<noteq> 0 \<and> held (b_net st') = held (b_net st) \<and> own (b_json st') = own (b_json st)"
proof -
  obtain r1 pr n1 where 1: "ssg_get_group_transport_from_file L (group_file opts) (b_net st1) = (r1, pr, n1)"
    by (metis prod_cases3)
  obtain a where a: "cf = Some a" using run p 1 by (cases cf) (auto simp: cachebench_main_def Let_def)
  note g = parse_args_owned [OF O p(1) [unfolded a] p(2)]
  then have ret: "ret = 0" "a \<noteq> NULL" "a \<notin> own (b_json st)" "own (b_json st1) = insert a (own (b_json st))"
    and n1: "held n1 = held (b_net st)"
    using tracksD(1) [OF T] tracksD(7) [OF T 1] by (auto simp: gets_def)
  define conf where "conf = (if json_object_object_get J a ''margo'' (b_json st1) \<noteq> NULL
    then Some (json_object_to_string J (json_object_object_get J a ''margo'' (b_json st1)) (b_json st1)) else None)"
  obtain m n2 where 2: "margo_init_ext L pr conf n1 = (m, n2)" by fastforce
  obtain r3 n3 where 3: "ssg_init L n2 = (r3, n3)" by fastforce
  let ?rank = "MPI_Comm_rank L (MPI_Init L (b_net st))"
  obtain r4 b st4 where 4: "find_server A L (group_file opts) ?rank m (st1\<lparr>b_net := n3\<rparr>) = (r4, b, st4)"
    by (metis prod_cases3)
  have tr: "(if m \<noteq> NULL then acquires held (A_margo m) n1 n2 else held n2 = held n1)"
    "(if r3 = 0 then acquires held A_ssg n2 n3 else held n3 = held n2)"
    using tracksD(14) [OF T 2] tracksD(13) [OF T 3] .
  have go: "cachebench_main N A L J P scr id0 argv st =
     (if m = NULL then err_mpi_cleanup L J (Some a) (- 1) (st1\<lparr>b_net := n2\<rparr>)
      else if r3 \<noteq> 0 then err_margo_cleanup N A L J m NULL (Some a) r3 (st1\<lparr>b_net := n3\<rparr>)
      else if r4 \<noteq> 0 then err_ssg_cleanup N A L J m b (Some a) r4 st4
      else cachebench_main N A L J P scr id0 argv st)"
    using p(1) ret(1) a 1 2 3 4 unfolding conf_def
    by (cases "json_object_object_get J a ''margo'' (b_json st1)") (simp_all add: cachebench_main_def Let_def)
  show ?thesis
  proof (cases "m = NULL")
    case True
    with err_mpi_back [OF T O, of a "st1\<lparr>b_net := n2\<rparr>" "- 1"] go run ret n1 tr show ?thesis
      by (auto simp: acquires_def)
  next
    case m: False
    show ?thesis
    proof (cases "r3 = 0")
      case False
      with err_margo_back [OF T O, of a "st1\<lparr>b_net := n3\<rparr>" N m r3] go run ret n1 tr m show ?thesis
        by (auto simp: acquires_def)
    next
      case r3: True
      have r4: "r4 \<noteq> 0"
        using no [of m b a st4] p(1) a ret(1) 1 2 3 4 m r3 unfolding set_up_def conf_def by blast
      note f = find_server_held [OF T 4 r4]
      with err_ssg_back [OF T O, of a st4 N m r4] go run ret n1 tr m r3 r4 show ?thesis
        by (auto simp: acquires_def)
    qed
  qed
qed

end
