(* ===== verification/Program_Properties.thy ===== *)
theory Program_Properties
  imports Cleanup Remote_Instance
begin

text \<open>
  The properties of the example programs and of the benchmark, each with an evaluation at
  the concrete server behind the loopback of theory \<open>Remote_Instance\<close>.
\<close>

section \<open>A concrete set-up\<close>

text \<open>A server that asks for no token, as \<open>server.c\<close> starts it.\<close>

definition server_open :: "ref_lib dworld server" where
  "server_open = server0\<lparr>prov := prov0\<lparr>token := None\<rparr>\<rparr>"

lemma server_open_ok: "ref_server server_open [] {}"
  by (rule dummy_server_init) (simp_all add: server_open_def server0_def prov0_def world0_def ref_ext_ok)

lemma server_open_simps:
  "self server_open = Some 0" "world server_open = world0" "check_token (prov server_open) None = Some True"
  "backend_named server_open ''dummy'' = Some 0" "cache_list server_open [] = []" "cache_map server_open [] k = None"
  by (simp_all add: server_open_def server0_def prov0_def check_token_def backend_named_def dummy_backend_def
      cache_list_def cache_map_def)

lemma server_open_room: "table_room server_open" "dummy_room (world server_open)"
  using server0_room
  by (simp_all add: table_room_def server_open_def server0_def prov0_def log2_of_def the_tbl_def tblp_def)

lemma loop_of_routed_any:
  assumes "self sv = Some 0"
  shows "routed ref_env (loop_of sv) p 1 H_create False" "routed ref_env (loop_of sv) p 5 H_list False"
    "routed ref_env (loop_of sv) p 6 H_hello True" "routed ref_env (loop_of sv) p 7 H_sum False"
    "routed ref_env (loop_of sv) p 8 H_io False"
  using assms by (simp_all add: routed_def loop_of_def ref_env_def rpc_table_def ref_rid_def)

lemma ref_env_ids:
  "le_id ref_env ''cachercise_create_cache'' = 1" "le_id ref_env ''cachercise_list_caches'' = 5"
  "le_id ref_env ''cachercise_hello'' = 6" "le_id ref_env ''cachercise_sum'' = 7" "le_id ref_env ''cachercise_io'' = 8"
  by (simp_all add: ref_env_def ref_rid_def rpc_table_def)

definition margo_app0 :: "'n margo_app" where
  "margo_app0 = \<lparr>margo_init = (\<lambda>n. (Some 0, n)), margo_addr_lookup = (\<lambda>m s n. (0, Some 5, n)),
     margo_addr_free_code = (\<lambda>a n. 0), margo_finalize = (\<lambda>m n. n)\<rparr>"

definition uuid_lib0 :: uuid_lib where
  "uuid_lib0 = \<lparr>uuid_parse = (\<lambda>s i. of_nat (length s) - 29), uuid_unparse = (\<lambda>i. if i = 7 then ''seven'' else ''other'')\<rparr>"

lemma plenty_clients: "clients_ok (cworld0)"
  by (intro clients_okI) (simp_all add: cworld0_def rhs_of_def)

lemma atoi_42: "atoi ''42'' = Some 42"
  by (simp add: atoi_def c_number_def c_digit_def c_space_def)

section \<open>The example programs\<close>

text \<open>
  C20: the client program, against a server that knows the cache of its argument, greets it, prints the
  sum 68 and exits with 0.  It has released its handle and its client and has left
  no RPC handle open; the caches of the server are what they were.
\<close>

theorem client_program_ok:
  assumes "procs_ok (le_procs E)" and "clients_ok st"
    and "grants (clients st) (brk (clients st))" and "grants (rhs st) (brk (rhs st))"
    and "argv = [prog, host, ps, us]" and "atoi ps = Some z" and "length us = 36"
    and "margo_init A (network st) = (Some m, n1)" and "margo_addr_lookup A (Some m) host n1 = (0, Some a, n)"
    and "\<And>n. margo_addr_free_code A (Some a) n = 0"
    and "routed E n (ucast z) (le_id E ''cachercise_hello'') H_hello True"
    and "routed E n (ucast z) (le_id E ''cachercise_sum'') H_sum False"
    and "dummy_server e jl ml D (lp_server n) xs C"
    and "cache_map (lp_server n) xs (uuid_parse U us id0) \<noteq> None"
  shows "\<exists>st' n'. client_main (loopback E) A U (le_procs E) id0 argv st = Some (Exited 0, [Sum_is 68], st')
    \<and> cells (clients st') = cells (clients st) \<and> cells (rhs st') = cells (rhs st) \<and> warnings st' = warnings st
    \<and> network st' = margo_finalize A (Some m) n' \<and> loop_hs n' = loop_hs n
    \<and> dummy_server e jl ml D (lp_server n') xs C \<and> cache_list (lp_server n') xs = cache_list (lp_server n) xs"
  using assms by (rule client_main_ok)

lemma client_program_ok_witness:
  "\<exists>st' n'. client_main (loopback ref_env) margo_app0 uuid_lib0 ref_procs 0
      [''client'', ''na+sm://1'', ''42'', replicate 36 CHR ''0''] cworld0 = Some (Exited 0, [Sum_is 68], st')
    \<and> cells (rhs st') = Map.empty \<and> network st' = n' \<and> loop_hs n' = loop_hs (loop_of server1)"
  using client_program_ok [of ref_env cworld0 "[''client'', ''na+sm://1'', ''42'', replicate 36 CHR ''0'']"
      "''client''" "''na+sm://1''" "''42''" "replicate 36 CHR ''0''" 42 margo_app0 0 "loop_of server1" 5 "loop_of server1"
      ref_ext ref_jl ref_ml "Some 0" "[addr1]" "{(Some 0, Some 0)}" uuid_lib0 0]
    ref_procs_ok plenty_clients atoi_42 loop_of_routed_any [OF server1_ok(5)] server1_addr
  by (auto simp: ref_env_ids margo_app0_def uuid_lib0_def cworld0_def)

text \<open>
  C21: the administrator program, against a server that asks for no token, creates a cache and prints the
  number and the ids of the caches, the first four in the order of their creation
  with the new one at the end.  It exits with 0, has released what it allocated, and
  the server has one cache more.
\<close>

theorem admin_program_ok:
  assumes "procs_ok (le_procs E)" and "grants (admins st) (brk (admins st))" and "heap_wf (admins st)" and "le_calloc E"
    and "argv = [prog, host, ps]" and "atoi ps = Some z"
    and "margo_init A (anet st) = (Some m, n1)" and "margo_addr_lookup A (Some m) host n1 = (0, addr, n)"
    and "\<And>n. margo_addr_free_code A addr n = 0"
    and "routed E n (ucast z) (le_id E ''cachercise_create_cache'') H_create False"
    and "routed E n (ucast z) (le_id E ''cachercise_list_caches'') H_list False"
    and "dummy_server e jl ml D (lp_server n) xs C" and "D \<noteq> NULL"
    and "check_token (prov (lp_server n)) None = Some True" and "backend_named (lp_server n) ''dummy'' = D"
    and "table_room (lp_server n)" and "dummy_room (world (lp_server n))"
    and "cache_map (lp_server n) xs (next_uuid n) = None"
    and "dummy_create_cache e (self (lp_server n)) (Some ''{}'') NULL (world (lp_server n))
        = Some (CACHERCISE_SUCCESS, c, w)"
    and "length ids = 4" and "us = take 4 (map fst (cache_list (lp_server n) xs) @ [next_uuid n])"
  shows "\<exists>st' n' ys C'. admin_main (loopback E) A U (le_procs E) True ids argv st
      = Some (Exited 0, Count_is (of_nat (length us)) # id_lines U 0 us, st')
    \<and> cells (admins st') = cells (admins st) \<and> anet st' = margo_finalize A (Some m) n' \<and> loop_hs n' = loop_hs n
    \<and> dummy_server e jl ml D (lp_server n') ys C'
    \<and> cache_list (lp_server n') ys = cache_list (lp_server n) xs @ [(next_uuid n, (D, c))]"
  using assms by (rule admin_main_ok)

lemma admin_program_ok_witness:
  "\<exists>st' n' ys. admin_main (loopback ref_env) margo_app0 uuid_lib0 ref_procs True [0, 0, 0, 0]
      [''admin'', ''na+sm://1'', ''42''] ((aworld_of server_open)\<lparr>admins := plenty\<rparr>)
      = Some (Exited 0, [Count_is 1, Id_is 0 ''seven''], st')
    \<and> cells (admins st') = Map.empty \<and> anet st' = n'
    \<and> cache_list (lp_server n') ys = [(7, (Some 0, Some 0))]"
proof -
  let ?st = "(aworld_of server_open)\<lparr>admins := plenty\<rparr>" and ?n = "loop_of server_open"
  have "\<exists>st' n' ys C'. admin_main (loopback ref_env) margo_app0 uuid_lib0 (le_procs ref_env) True [0, 0, 0, 0]
      [''admin'', ''na+sm://1'', ''42''] ?st
      = Some (Exited 0, Count_is (of_nat (length [7 :: cachercise_cache_id_t])) # id_lines uuid_lib0 0 [7], st')
    \<and> cells (admins st') = cells (admins ?st) \<and> anet st' = margo_finalize margo_app0 (Some 0) n' \<and> loop_hs n' = loop_hs ?n
    \<and> ref_server (lp_server n') ys C'
    \<and> cache_list (lp_server n') ys = cache_list (lp_server ?n) [] @ [(next_uuid ?n, (Some 0, Some 0))]"
    by (rule admin_program_ok [where w = world1 and z = 42 and C = "{}", OF _ _ _ _ refl atoi_42])
      (simp_all add: ref_procs_ok ref_env_ids margo_app0_def loop_of_routed_any server_open_ok server_open_simps
        server_open_room server_open_room(2) [unfolded server_open_simps] create_world0)
  then obtain st' n' ys where "admin_main (loopback ref_env) margo_app0 uuid_lib0 ref_procs True [0, 0, 0, 0]
      [''admin'', ''na+sm://1'', ''42''] ?st = Some (Exited 0, Count_is 1 # id_lines uuid_lib0 0 [7], st')"
    "cells (admins st') = Map.empty" "anet st' = margo_finalize margo_app0 (Some 0) n'"
    "cache_list (lp_server n') ys = [(7, (Some 0, Some 0))]"
    by (auto simp: server_open_simps)
  moreover have "id_lines uuid_lib0 0 [7] = [Id_is 0 ''seven'']"
    by (simp add: id_lines_def uuid_lib0_def)
  ultimately show ?thesis by (intro exI [of _ st'] exI [of _ n'] exI [of _ ys]) (simp add: margo_app0_def)
qed

section \<open>The benchmark\<close>

text \<open>
  A JSON library for the witnesses: the objects made so far, a number or an object with fields, the
  fields by address, and the objects the program holds.  A text that is not empty parses to the
  empty object.
\<close>

record json_mem =
  jm_objs :: "i32 option list"
  jm_fields :: "nat \<Rightarrow> string \<Rightarrow> ptr"
  jm_roots :: "nat list"

definition jm_obj :: "json_mem \<Rightarrow> ptr \<Rightarrow> i32 option" where
  "jm_obj j p = (case p of None \<Rightarrow> None | Some a \<Rightarrow> if a < length (jm_objs j) then jm_objs j ! a else None)"

definition jm_own :: "json_mem \<Rightarrow> ptr set" where
  "jm_own j = Some ` {a \<in> set (jm_roots j). a < length (jm_objs j)}"

definition jm_set :: "ptr \<Rightarrow> string \<Rightarrow> ptr \<Rightarrow> json_mem \<Rightarrow> json_mem" where
  "jm_set c k x j = (case c of None \<Rightarrow> j
     | Some a \<Rightarrow> j\<lparr>jm_fields := (jm_fields j)(a := (jm_fields j a)(k := x))\<rparr>)"

definition drop_ptr :: "ptr \<Rightarrow> nat list \<Rightarrow> nat list" where
  "drop_ptr p xs = filter (\<lambda>a. Some a \<noteq> p) xs"

definition json_lib0 :: "json_mem json" where
  "json_lib0 = \<lparr>json_tokener_parse = (\<lambda>s j. if s = [] then (NULL, j) else
       let a = length (jm_objs j) in
       (Some a, j\<lparr>jm_objs := jm_objs j @ [None], jm_fields := (jm_fields j)(a := \<lambda>_. NULL), jm_roots := a # jm_roots j\<rparr>)),
     json_object_object_get = (\<lambda>c k j. case c of None \<Rightarrow> NULL | Some a \<Rightarrow> jm_fields j a k),
     json_object_object_add = (\<lambda>c k x j. (jm_set c k x j)\<lparr>jm_roots := drop_ptr x (jm_roots j)\<rparr>),
     json_object_object_del = (\<lambda>c k j. jm_set c k NULL j),
     json_object_is_int = (\<lambda>p j. jm_obj j p \<noteq> None),
     json_object_get_int = (\<lambda>p j. case jm_obj j p of None \<Rightarrow> 0 | Some v \<Rightarrow> v),
     json_object_new_int = (\<lambda>v j. let a = length (jm_objs j) in
       (Some a, j\<lparr>jm_objs := jm_objs j @ [Some (word_of_int (sint v))], jm_roots := a # jm_roots j\<rparr>)),
     json_object_to_string = (\<lambda>c j. ''{}''),
     json_object_release = (\<lambda>p j. if p \<in> jm_own j then Some (j\<lparr>jm_roots := drop_ptr p (jm_roots j)\<rparr>) else None)\<rparr>"

definition json0 :: json_mem where
  "json0 = \<lparr>jm_objs = [], jm_fields = (\<lambda>a k. NULL), jm_roots = []\<rparr>"

lemma scast_i64_i32: "scast (scast (v :: i32) :: i64) = v"
  by (simp add: scast_down_scast_id is_down)

lemma jm_set_simps [simp]:
  "jm_objs (jm_set c k x j) = jm_objs j" "jm_roots (jm_set c k x j) = jm_roots j"
  "jm_fields (jm_set (Some a) k x j) = (jm_fields j)(a := (jm_fields j a)(k := x))"
  by (simp_all add: jm_set_def split: option.split)

lemma jm_obj_cong: "jm_objs j' = jm_objs j \<Longrightarrow> jm_obj j' = jm_obj j"
  by (simp add: jm_obj_def fun_eq_iff split: option.split)

lemma jm_obj_new:
  "jm_objs j' = jm_objs j @ [v] \<Longrightarrow> jm_obj j' p = (if p = Some (length (jm_objs j)) then v else jm_obj j p)"
  by (auto simp: jm_obj_def nth_append split: option.split)

lemma jm_obj_fresh: "jm_obj j (Some (length (jm_objs j))) = None"
  by (simp add: jm_obj_def)

lemma json_lib0_ok: "json_ok json_lib0"
proof -
  have o: "jm_obj ((jm_set c k x j)\<lparr>jm_roots := r\<rparr>) = jm_obj j" for c k x j r by (rule jm_obj_cong) simp
  have n: "jm_obj (j\<lparr>jm_objs := jm_objs j @ [v], jm_roots := r\<rparr>) p
      = (if p = Some (length (jm_objs j)) then v else jm_obj j p)" for j v r p by (rule jm_obj_new) simp
  show ?thesis
    unfolding json_ok_def
  proof (intro conjI allI impI)
    fix v :: i32 and j p j' assume r: "json_object_new_int json_lib0 (scast v) j = (p, j')"
    then have p: "p = Some (length (jm_objs j))" "j' = j\<lparr>jm_objs := jm_objs j @ [Some v], jm_roots := length (jm_objs j) # jm_roots j\<rparr>"
      by (auto simp: json_lib0_def Let_def scast_i64_i32)
    show "p \<noteq> NULL" "json_object_is_int json_lib0 p j'" "json_object_get_int json_lib0 p j' = v"
      by (simp_all add: p json_lib0_def n)
    show "json_object_object_get json_lib0 c k j' = json_object_object_get json_lib0 c k j" for c k
      by (simp add: p json_lib0_def split: option.split)
    fix q assume "json_object_is_int json_lib0 q j"
    then have "jm_obj j q \<noteq> None" "q \<noteq> Some (length (jm_objs j))"
      using jm_obj_fresh by (auto simp: json_lib0_def)
    then show "json_object_is_int json_lib0 q j'" "json_object_get_int json_lib0 q j' = json_object_get_int json_lib0 q j"
      by (simp_all add: p json_lib0_def n)
  qed (simp_all add: json_lib0_def o)
qed

lemma jm_own_new:
  assumes "jm_objs j' = jm_objs j @ [v]" and "jm_roots j' = length (jm_objs j) # jm_roots j"
  shows "Some (length (jm_objs j)) \<notin> jm_own j \<and> jm_own j' = insert (Some (length (jm_objs j))) (jm_own j)"
  using assms by (auto simp: jm_own_def less_Suc_eq)

lemma jm_own_drop: "jm_objs j' = jm_objs j \<Longrightarrow> jm_roots j' = drop_ptr p (jm_roots j) \<Longrightarrow> jm_own j' = jm_own j - {p}"
  by (auto simp: jm_own_def drop_ptr_def)

lemma json_lib0_owns: "json_owns jm_own json_lib0"
  unfolding json_owns_def
proof (intro conjI allI impI)
  fix s j p j' assume "json_tokener_parse json_lib0 s j = (p, j')"
  then show "if p \<noteq> NULL then p \<notin> jm_own j \<and> jm_own j' = insert p (jm_own j) else jm_own j' = jm_own j"
    using jm_own_new [of j' j None] by (auto simp: json_lib0_def Let_def split: if_splits)
next
  fix v j p j' assume "json_object_new_int json_lib0 v j = (p, j')"
  then show "if p \<noteq> NULL then p \<notin> jm_own j \<and> jm_own j' = insert p (jm_own j) else jm_own j' = jm_own j"
    using jm_own_new [of j' j "Some (word_of_int (sint v))"] by (auto simp: json_lib0_def Let_def)
next
  fix c k x j
  have "Some a \<noteq> NULL" for a :: addr by simp
  then have "NULL \<notin> jm_own j" by (auto simp: jm_own_def)
  moreover have "jm_own (json_object_object_add json_lib0 c k x j) = jm_own j - {x}"
    by (rule jm_own_drop) (simp_all add: json_lib0_def)
  ultimately show "jm_own (json_object_object_add json_lib0 c k x j) = jm_own j - (if x \<noteq> NULL then {x} else {})"
    by (cases x) simp_all
next
  fix c k j
  show "jm_own (json_object_object_del json_lib0 c k j) = jm_own j" by (simp add: json_lib0_def jm_own_def)
next
  fix p j assume "p \<in> jm_own j"
  moreover have "jm_own (j\<lparr>jm_roots := drop_ptr p (jm_roots j)\<rparr>) = jm_own j - {p}" by (rule jm_own_drop) simp_all
  ultimately show "\<exists>j'. json_object_release json_lib0 p j = Some j' \<and> jm_own j' = jm_own j - {p}"
    by (simp add: json_lib0_def)
qed

text \<open>Libraries for a run alone: one process, and nothing that reaches the network.\<close>

definition bench_lib0 :: "(char \<times> string) list \<Rightarrow> string \<Rightarrow> 'n bench_lib" where
  "bench_lib0 os text1 = \<lparr>MPI_Init = (\<lambda>n. n), MPI_Comm_size = (\<lambda>n. 1), MPI_Comm_rank = (\<lambda>n. 0), MPI_Barrier = (\<lambda>n. n),
     MPI_Bcast = (\<lambda>i n. (i, n)), MPI_Abort = (\<lambda>n. n), MPI_Finalize = (\<lambda>n. n),
     ssg_get_group_transport_from_file = (\<lambda>f n. (0, ''na+sm'', n)), ssg_init = (\<lambda>n. (0, n)),
     ssg_group_id_load = (\<lambda>f n. (0, 1, n)), ssg_group_refresh = (\<lambda>m g n. (0, n)),
     ssg_get_group_member_id_from_rank = (\<lambda>g r n. (0, 1, n)), ssg_get_group_member_addr_str = (\<lambda>g i n. (0, ''na+sm://1'', n)),
     ssg_finalize = (\<lambda>n. n), margo_init_ext = (\<lambda>p c n. (Some 0, n)), margo_get_config = (\<lambda>m n. ''{}''),
     getopt = (\<lambda>argv. os), file_contents = (\<lambda>f. Some text1), malloc_ok = (\<lambda>n. True)\<rparr>"

definition bench0 :: "'n \<Rightarrow> (json_mem, 'n) bench" where
  "bench0 n = \<lparr>b_admins = plenty, b_clients = plenty, b_rhs = plenty, b_warnings = [], b_json = json0, b_net = n, b_out = []\<rparr>"

text \<open>The configuration the benchmark has read, with its two fields.\<close>

definition json1 :: json_mem where
  "json1 = \<lparr>jm_objs = [None, Some 1, Some 100],
     jm_fields = (\<lambda>a k. NULL)(0 := (\<lambda>k. NULL)(''nranks'' := Some 1, ''items_per_process'' := Some 2)), jm_roots = [0]\<rparr>"

abbreviation both_options :: "(char \<times> string) list" where
  "both_options \<equiv> [(CHR ''g'', ''group''), (CHR ''j'', ''conf'')]"

lemma parse_both: "parse_opts both_options \<lparr>group_file = [], json_file = []\<rparr>
    = Some (Some \<lparr>group_file = ''group'', json_file = ''conf''\<rparr>)"
  by (simp add: scan_word_def c_space_def)

lemma parse_json0:
  assumes "file_contents L f = Some ''{}''" and "\<And>i. malloc_ok L i" and "MPI_Comm_size L n = 1"
  shows "parse_json L json_lib0 f (bench0 n) = (0, Some (Some 0), (bench0 n)\<lparr>b_json := json1\<rparr>)"
proof -
  let ?j1 = "\<lparr>jm_objs = [None], jm_fields = (\<lambda>a k. NULL), jm_roots = [0]\<rparr> :: json_mem"
  let ?j2 = "\<lparr>jm_objs = [None, Some 1], jm_fields = (\<lambda>a k. NULL)(0 := (\<lambda>k. NULL)(''nranks'' := Some 1)), jm_roots = [0]\<rparr> :: json_mem"
  have 1: "json_tokener_parse json_lib0 ''{}'' json0 = (Some 0, ?j1)"
    by (simp add: json_lib0_def json0_def fun_upd_idem)
  have 2: "CONFIG_OVERRIDE_INTEGER json_lib0 (Some 0) ''nranks'' 1 True (st\<lparr>b_json := ?j1\<rparr>) = st\<lparr>b_json := ?j2\<rparr>"
    for st :: "(json_mem, 'a) bench"
    by (simp add: CONFIG_OVERRIDE_INTEGER_def json_lib0_def jm_set_def drop_ptr_def)
  have 3: "CONFIG_HAS_OR_CREATE json_lib0 (Some 0) ''items_per_process'' 100 (st\<lparr>b_json := ?j2\<rparr>)
      = (Some (Some 2), st\<lparr>b_json := json1\<rparr>)" for st :: "(json_mem, 'a) bench"
    by (simp add: CONFIG_HAS_OR_CREATE_def json_lib0_def jm_set_def drop_ptr_def json1_def numeral_2_eq_2)
  show ?thesis using assms 1 2 [of "bench0 n"] 3 [of "bench0 n"] by (simp add: parse_json_def bench0_def)
qed

lemma bench0_set_up:
  "set_up margo_app0 (bench_lib0 both_options ''{}'') json_lib0 [''cachebench''] (bench0 n) (Some 0) (Some 5) (Some 0)
     ((bench0 n)\<lparr>b_json := json1, b_out := [Refreshed]\<rparr>)"
proof -
  let ?L = "bench_lib0 both_options ''{}'' :: 'a bench_lib"
  have i: "MPI_Init ?L = (\<lambda>n. n)" "getopt ?L x = both_options" for x by (simp_all add: bench_lib0_def)
  have p: "parse_args ?L json_lib0 [''cachebench''] (at_net (MPI_Init ?L) (bench0 n))
      = Some (0, \<lparr>group_file = ''group'', json_file = ''conf''\<rparr>, Some (Some 0), (bench0 n)\<lparr>b_json := json1\<rparr>)"
    using parse_json0 [of ?L "''conf''" n]
    by (simp add: i parse_args_def parse_both bench_lib0_def del: parse_opts.simps)
  have m: "json_object_object_get json_lib0 (Some 0) ''margo'' json1 = NULL" by (simp add: json_lib0_def json1_def)
  show ?thesis
    unfolding set_up_def p
    by (intro exI [of _ "\<lparr>group_file = ''group'', json_file = ''conf''\<rparr>"] exI [of _ "(bench0 n)\<lparr>b_json := json1\<rparr>"]
        exI [of _ "0 :: i32"] exI [of _ "''na+sm''"] exI [of _ n] conjI)
      (simp_all add: m bench_lib0_def bench0_def margo_app0_def find_server_def)
qed

text \<open>
  C19: the benchmark program, run by one process against a server that asks for no
  token, exits with 0 when its set-up succeeds.  It prints the number of updates and
  no mismatch; the new cache of the server holds every value the loop has written, as many as
  the configuration asks for; the handle, the client, the admin and the configuration are
  released, and SSG, margo and MPI shut down in that order.
\<close>

theorem benchmark_program_ok:
  fixes st :: "('j, 'l dworld loop) bench"
  assumes "procs_ok (le_procs E)" and "set_up A L J argv st m (Some a) cfg st0"
    and "MPI_Comm_size L (MPI_Init L (b_net st)) = 1" and "MPI_Comm_rank L (MPI_Init L (b_net st)) = 0"
    and "alone L" and "json_owns own J"
    and "items = json_object_get_int J (json_object_object_get J cfg ''items_per_process'' (b_json st0)) (b_json st0)"
    and "0 \<le> sint items" and "sint items + 100 < 2 ^ 31"
    and "clients_ok (cli st0)" and "heap_wf (b_admins st0)"
    and "grants (b_clients st0) (brk (b_clients st0))" and "grants (b_rhs st0) (brk (b_rhs st0))"
    and "grants (b_admins st0) (brk (b_admins st0))"
    and "routed E (b_net st0) 1 (le_id E ''cachercise_create_cache'') H_create False"
    and "routed E (b_net st0) 1 (le_id E ''cachercise_io'') H_io False"
    and "dummy_server e jl ml D (lp_server (b_net st0)) xs C" and "D \<noteq> NULL"
    and "check_token (prov (lp_server (b_net st0))) None = Some True"
    and "backend_named (lp_server (b_net st0)) ''dummy'' = D"
    and "table_room (lp_server (b_net st0))" and "dummy_room (world (lp_server (b_net st0)))"
    and "cache_map (lp_server (b_net st0)) xs (next_uuid (b_net st0)) = None"
    and "dummy_create_cache e (self (lp_server (b_net st0))) (Some ''{}'') NULL (world (lp_server (b_net st0)))
        = Some (CACHERCISE_SUCCESS, c, w)"
    and "\<forall>i. grants (hoards w) i"
  shows "\<exists>st' l n ys C'. cachebench_main (loopback E) A L J (le_procs E) scr id0 argv st = Some (Exited 0, st')
    \<and> b_out st' = b_out st0 @ [Updates 1 items, l] \<and> (\<forall>k. l \<noteq> Mismatches k)
    \<and> cells (b_admins st') = cells (b_admins st0) \<and> cells (b_clients st') = cells (b_clients st0)
    \<and> cells (b_rhs st') = cells (b_rhs st0) \<and> b_warnings st' = b_warnings st0
    \<and> own (b_json st') = own (b_json st)
    \<and> b_net st' = MPI_Finalize L (margo_finalize A m (ssg_finalize L n))
    \<and> dummy_server e jl ml D (lp_server n) ys C'
    \<and> cache_map (lp_server n) ys (next_uuid (b_net st0)) = Some (D, c)
    \<and> (\<forall>j < nat (sint items). cache_data (world (lp_server n)) c j = of_nat (j + 100))"
proof -
  note c = set_up_owned [OF assms(6,2)]
  then have "cfg \<in> own (b_json st0)" "cfg \<noteq> NULL" "own (b_json st) = own (b_json st0) - {cfg}" by auto
  from cachebench_main_ok [OF assms(1-6) this(1,2) assms(7-), folded this(3)] show ?thesis .
qed

lemma bench0_simps:
  "cli ((bench0 n)\<lparr>b_json := j, b_out := o1\<rparr>) = \<lparr>clients = plenty, rhs = plenty, network = n, warnings = []\<rparr>"
  "cli (bench0 n) = \<lparr>clients = plenty, rhs = plenty, network = n, warnings = []\<rparr>"
  "b_net (bench0 n) = n" "b_admins (bench0 n) = plenty" "b_clients (bench0 n) = plenty" "b_rhs (bench0 n) = plenty"
  by (simp_all add: cli_def bench0_def)

lemma json1_items:
  "json_object_get_int json_lib0 (json_object_object_get json_lib0 (Some 0) ''items_per_process'' json1) json1 = 100"
  by (simp add: json_lib0_def json1_def jm_obj_def)

lemma benchmark_program_ok_witness:
  "\<exists>st' l. cachebench_main (loopback ref_env) margo_app0 (bench_lib0 both_options ''{}'') json_lib0 ref_procs 0 0
      [''cachebench''] (bench0 (loop_of server_open)) = Some (Exited 0, st')
    \<and> b_out st' = [Refreshed, Updates 1 100, l] \<and> (\<forall>k. l \<noteq> Mismatches k) \<and> jm_own (b_json st') = {}
    \<and> cache_data (world (lp_server (b_net st'))) (Some 0) 2 = 102"
proof -
  let ?L = "bench_lib0 both_options ''{}'' :: ref_lib dworld loop bench_lib" and ?n = "loop_of server_open"
  let ?st = "(bench0 ?n)\<lparr>b_json := json1, b_out := [Refreshed]\<rparr>"
  have q: "alone ?L" by (simp add: alone_def bench_lib0_def)
  have P: "procs_ok (le_procs ref_env)" by (simp add: ref_procs_ok)
  have cl: "clients_ok \<lparr>clients = plenty, rhs = plenty, network = ?n, warnings = []\<rparr>"
    using clients_ok_network [OF plenty_clients, of ?n] by (simp add: cworld0_def)
  have g: "\<forall>i. grants (hoards world1) i" by (simp add: world1_def)
  have "\<exists>st' l n ys C'. cachebench_main (loopback ref_env) margo_app0 ?L json_lib0 (le_procs ref_env) 0 0
      [''cachebench''] (bench0 ?n) = Some (Exited 0, st')
    \<and> b_out st' = b_out ?st @ [Updates 1 100, l] \<and> (\<forall>k. l \<noteq> Mismatches k)
    \<and> cells (b_admins st') = cells (b_admins ?st) \<and> cells (b_clients st') = cells (b_clients ?st)
    \<and> cells (b_rhs st') = cells (b_rhs ?st) \<and> b_warnings st' = b_warnings ?st
    \<and> jm_own (b_json st') = jm_own (b_json (bench0 ?n))
    \<and> b_net st' = MPI_Finalize ?L (margo_finalize margo_app0 (Some 0) (ssg_finalize ?L n))
    \<and> ref_server (lp_server n) ys C'
    \<and> cache_map (lp_server n) ys (next_uuid (b_net ?st)) = Some (Some 0, Some 0)
    \<and> (\<forall>j < nat (sint (100 :: i32)). cache_data (world (lp_server n)) (Some 0) j = of_nat (j + 100))"
    by (rule benchmark_program_ok [OF P bench0_set_up _ _ q json_lib0_owns, where w = world1 and xs = "[]" and C = "{}"])
      (simp_all add: bench_lib0_def [of both_options] json1_items bench0_simps cl ref_env_ids loop_of_routed_any server_open_ok
        server_open_simps server_open_room server_open_room(2) [unfolded server_open_simps] create_world0 g)
  then obtain st' l n where s: "cachebench_main (loopback ref_env) margo_app0 ?L json_lib0 (le_procs ref_env) 0 0
      [''cachebench''] (bench0 ?n) = Some (Exited 0, st')" "b_out st' = [Refreshed] @ [Updates 1 100, l]"
    "\<forall>k. l \<noteq> Mismatches k" "jm_own (b_json st') = jm_own json0" "b_net st' = n"
    "\<forall>j < 100. cache_data (world (lp_server n)) (Some 0) j = of_nat (j + 100)"
    by (auto simp: bench_lib0_def margo_app0_def bench0_def)
  moreover have "cache_data (world (lp_server n)) (Some 0) 2 = 102" using s(6) [rule_format, of 2] by simp
  moreover have "jm_own json0 = {}" by (simp add: jm_own_def json0_def)
  ultimately show ?thesis by (intro exI [of _ st'] exI [of _ l]) simp
qed

text \<open>
  C29: without the option \<open>-j\<close> the benchmark has no defined behaviour: nothing is stored
  to \<open>json_cfg\<close>, and the lookup of \<open>margo\<close> in it reads an uninitialised variable.
\<close>

theorem benchmark_needs_config:
  assumes "parse_opts (getopt L argv) \<lparr>group_file = [], json_file = []\<rparr> = Some (Some opt)" and "json_file opt = []"
  shows "cachebench_main N A L J P scr id0 argv st = None"
  using assms by (rule no_config_undefined)

lemma benchmark_needs_config_witness:
  "cachebench_main (loopback ref_env) margo_app0 (bench_lib0 [(CHR ''g'', ''group'')] ''{}'') json_lib0 ref_procs 0 0
      [''cachebench'', ''-g'', ''group''] (bench0 (loop_of server_open)) = None"
  by (rule benchmark_needs_config [where opt = "\<lparr>group_file = ''group'', json_file = []\<rparr>"])
    (simp_all add: bench_lib0_def scan_word_def c_space_def)

text \<open>
  C28: a configuration that is accepted is well typed: it is the object parsed from the
  file, its \<open>nranks\<close> is the number of processes, and its \<open>items_per_process\<close> is an \<open>int\<close>, the
  one of the file or 100 if the file has none.
\<close>

theorem accepted_config_typed:
  assumes "json_ok J" and "parse_json L J f st = (0, cfg, st')"
  shows "\<exists>a s j1. cfg = Some (Some a) \<and> file_contents L f = Some s
    \<and> json_tokener_parse J (takeWhile (\<lambda>c. c \<noteq> CHR 0x00) s) (b_json st) = (Some a, j1)
    \<and> int_field J (Some a) ''nranks'' (b_json st') = Some (of_nat (MPI_Comm_size L (b_net st)))
    \<and> (json_object_object_get J (Some a) ''items_per_process'' j1 = NULL
      \<longrightarrow> int_field J (Some a) ''items_per_process'' (b_json st') = Some 100)
    \<and> (\<forall>x. int_field J (Some a) ''items_per_process'' j1 = Some x
      \<longrightarrow> int_field J (Some a) ''items_per_process'' (b_json st') = Some x)
    \<and> int_field J (Some a) ''items_per_process'' (b_json st') \<noteq> None"
  using assms by (rule parse_json_typed)

lemma accepted_config_typed_witness:
  "\<exists>st'. parse_json (bench_lib0 [] ''{}'') json_lib0 ''conf'' (bench0 ()) = (0, Some (Some 0), st')
    \<and> int_field json_lib0 (Some 0) ''nranks'' (b_json st') = Some 1
    \<and> int_field json_lib0 (Some 0) ''items_per_process'' (b_json st') = Some 100"
proof -
  let ?L = "bench_lib0 [] ''{}'' :: unit bench_lib"
  have r: "parse_json ?L json_lib0 ''conf'' (bench0 ()) = (0, Some (Some 0), (bench0 ())\<lparr>b_json := json1\<rparr>)"
    by (rule parse_json0) (simp_all add: bench_lib0_def)
  from accepted_config_typed [OF json_lib0_ok r] obtain a s j1 where
    a: "Some (Some 0) = Some (Some a)" "file_contents ?L ''conf'' = Some s"
      "json_tokener_parse json_lib0 (takeWhile (\<lambda>c. c \<noteq> CHR 0x00) s) (b_json (bench0 ())) = (Some a, j1)"
      "int_field json_lib0 (Some a) ''nranks'' (b_json ((bench0 ())\<lparr>b_json := json1\<rparr>))
        = Some (of_nat (MPI_Comm_size ?L (b_net (bench0 ()))))"
      "json_object_object_get json_lib0 (Some a) ''items_per_process'' j1 = NULL
        \<longrightarrow> int_field json_lib0 (Some a) ''items_per_process'' (b_json ((bench0 ())\<lparr>b_json := json1\<rparr>)) = Some 100"
    by (elim exE conjE) (rule that)
  have "json_object_object_get json_lib0 (Some a) ''items_per_process'' j1 = NULL"
    using a(1-3) by (auto simp: bench_lib0_def json_lib0_def bench0_def json0_def)
  then show ?thesis using r a(1,4,5) by (intro exI [of _ "(bench0 ())\<lparr>b_json := json1\<rparr>"]) (simp add: bench_lib0_def)
qed

text \<open>
  Libraries that count what they give out, in which the group file cannot be loaded.  The state lists the live
  margo instances and says whether SSG is up.
\<close>

type_synonym counting = "nat list \<times> bool"

definition given_out :: "counting \<Rightarrow> holding set" where
  "given_out = (\<lambda>(ms, b). (\<lambda>a. A_margo (Some a)) ` set ms \<union> (if b then {A_ssg} else {}))"

definition margo_counting :: "counting margo_app" where
  "margo_counting = margo_app0\<lparr>margo_finalize := (\<lambda>m (ms, b). (drop_ptr m ms, b))\<rparr>"

definition bench_counting :: "counting bench_lib" where
  "bench_counting = (bench_lib0 both_options ''{}'')
     \<lparr>margo_init_ext := (\<lambda>p c (ms, b). (Some (new_obj ms), new_obj ms # ms, b)),
      ssg_init := (\<lambda>(ms, b). (if b then - 1 else 0, ms, True)),
      ssg_finalize := (\<lambda>(ms, b). (ms, False)),
      ssg_group_id_load := (\<lambda>f n. (5, 0, n))\<rparr>"

definition net_idle :: "'n net" where
  "net_idle = \<lparr>margo_addr_dup = (\<lambda>a n. (a, n)), margo_addr_free = (\<lambda>a n. n), margo_registered_name = (\<lambda>s n. (0, False)),
     MARGO_REGISTER = (\<lambda>s n. (0, n)), margo_disable_response = (\<lambda>i n. n), margo_create = (\<lambda>a i n. (NULL, n)),
     margo_provider_forward = (\<lambda>p h b n. None), margo_get_output = (\<lambda>h q n. (None, n)),
     margo_free_output = (\<lambda>h n. None), margo_destroy = (\<lambda>h n. None)\<rparr>"

lemma given_out_drop:
  "given_out (drop_ptr p ms, b) = given_out (ms, b) - {A_margo p}" "given_out (ms, False) = given_out (ms, b) - {A_ssg}"
  by (auto simp: given_out_def drop_ptr_def)

lemma given_out_new:
  "acquires given_out (A_margo (Some (new_obj ms))) (ms, b) (new_obj ms # ms, b)"
  "acquires given_out A_ssg (ms, False) (ms, True)"
  using new_obj_fresh by (auto simp: acquires_def given_out_def)

lemma counting_tracks: "tracks given_out margo_counting bench_counting"
  unfolding tracks_def
proof (intro conjI)
  show "\<forall>n. given_out (MPI_Init bench_counting n) = given_out n \<and> given_out (MPI_Barrier bench_counting n) = given_out n
      \<and> given_out (MPI_Abort bench_counting n) = given_out n \<and> given_out (MPI_Finalize bench_counting n) = given_out n
      \<and> given_out (ssg_finalize bench_counting n) = given_out n - {A_ssg}
      \<and> (\<forall>m. given_out (margo_finalize margo_counting m n) = given_out n - {A_margo m})"
    by (auto simp: bench_counting_def bench_lib0_def margo_counting_def margo_app0_def given_out_drop(1)
        given_out_drop(2) [symmetric])
qed (auto simp: margo_counting_def margo_app0_def bench_counting_def bench_lib0_def given_out_new split: if_splits)

text \<open>
  C27: a set-up of the benchmark that fails after the arguments have been accepted ends with a
  status other than 0 and gives back everything the process has acquired: the margo
  instance, SSG and the configuration, at whichever call it fails.
\<close>

theorem failed_set_up_cleans_up:
  assumes "tracks held A L" and "json_owns own J" and "cachebench_main N A L J P scr id0 argv st = Some (o1, st')"
    and "parse_args L J argv (at_net (MPI_Init L) st) = Some (ret, opts, cf, st1)" and "0 \<le> sint ret"
    and "\<And>m a cfg st0. \<not> set_up A L J argv st m a cfg st0"
  shows "\<exists>r. o1 = Exited r \<and> r \<noteq> 0 \<and> held (b_net st') = held (b_net st) \<and> own (b_json st') = own (b_json st)"
  using assms by (rule failed_set_up_releases)

lemma failed_set_up_cleans_up_witness:
  "\<exists>r st'. cachebench_main net_idle margo_counting bench_counting json_lib0 ref_procs 0 0 [''cachebench'']
      (bench0 ([], False)) = Some (Exited r, st') \<and> r \<noteq> 0 \<and> given_out (b_net st') = given_out ([], False)
    \<and> jm_own (b_json st') = {}"
proof -
  let ?st = "bench0 ([], False) :: (json_mem, counting) bench"
  let ?r = "cachebench_main net_idle margo_counting bench_counting json_lib0 ref_procs 0 0 [''cachebench''] ?st"
  let ?o = "\<lparr>group_file = ''group'', json_file = ''conf''\<rparr>"
  have j: "parse_json bench_counting json_lib0 ''conf'' ?st = (0, Some (Some 0), ?st\<lparr>b_json := json1\<rparr>)"
    by (rule parse_json0) (simp_all add: bench_counting_def bench_lib0_def)
  have "MPI_Init bench_counting = (\<lambda>n. n)" "getopt bench_counting x = both_options" for x
    by (simp_all add: bench_counting_def bench_lib0_def)
  with j have p: "parse_args bench_counting json_lib0 [''cachebench''] (at_net (MPI_Init bench_counting) ?st)
      = Some (0, ?o, Some (Some 0), ?st\<lparr>b_json := json1\<rparr>)"
    by (simp add: parse_args_def parse_both del: parse_opts.simps)
  have m: "json_object_object_get json_lib0 (Some 0) ''margo'' json1 = NULL" by (simp add: json_lib0_def json1_def)
  have l: "json_object_release json_lib0 (Some 0) json1 \<noteq> None" by (simp add: json_lib0_def json1_def jm_own_def)
  obtain o1 st' where r: "?r = Some (o1, st')"
  proof -
    have "?r \<noteq> None"
      using p m l by (auto simp: cachebench_main_def Let_def find_server_def err_ssg_cleanup_def err_margo_cleanup_def
          err_mpi_cleanup_def margo_counting_def margo_app0_def bench_counting_def bench_lib0_def bench0_def
          split: prod.splits)
    then show thesis using that by auto
  qed
  have no: "\<not> set_up margo_counting bench_counting json_lib0 [''cachebench''] ?st m a cfg st0" for m a cfg st0
    by (auto simp: set_up_def find_server_def bench_counting_def)
  obtain k where "o1 = Exited k" "k \<noteq> 0" "given_out (b_net st') = given_out (b_net ?st)"
    "jm_own (b_json st') = jm_own (b_json ?st)"
    using failed_set_up_cleans_up [OF counting_tracks json_lib0_owns r p _ no] by auto
  moreover have "jm_own (b_json ?st) = {}" by (simp add: jm_own_def json0_def bench0_def)
  ultimately show ?thesis using r by (intro exI [of _ k] exI [of _ st']) (simp add: bench0_def)
qed

end
