(* ===== verification/Ults.thy ===== *)
theory Ults
  imports Dummy_Backend
begin

text \<open>
  Requests that run at the same time: the I/O function of the dummy backend on one cache,
  executed by several ULTs, in small steps.  A step is an access to the mutex, the growth of the
  vector, or the copy of one element, so that the loops of \<open>Hoard::put\<close> and
  \<open>Hoard::get\<close> interleave.

  The mutex is that of Argobots: at most one ULT holds it, the others wait, and which of them
  gets it next is open.
\<close>

section \<open>Steps\<close>

text \<open>
  Where a ULT is in \<open>dummy_io\<close>, with the arguments of the call of \<open>hoard_put\<close> or
  \<open>hoard_get\<close>: the buffer, the number of elements and the offset.  \<open>Storing\<close> and
  \<open>Loading\<close> are the loops with the value of \<open>i\<close>.
\<close>

datatype ult =
    Writer "i64 list" u64 u64
  | Locked "i64 list" u64 u64
  | Storing "i64 list" u64 u64 nat
  | Reader "i64 list" u64 u64
  | Loading "i64 list" u64 u64 nat
  | Returned i64 "i64 list"

text \<open>The hoards, the holder of the mutex and the ULTs.\<close>

record shared =
  hs :: "Hoard heap"
  holder :: "nat option"
  ults :: "nat \<rightharpoonup> ult"

datatype progress = Waits | Undefined | Goes shared

definition goes :: "shared option \<Rightarrow> progress" where
  "goes x = (case x of None \<Rightarrow> Undefined | Some s \<Rightarrow> Goes s)"

abbreviation at :: "nat \<Rightarrow> ult \<Rightarrow> shared \<Rightarrow> shared" where
  "at t p s \<equiv> s\<lparr>ults := (ults s)(t \<mapsto> p)\<rparr>"

text \<open>The next step of the ULT \<open>t\<close>; \<open>h\<close> is the hoard of the context.  The conditions are those of the C++ loops.\<close>

definition put_start :: "ptr \<Rightarrow> u64 \<Rightarrow> u64 \<Rightarrow> Hoard heap \<Rightarrow> Hoard heap option" where
  "put_start h n offset hp = do {
     x \<leftarrow> h_load h hp;
     if of_nat (length (m_hoard x)) < offset + n
     then Hoard_resize h ((of_nat (length (m_hoard x)) + offset + n) * 2) hp
     else Some hp }"

definition put_one :: "ptr \<Rightarrow> i64 list \<Rightarrow> u64 \<Rightarrow> nat \<Rightarrow> Hoard heap \<Rightarrow> Hoard heap option" where
  "put_one h src offset i hp = do {
     v \<leftarrow> arr_get src i;
     x \<leftarrow> h_load h hp;
     xs \<leftarrow> arr_set (m_hoard x) (unat (offset + of_nat i)) v;
     h_update h (\<lambda>x. x\<lparr>m_hoard := xs\<rparr>) hp }"

definition get_one :: "ptr \<Rightarrow> i64 list \<Rightarrow> u64 \<Rightarrow> nat \<Rightarrow> Hoard heap \<Rightarrow> i64 list option" where
  "get_one h dest offset i hp = do {
     x \<leftarrow> h_load h hp;
     v \<leftarrow> arr_get (m_hoard x) (unat (offset + of_nat i));
     arr_set dest i v }"

definition ult_step :: "ptr \<Rightarrow> nat \<Rightarrow> shared \<Rightarrow> progress" where
  "ult_step h t s =
     (case ults s t of
        None \<Rightarrow> Waits
      | Some (Writer src n offset) \<Rightarrow>
          if holder s = None then Goes (at t (Locked src n offset) (s\<lparr>holder := Some t\<rparr>)) else Waits
      | Some (Locked src n offset) \<Rightarrow>
          goes (do { hp \<leftarrow> put_start h n offset (hs s);
                     Some (at t (Storing src n offset 0) (s\<lparr>hs := hp\<rparr>)) })
      | Some (Storing src n offset i) \<Rightarrow>
          if i < unat n
          then goes (do { hp \<leftarrow> put_one h src offset i (hs s);
                          Some (at t (Storing src n offset (Suc i)) (s\<lparr>hs := hp\<rparr>)) })
          else Goes (at t (Returned (scast (ucast n :: i32)) src) (s\<lparr>holder := None\<rparr>))
      | Some (Reader dest n offset) \<Rightarrow> Goes (at t (Loading dest n offset 0) s)
      | Some (Loading dest n offset i) \<Rightarrow>
          if i < unat n
          then goes (do { dest \<leftarrow> get_one h dest offset i (hs s); Some (at t (Loading dest n offset (Suc i)) s) })
          else Goes (at t (Returned (scast (ucast n :: i32)) dest) s)
      | Some (Returned r b) \<Rightarrow> Waits)"

text \<open>The states that some interleaving leads to.\<close>

inductive ult_reach :: "ptr \<Rightarrow> shared \<Rightarrow> shared \<Rightarrow> bool" for h s0 where
  ult_refl: "ult_reach h s0 s0"
| ult_next: "ult_reach h s0 s \<Longrightarrow> ult_step h t s = Goes s' \<Longrightarrow> ult_reach h s0 s'"

text \<open>The state a given schedule leads to, if every step of it goes on.\<close>

fun ult_run :: "ptr \<Rightarrow> nat list \<Rightarrow> shared \<Rightarrow> shared option" where
  "ult_run h [] s = Some s"
| "ult_run h (t # ts) s = (case ult_step h t s of Goes s' \<Rightarrow> ult_run h ts s' | _ \<Rightarrow> None)"

lemma ult_run_reach: "ult_reach h s0 s \<Longrightarrow> ult_run h ts s = Some s' \<Longrightarrow> ult_reach h s0 s'"
  by (induction ts arbitrary: s) (auto intro: ult_next split: progress.splits)

text \<open>At the start no ULT has done anything and the mutex is free.\<close>

definition fresh_ults :: "shared \<Rightarrow> bool" where
  "fresh_ults s \<longleftrightarrow> holder s = None
     \<and> (\<forall>t p. ults s t = Some p \<longrightarrow> (\<exists>b n offset. p = Writer b n offset \<or> p = Reader b n offset))"

section \<open>Small steps and the functions they make up\<close>

text \<open>What is left of a put whose loop is at \<open>i\<close>.\<close>

definition put_rest :: "ptr \<Rightarrow> i64 list \<Rightarrow> u64 \<Rightarrow> u64 \<Rightarrow> nat \<Rightarrow> Hoard heap \<Rightarrow> (i32 \<times> Hoard heap) option" where
  "put_rest h src n offset i hp = do {
     x \<leftarrow> h_load h hp;
     v \<leftarrow> put_loop (unat n - i) i offset src (m_hoard x);
     hp \<leftarrow> h_update h (\<lambda>x. x\<lparr>m_hoard := v\<rparr>) hp;
     Some (ucast n, hp) }"

lemma hoard_put_start: "hoard_put h src n offset hp = do { hp \<leftarrow> put_start h n offset hp; put_rest h src n offset 0 hp }"
  by (cases "h_load h hp") (simp_all add: hoard_put_def Hoard_put_def put_start_def put_rest_def)

lemma put_rest_one:
  assumes "i < unat n"
  shows "put_rest h src n offset i hp = do { hp \<leftarrow> put_one h src offset i hp; put_rest h src n offset (Suc i) hp }"
proof -
  from assms have n: "unat n - i = Suc (unat n - Suc i)" by simp
  show ?thesis
  proof (cases h)
    case (Some a)
    show ?thesis
    proof (cases "cells hp a")
      case x: (Some x)
      show ?thesis
      proof (cases "arr_get src i")
        case v: (Some v)
        show ?thesis
          by (cases "arr_set (m_hoard x) (unat (offset + of_nat i)) v") (simp_all add: put_rest_def put_one_def n Some x v)
      qed (simp add: put_rest_def put_one_def n Some x)
    qed (simp add: put_rest_def put_one_def n Some)
  qed (simp add: put_rest_def put_one_def)
qed

lemma put_rest_done:
  assumes "h_load h hp = Some x"
  shows "put_rest h src n offset (unat n) hp = Some (ucast n, hp)"
  using assms by (cases h) (auto simp: put_rest_def h_update_def fun_upd_idem)

lemma put_start_load: "put_start h n offset hp = Some hp' \<Longrightarrow> \<exists>x. h_load h hp' = Some x"
  by (cases h) (auto simp: put_start_def Hoard_resize_def h_update_def h_request_def Let_def bind_Some_iff split: if_splits)

lemma put_one_load: "put_one h src offset i hp = Some hp' \<Longrightarrow> \<exists>x. h_load h hp' = Some x"
  by (cases h) (auto simp: put_one_def h_update_def bind_Some_iff)

text \<open>So a ULT that runs without interruption does what \<open>dummy_io\<close> does.\<close>

lemma store_run:
  assumes "ult_reach h s0 s" and "ults s t = Some (Storing src n offset i)" and "i \<le> unat n"
    and "put_rest h src n offset i (hs s) = Some (r, hp)"
  shows "ult_reach h s0 (at t (Returned (scast r) src) (s\<lparr>hs := hp, holder := None\<rparr>))"
  using assms
proof (induction "unat n - i" arbitrary: i s)
  case 0
  then have i: "i = unat n" by simp
  obtain x where x: "h_load h (hs s) = Some x" using "0.prems"(4) by (auto simp: put_rest_def bind_Some_iff)
  have r: "r = ucast n" "hp = hs s" using "0.prems"(4) put_rest_done [OF x] unfolding i by auto
  have "ult_step h t s = Goes (at t (Returned (scast (ucast n :: i32)) src) (s\<lparr>holder := None\<rparr>))"
    using "0.prems"(2) i by (simp add: ult_step_def)
  from ult_next [OF "0.prems"(1) this] r show ?case by (simp add: fun_upd_def)
next
  case (Suc k)
  then have i: "i < unat n" by simp
  obtain hp1 where p: "put_one h src offset i (hs s) = Some hp1" "put_rest h src n offset (Suc i) hp1 = Some (r, hp)"
    using Suc.prems(4) unfolding put_rest_one [OF i] by (auto simp: bind_Some_iff)
  let ?s = "at t (Storing src n offset (Suc i)) (s\<lparr>hs := hp1\<rparr>)"
  have "ult_step h t s = Goes ?s" using Suc.prems(2) i p(1) by (simp add: ult_step_def goes_def)
  then have "ult_reach h s0 ?s" by (rule ult_next [OF Suc.prems(1)])
  then show ?case using Suc.hyps(1) [of "Suc i" ?s] Suc.hyps(2) i p(2) by simp
qed

lemma load_run:
  assumes "ult_reach h s0 s" and "ults s t = Some (Loading dest n offset i)" and "i \<le> unat n"
    and "h_load h (hs s) = Some x" and "get_loop (unat n - i) i offset (m_hoard x) dest = Some d"
  shows "ult_reach h s0 (at t (Returned (scast (ucast n :: i32)) d) s)"
  using assms
proof (induction "unat n - i" arbitrary: i s dest)
  case 0
  then have "ult_step h t s = Goes (at t (Returned (scast (ucast n :: i32)) d) s)" by (simp add: ult_step_def)
  then show ?case by (rule ult_next [OF "0.prems"(1)])
next
  case (Suc k)
  then have i: "i < unat n" and k: "unat n - i = Suc (unat n - Suc i)" by simp_all
  obtain d1 where d: "get_one h dest offset i (hs s) = Some d1" "get_loop (unat n - Suc i) (Suc i) offset (m_hoard x) d1 = Some d"
    using Suc.prems(4,5) unfolding k by (auto simp: bind_Some_iff get_one_def)
  let ?s = "at t (Loading d1 n offset (Suc i)) s"
  have "ult_step h t s = Goes ?s" using Suc.prems(2) i d(1) by (simp add: ult_step_def goes_def)
  then have "ult_reach h s0 ?s" by (rule ult_next [OF Suc.prems(1)])
  then show ?case using Suc.hyps(1) [of "Suc i" ?s d1] Suc.hyps(2) i d(2) Suc.prems(4) by simp
qed

lemma io_in_steps:
  assumes io: "dummy_io e ctx n offset scratch kind w = Some (r, scratch', w')" and c: "h_load ctx (ctxs w) = Some c"
    and s: "hs s = hoards w" "holder s = None"
    and t: "ults s t = Some ((if kind = CACHERCISE_WRITE then Writer else Reader) scratch (n div 8) offset)"
  shows "ult_reach (ctx_h c) s (at t (Returned r scratch') (s\<lparr>hs := hoards w'\<rparr>))"
proof (cases "kind = CACHERCISE_WRITE")
  case True
  obtain rp hp where put: "hoard_put (ctx_h c) scratch (n div 8) offset (hs s) = Some (rp, hp)"
    and r: "r = scast rp" "scratch' = scratch" "hoards w' = hp"
    using io c True s(1) by (auto simp: dummy_io_def bind_Some_iff)
  from put obtain hp0 where h: "put_start (ctx_h c) (n div 8) offset (hs s) = Some hp0"
    "put_rest (ctx_h c) scratch (n div 8) offset 0 hp0 = Some (rp, hp)"
    by (auto simp: hoard_put_start bind_Some_iff)
  let ?s1 = "at t (Locked scratch (n div 8) offset) (s\<lparr>holder := Some t\<rparr>)"
  let ?s2 = "at t (Storing scratch (n div 8) offset 0) (?s1\<lparr>hs := hp0\<rparr>)"
  have "ult_step (ctx_h c) t s = Goes ?s1" using t True s(2) by (simp add: ult_step_def)
  then have 1: "ult_reach (ctx_h c) s ?s1" by (rule ult_next [OF ult_refl])
  have "ult_step (ctx_h c) t ?s1 = Goes ?s2" using h(1) by (simp add: ult_step_def goes_def)
  then have "ult_reach (ctx_h c) s ?s2" by (rule ult_next [OF 1])
  from store_run [OF this, of t scratch "n div 8" offset 0 rp hp] h(2)
  have "ult_reach (ctx_h c) s (at t (Returned r scratch') (s\<lparr>hs := hp, holder := NULL\<rparr>))"
    by (simp add: r)
  moreover have "s\<lparr>holder := NULL\<rparr> = s" using s(2) by simp
  then have "s\<lparr>hs := hp, holder := NULL\<rparr> = s\<lparr>hs := hp\<rparr>" by (metis shared.update_convs(1,2) shared.surjective)
  ultimately show ?thesis using r(3) by simp
next
  case False
  obtain x d where x: "h_load (ctx_h c) (hs s) = Some x"
    "get_loop (unat (n div 8)) 0 offset (m_hoard x) scratch = Some d"
    and r: "r = scast (ucast (n div 8) :: i32)" "scratch' = d" "w' = w"
    using io c False s(1) by (auto simp: dummy_io_def hoard_get_def Hoard_get_def bind_Some_iff)
  let ?s1 = "at t (Loading scratch (n div 8) offset 0) s"
  have "ult_step (ctx_h c) t s = Goes ?s1" using t False by (simp add: ult_step_def)
  then have "ult_reach (ctx_h c) s ?s1" by (rule ult_next [OF ult_refl])
  from load_run [OF this, of t scratch "n div 8" offset 0 x d] x s(1)
  have "ult_reach (ctx_h c) s (at t (Returned r scratch') s)" by (simp add: r)
  moreover have "s\<lparr>hs := hoards w'\<rparr> = s" using s(1) by (simp add: r)
  ultimately show ?thesis by metis
qed

section \<open>One ULT after the other\<close>

text \<open>The puts of the given ULTs run one after the other, \<open>us\<close> has their arguments.\<close>

fun run_puts :: "ptr \<Rightarrow> (nat \<rightharpoonup> ult) \<Rightarrow> nat list \<Rightarrow> Hoard heap \<Rightarrow> Hoard heap option" where
  "run_puts h us [] hp = Some hp"
| "run_puts h us (t # ts) hp = (case us t of
      Some (Writer src n offset) \<Rightarrow> do { (r, hp) \<leftarrow> hoard_put h src n offset hp; run_puts h us ts hp }
    | _ \<Rightarrow> None)"

lemma run_puts_append: "run_puts h us (ts @ ts') hp = do { hp \<leftarrow> run_puts h us ts hp; run_puts h us ts' hp }"
proof (induction ts arbitrary: hp)
  case (Cons t ts)
  show ?case
  proof (cases "us t")
    case (Some p)
    show ?thesis
    proof (cases p)
      case (Writer src n offset)
      with Some Cons show ?thesis by (cases "hoard_put h src n offset hp") auto
    qed (simp_all add: Some)
  qed simp
qed simp

text \<open>The writers that have returned, with the result \<open>dummy_io\<close> gives and their buffer as it was.\<close>

definition finished :: "shared \<Rightarrow> shared \<Rightarrow> nat set" where
  "finished s0 s = {t. \<exists>src n offset. ults s0 t = Some (Writer src n offset)
      \<and> ults s t = Some (Returned (scast (ucast n :: i32)) src)}"

section \<open>The invariant\<close>

text \<open>\<open>well_placed q m t p\<close>: the ULT \<open>t\<close>, which began at \<open>q\<close>, may be at \<open>p\<close> when \<open>m\<close> holds the mutex.\<close>

fun well_placed :: "ult option \<Rightarrow> nat option \<Rightarrow> nat \<Rightarrow> ult \<Rightarrow> bool" where
  "well_placed q m t (Writer src n offset) \<longleftrightarrow> q = Some (Writer src n offset)"
| "well_placed q m t (Locked src n offset) \<longleftrightarrow> m = Some t \<and> q = Some (Writer src n offset)"
| "well_placed q m t (Storing src n offset i) \<longleftrightarrow> m = Some t \<and> q = Some (Writer src n offset)"
| "well_placed q m t (Reader dest n offset) \<longleftrightarrow> q = Some (Reader dest n offset)"
| "well_placed q m t (Loading dest n offset i) \<longleftrightarrow> (\<exists>d. q = Some (Reader d n offset))"
| "well_placed q m t (Returned r b) \<longleftrightarrow> (\<exists>d n offset. q = Some (Reader d n offset))
     \<or> (\<exists>n offset. q = Some (Writer b n offset) \<and> r = scast (ucast n :: i32))"

definition orderly :: "shared \<Rightarrow> shared \<Rightarrow> bool" where
  "orderly s0 s \<longleftrightarrow> (\<forall>t p. ults s t = Some p \<longrightarrow> well_placed (ults s0 t) (holder s) t p)"

text \<open>
  \<open>ts\<close> are the writers that have returned, in the order of their unlocks; the hoard is what they have left,
  or that with a part of the put of the holder of the mutex.
\<close>

definition put_done :: "ptr \<Rightarrow> nat \<Rightarrow> shared \<Rightarrow> Hoard heap \<Rightarrow> bool" where
  "put_done h t s base \<longleftrightarrow>
     (\<exists>src n offset. ults s t = Some (Locked src n offset) \<and> hs s = base)
   \<or> (\<exists>src n offset i x. ults s t = Some (Storing src n offset i) \<and> i \<le> unat n \<and> h_load h (hs s) = Some x
        \<and> put_rest h src n offset i (hs s) = hoard_put h src n offset base)"

definition serial :: "ptr \<Rightarrow> shared \<Rightarrow> shared \<Rightarrow> nat list \<Rightarrow> bool" where
  "serial h s0 s ts \<longleftrightarrow> distinct ts \<and> set ts = finished s0 s
     \<and> (\<exists>base. run_puts h (ults s0) ts (hs s0) = Some base
          \<and> (case holder s of None \<Rightarrow> hs s = base | Some t \<Rightarrow> put_done h t s base))"

text \<open>The steps that go on, one by one.\<close>

lemma goes_eq [simp]: "goes x = Goes s \<longleftrightarrow> x = Some s"
  by (cases x) (simp_all add: goes_def)

lemma ult_step_cases [consumes 1, case_names lock start store unlock read load done_]:
  assumes "ult_step h t s = Goes s'"
  obtains (lock) src n offset where "ults s t = Some (Writer src n offset)" "holder s = None"
      "s' = at t (Locked src n offset) (s\<lparr>holder := Some t\<rparr>)"
  | (start) src n offset hp where "ults s t = Some (Locked src n offset)" "put_start h n offset (hs s) = Some hp"
      "s' = at t (Storing src n offset 0) (s\<lparr>hs := hp\<rparr>)"
  | (store) src n offset i hp where "ults s t = Some (Storing src n offset i)" "i < unat n"
      "put_one h src offset i (hs s) = Some hp" "s' = at t (Storing src n offset (Suc i)) (s\<lparr>hs := hp\<rparr>)"
  | (unlock) src n offset i where "ults s t = Some (Storing src n offset i)" "\<not> i < unat n"
      "s' = at t (Returned (scast (ucast n :: i32)) src) (s\<lparr>holder := None\<rparr>)"
  | (read) dest n offset where "ults s t = Some (Reader dest n offset)" "s' = at t (Loading dest n offset 0) s"
  | (load) dest n offset i d where "ults s t = Some (Loading dest n offset i)" "i < unat n"
      "get_one h dest offset i (hs s) = Some d" "s' = at t (Loading d n offset (Suc i)) s"
  | (done_) dest n offset i where "ults s t = Some (Loading dest n offset i)" "\<not> i < unat n"
      "s' = at t (Returned (scast (ucast n :: i32)) dest) s"
  using assms by (auto simp: ult_step_def bind_Some_iff split: option.splits ult.splits if_splits)

lemma orderly_start: "fresh_ults s0 \<Longrightarrow> orderly s0 s0"
  unfolding orderly_def fresh_ults_def by fastforce

lemma orderlyD: "orderly s0 s \<Longrightarrow> ults s t = Some p \<Longrightarrow> well_placed (ults s0 t) (holder s) t p"
  by (simp add: orderly_def)

lemma well_placed_other:
  assumes "well_placed q m t p" and "m = Some t \<Longrightarrow> m' = Some t"
  shows "well_placed q m' t p"
  using assms by (cases p) auto

lemma orderly_at:
  assumes "orderly s0 s" and "ults s' = (ults s)(t \<mapsto> p)" and "well_placed (ults s0 t) (holder s') t p"
    and "\<And>u. u \<noteq> t \<Longrightarrow> holder s = Some u \<Longrightarrow> holder s' = Some u"
  shows "orderly s0 s'"
  unfolding orderly_def
proof (intro allI impI)
  fix u q
  assume q: "ults s' u = Some q"
  show "well_placed (ults s0 u) (holder s') u q"
  proof (cases "u = t")
    case False
    with q assms(2) orderlyD [OF assms(1), of u q] have "well_placed (ults s0 u) (holder s) u q" by simp
    then show ?thesis by (rule well_placed_other) (rule assms(4) [OF False])
  qed (use q assms(2,3) in auto)
qed

lemma orderly_step:
  assumes o: "orderly s0 s" and st: "ult_step h t s = Goes s'"
  shows "orderly s0 s'"
  using st
proof (cases rule: ult_step_cases)
  case (lock src n offset)
  with orderlyD [OF o lock(1)] show ?thesis by (intro orderly_at [OF o, of s' t]) auto
next
  case (start src n offset hp)
  with orderlyD [OF o start(1)] show ?thesis by (intro orderly_at [OF o, of s' t]) auto
next
  case (store src n offset i hp)
  with orderlyD [OF o store(1)] show ?thesis by (intro orderly_at [OF o, of s' t]) auto
next
  case (unlock src n offset i)
  with orderlyD [OF o unlock(1)] show ?thesis by (intro orderly_at [OF o, of s' t]) auto
next
  case (read dest n offset)
  with orderlyD [OF o read(1)] show ?thesis by (intro orderly_at [OF o, of s' t]) auto
next
  case (load dest n offset i d)
  with orderlyD [OF o load(1)] show ?thesis by (intro orderly_at [OF o, of s' t]) auto
next
  case (done_ dest n offset i)
  with orderlyD [OF o done_(1)] show ?thesis by (intro orderly_at [OF o, of s' t]) auto
qed

text \<open>A step that does not return leaves the set of the writers that have.\<close>

lemma finished_at:
  assumes "ults s' = (ults s)(t \<mapsto> p)" and "\<And>r b. p \<noteq> Returned r b" and "\<And>r b. ults s t \<noteq> Some (Returned r b)"
  shows "finished s0 s' = finished s0 s"
  using assms by (auto simp: finished_def)

lemma finished_reader:
  assumes "ults s' = (ults s)(t \<mapsto> p)" and "ults s0 t = Some (Reader d n offset)"
  shows "finished s0 s' = finished s0 s"
  using assms by (auto simp: finished_def)

lemma serial_step:
  assumes o: "orderly s0 s" and ser: "serial h s0 s ts" and st: "ult_step h t s = Goes s'"
  shows "\<exists>ts'. serial h s0 s' ts'"
proof -
  obtain base where b: "distinct ts" "set ts = finished s0 s" "run_puts h (ults s0) ts (hs s0) = Some base"
    "case holder s of None \<Rightarrow> hs s = base | Some t \<Rightarrow> put_done h t s base"
    using ser unfolding serial_def by blast
  have other: "\<exists>ts'. serial h s0 s' ts'"
    if f: "finished s0 s' = finished s0 s" and m: "case holder s' of None \<Rightarrow> hs s' = base | Some t \<Rightarrow> put_done h t s' base"
    using that b by (intro exI [of _ ts]) (simp add: serial_def)
  have reader: "\<exists>ts'. serial h s0 s' ts'"
    if r: "ults s' = (ults s)(t \<mapsto> p)" "ults s0 t = Some (Reader d n offset)" "hs s' = hs s" "holder s' = holder s" for p d n offset
  proof (rule other)
    show "finished s0 s' = finished s0 s" by (rule finished_reader [OF r(1,2)])
    have "holder s \<noteq> Some t \<or> \<not> put_done h t s base"
      using r(2) orderlyD [OF o, of t] by (fastforce simp: put_done_def)
    then have "put_done h u s' base \<longleftrightarrow> put_done h u s base" if "holder s = Some u" for u
      using that r b(4) by (auto simp: put_done_def)
    with b(4) r(3,4) show "case holder s' of None \<Rightarrow> hs s' = base | Some t \<Rightarrow> put_done h t s' base"
      by (auto split: option.splits)
  qed
  from st show ?thesis
  proof (cases rule: ult_step_cases)
    case (lock src n offset)
    then show ?thesis using b(4) by (intro other finished_at [where t = t]) (auto simp: put_done_def)
  next
    case (start src n offset hp)
    have m: "holder s = Some t" using orderlyD [OF o start(1)] by simp
    then have "hs s = base" using b(4) start(1) by (simp add: put_done_def)
    moreover obtain x where "h_load h hp = Some x" using put_start_load [OF start(2)] by blast
    ultimately show ?thesis using start m
      by (intro other finished_at [where t = t]) (auto simp: put_done_def hoard_put_start)
  next
    case (store src n offset i hp)
    have m: "holder s = Some t" using orderlyD [OF o store(1)] by simp
    then have "put_rest h src n offset i (hs s) = hoard_put h src n offset base"
      using b(4) store(1) by (simp add: put_done_def)
    moreover obtain x where "h_load h hp = Some x" using put_one_load [OF store(3)] by blast
    ultimately show ?thesis using store m put_rest_one [OF store(2), of h src offset "hs s"]
      by (intro other finished_at [where t = t]) (auto simp: put_done_def)
  next
    case (unlock src n offset i)
    have m: "holder s = Some t" "ults s0 t = Some (Writer src n offset)" using orderlyD [OF o unlock(1)] by simp_all
    obtain x where x: "i \<le> unat n" "h_load h (hs s) = Some x" "put_rest h src n offset i (hs s) = hoard_put h src n offset base"
      using b(4) unlock(1) m(1) by (auto simp: put_done_def)
    have "i = unat n" using x(1) unlock(2) by simp
    then have put: "hoard_put h src n offset base = Some (ucast n, hs s)"
      using x(3) put_rest_done [OF x(2)] by simp
    have "t \<notin> finished s0 s" using unlock(1) by (simp add: finished_def)
    moreover have "finished s0 s' = insert t (finished s0 s)"
      using unlock m(2) by (auto simp: finished_def)
    ultimately have "serial h s0 s' (ts @ [t])"
      using b(1-3) unlock(3) m(2) put by (simp add: serial_def run_puts_append)
    then show ?thesis by blast
  next
    case (read dest n offset)
    then show ?thesis using orderlyD [OF o read(1)] by (intro reader) auto
  next
    case (load dest n offset i d)
    moreover obtain d0 where "ults s0 t = Some (Reader d0 n offset)" using orderlyD [OF o load(1)] by auto
    ultimately show ?thesis by (intro reader) auto
  next
    case (done_ dest n offset i)
    moreover obtain d0 where "ults s0 t = Some (Reader d0 n offset)" using orderlyD [OF o done_(1)] by auto
    ultimately show ?thesis by (intro reader) auto
  qed
qed

lemma ult_reach_serial:
  assumes "ult_reach h s0 s" and "fresh_ults s0"
  shows "orderly s0 s \<and> (\<exists>ts. serial h s0 s ts)"
  using assms(1)
proof (induction rule: ult_reach.induct)
  case ult_refl
  have "finished s0 s0 = {}" using assms(2) by (fastforce simp: finished_def fresh_ults_def)
  then have "serial h s0 s0 []" using assms(2) by (simp add: serial_def fresh_ults_def)
  with orderly_start [OF assms(2)] show ?case by blast
next
  case (ult_next s t s')
  then show ?case using orderly_step serial_step by blast
qed

section \<open>What follows\<close>

lemma writers_serial:
  assumes "ult_reach h s0 s" and "fresh_ults s0" and "holder s = None"
  shows "\<exists>ts. distinct ts \<and> set ts = finished s0 s \<and> run_puts h (ults s0) ts (hs s0) = Some (hs s)"
  using ult_reach_serial [OF assms(1,2)] assms(3) by (auto simp: serial_def)

text \<open>The ULTs inside \<open>hoard_put\<close>.\<close>

definition putting :: "shared \<Rightarrow> nat \<Rightarrow> bool" where
  "putting s t \<longleftrightarrow> (case ults s t of Some (Locked src n offset) \<Rightarrow> True | Some (Storing src n offset i) \<Rightarrow> True | _ \<Rightarrow> False)"

lemma putting_holds:
  assumes "orderly s0 s" and "putting s t"
  shows "holder s = Some t"
proof -
  obtain p where p: "ults s t = Some p" using assms(2) by (cases "ults s t") (auto simp: putting_def)
  show ?thesis using assms(2) orderlyD [OF assms(1) p] p by (cases p) (auto simp: putting_def)
qed

lemma put_alone:
  assumes "ult_reach h s0 s" and "fresh_ults s0" and "putting s t" and "putting s u"
  shows "t = u"
  using putting_holds [of s0 s t] putting_holds [of s0 s u] ult_reach_serial [OF assms(1,2)] assms(3,4) by auto

lemma waits_iff: "ult_step h t s = Waits \<longleftrightarrow>
  (case ults s t of None \<Rightarrow> True | Some (Writer src n offset) \<Rightarrow> holder s \<noteq> None | Some (Returned r b) \<Rightarrow> True | _ \<Rightarrow> False)"
  by (auto simp: ult_step_def goes_def split: option.split ult.split)

lemma holder_goes:
  assumes "ult_reach h s0 s" and "fresh_ults s0" and "holder s = Some u"
  shows "putting s u"
  using ult_reach_serial [OF assms(1,2)] assms(3) by (auto simp: serial_def put_done_def putting_def)

lemma no_ult_stuck:
  assumes "ult_reach h s0 s" and "fresh_ults s0" and "ults s t = Some p" and "\<And>r b. p \<noteq> Returned r b"
  shows "\<exists>u. ult_step h u s \<noteq> Waits"
proof (cases "holder s")
  case None
  with assms(3,4) have "ult_step h t s \<noteq> Waits" by (cases p) (auto simp: waits_iff)
  then show ?thesis by blast
next
  case (Some u)
  have "putting s u" by (rule holder_goes [OF assms(1,2) Some])
  then have "ult_step h u s \<noteq> Waits" by (auto simp: waits_iff putting_def split: option.splits ult.splits)
  then show ?thesis by blast
qed

text \<open>
  The element the next step of a ULT writes or reads.  Two ULTs race when one writes the
  element the other reads: nothing orders the two accesses.
\<close>

definition writes_at :: "shared \<Rightarrow> nat \<Rightarrow> nat \<Rightarrow> bool" where
  "writes_at s t j \<longleftrightarrow> (case ults s t of
      Some (Storing src n offset i) \<Rightarrow> i < unat n \<and> j = unat (offset + of_nat i) | _ \<Rightarrow> False)"

definition reads_at :: "shared \<Rightarrow> nat \<Rightarrow> nat \<Rightarrow> bool" where
  "reads_at s t j \<longleftrightarrow> (case ults s t of
      Some (Loading dest n offset i) \<Rightarrow> i < unat n \<and> j = unat (offset + of_nat i) | _ \<Rightarrow> False)"

lemma write_read_race:
  assumes f: "fresh_ults s0" and t: "ults s0 t = Some (Writer src n offset)" and u: "ults s0 u = Some (Reader dest m offset)"
    and n: "0 < n" "0 < m" and hp: "put_start h n offset (hs s0) = Some hp"
  shows "\<exists>s. ult_reach h s0 s \<and> writes_at s t (unat offset) \<and> reads_at s u (unat offset)"
proof -
  have tu: "t \<noteq> u" using t u by auto
  let ?s1 = "at t (Locked src n offset) (s0\<lparr>holder := Some t\<rparr>)"
  let ?s2 = "at t (Storing src n offset 0) (?s1\<lparr>hs := hp\<rparr>)"
  let ?s3 = "at u (Loading dest m offset 0) ?s2"
  have "ult_step h t s0 = Goes ?s1" using f t by (simp add: ult_step_def fresh_ults_def)
  then have 1: "ult_reach h s0 ?s1" by (rule ult_next [OF ult_refl])
  have "ult_step h t ?s1 = Goes ?s2" using hp by (simp add: ult_step_def)
  then have 2: "ult_reach h s0 ?s2" by (rule ult_next [OF 1])
  have "ult_step h u ?s2 = Goes ?s3" using u tu by (simp add: ult_step_def)
  then have "ult_reach h s0 ?s3" by (rule ult_next [OF 2])
  moreover have "writes_at ?s3 t (unat offset)" "reads_at ?s3 u (unat offset)"
    using n tu by (simp_all add: writes_at_def reads_at_def word_less_nat_alt)
  ultimately show ?thesis by blast
qed

end
