(* ===== verification/Ult_Properties.thy ===== *)
theory Ult_Properties
  imports Ults Instance
begin

text \<open>
  The properties of requests that run at the same time, with two writers and a reader of one
  hoard as the instance.
\<close>

definition four :: "i64 list \<Rightarrow> Hoard heap" where
  "four v = plenty\<lparr>cells := [0 \<mapsto> \<lparr>m_hoard = v\<rparr>], brk := 1\<rparr>"

definition three_ults :: shared where
  "three_ults = \<lparr>hs = four [1, 2, 3, 4], holder = NULL,
     ults = [0 \<mapsto> Writer [5] 1 2, 1 \<mapsto> Writer [6] 1 2, 2 \<mapsto> Reader [0] 1 2]\<rparr>"

definition three_done :: shared where
  "three_done = \<lparr>hs = four [1, 2, 5, 4], holder = NULL,
     ults = [0 \<mapsto> Returned 1 [5], 1 \<mapsto> Returned 1 [6], 2 \<mapsto> Returned 1 [6]]\<rparr>"

lemma three_fresh: "fresh_ults three_ults"
  by (auto simp: fresh_ults_def three_ults_def split: if_splits)

text \<open>The writer 1 comes first; the reader sees its value before the mutex is free again.\<close>

lemma three_run: "ult_run (Some 0) [1, 2, 1, 1, 2, 2, 1, 0, 0, 0, 0] three_ults = Some three_done"
  by (simp add: three_ults_def three_done_def ult_step_def put_start_def put_one_def get_one_def goes_def four_def
      arr_set_def arr_get_def fun_upd_twist)

section \<open>Requests at the same time\<close>

text \<open>
  C12: the I/O function of the dummy backend under concurrency refines the sequential one
  for writes: however the ULTs of a cache interleave, element by element, as soon as the
  mutex is free the hoard is what the writers that have returned leave behind when they run one
  after the other, each with its own result.
\<close>

theorem concurrent_writes_serial:
  assumes "ult_reach h s0 s" and "fresh_ults s0" and "holder s = None"
  shows "\<exists>ts. distinct ts
    \<and> set ts = {t. \<exists>src n offset. ults s0 t = Some (Writer src n offset)
        \<and> ults s t = Some (Returned (scast (ucast n :: i32)) src)}
    \<and> run_puts h (ults s0) ts (hs s0) = Some (hs s)"
  using writers_serial [OF assms] unfolding finished_def .

lemma concurrent_writes_serial_witness:
  "\<exists>ts. distinct ts \<and> set ts = {0, 1} \<and> run_puts (Some 0) (ults three_ults) ts (four [1, 2, 3, 4]) = Some (four [1, 2, 5, 4])"
proof -
  have s: "holder three_done = None" "hs three_done = four [1, 2, 5, 4]" "hs three_ults = four [1, 2, 3, 4]"
    by (simp_all add: three_done_def three_ults_def)
  have f: "{t. \<exists>src n offset. ults three_ults t = Some (Writer src n offset)
        \<and> ults three_done t = Some (Returned (scast (ucast n :: i32)) src)} = {0, 1}"
    by (auto simp: three_ults_def three_done_def split: if_splits)
  show ?thesis
    using concurrent_writes_serial [OF ult_run_reach [OF ult_refl three_run] three_fresh s(1)] unfolding s f .
qed

text \<open>
  C14: no deadlock: as long as a ULT has not returned, some ULT does not wait, so that it goes on or
  its next access is undefined.
\<close>

theorem some_ult_goes:
  assumes "ult_reach h s0 s" and "fresh_ults s0" and "ults s t = Some p" and "\<And>r b. p \<noteq> Returned r b"
  shows "\<exists>u. ult_step h u s \<noteq> Waits"
  using assms by (rule no_ult_stuck)

lemma some_ult_goes_witness: "\<exists>u. ult_step (Some 0) u three_ults \<noteq> Waits"
  by (rule some_ult_goes [OF ult_refl three_fresh, of 0 "Writer [5] 1 2"]) (simp_all add: three_ults_def)

text \<open>
  C15: reads are not protected: a read and a write of the same element come to a point where
  both are the next step, which nothing orders.  In C++ that is a data race, and undefined.
\<close>

theorem unlocked_read_races:
  assumes "fresh_ults s0" and "ults s0 t = Some (Writer src n offset)" and "ults s0 u = Some (Reader dest m offset)"
    and "0 < n" and "0 < m" and "put_start h n offset (hs s0) = Some hp"
  shows "\<exists>s. ult_reach h s0 s \<and> writes_at s t (unat offset) \<and> reads_at s u (unat offset)"
  using assms by (rule write_read_race)

lemma unlocked_read_races_witness:
  "\<exists>s. ult_reach (Some 0) three_ults s \<and> writes_at s 0 2 \<and> reads_at s 2 2"
  using unlocked_read_races [OF three_fresh, of 0 "[5]" 1 2 2 "[0]" 1 "Some 0" "four [1, 2, 3, 4]"]
  by (simp add: three_ults_def put_start_def four_def)

end
