(* ===== verification/Uthash_Fsck.thy ===== *)
theory Uthash_Fsck
  imports Uthash_Inv
begin

text \<open>
  \<open>HASH_FSCK\<close> (\<open>src/uthash.h\<close>), the integrity check that the macros run after every
  insertion and deletion when \<open>HASH_DEBUG\<close> is defined.  \<open>HASH_OOPS\<close>, which prints a
  message and ends the process, is the result \<open>False\<close> here (\<open>Some None\<close> inside the
  loops); a dangling link, or a chain that never ends, is \<open>None\<close>.

  \<open>fsck_iff\<close> says exactly which memories pass; \<open>hash_ok_fsck\<close> that the invariant of the
  development is at least as strong, so that the check never fires between two
  operations.
\<close>

section \<open>The macro\<close>

text \<open>The \<open>while (_thh)\<close> loop over a bucket: the number of its items.\<close>

partial_function (option) FSCK_chain :: "ptr \<Rightarrow> ptr \<Rightarrow> u32 \<Rightarrow> 'b umem \<Rightarrow> u32 option option" where
  "FSCK_chain thh prev n m =
     (case thh of
        None \<Rightarrow> Some (Some n)
      | Some a \<Rightarrow> do {
          e \<leftarrow> h_load (Some a) (elts m);
          if prev \<noteq> hh_prev (hh e) then Some None
          else FSCK_chain (hh_next (hh e)) thh (n + 1) m })"

fun FSCK_buckets :: "UT_hash_bucket list \<Rightarrow> u32 \<Rightarrow> 'b umem \<Rightarrow> u32 option option" where
  "FSCK_buckets [] cnt m = Some (Some cnt)"
| "FSCK_buckets (b # bs) cnt m = do {
     r \<leftarrow> FSCK_chain (hh_head b) NULL 0 m;
     (case r of
        None \<Rightarrow> Some None
      | Some n \<Rightarrow> if count b \<noteq> n then Some None else FSCK_buckets bs (cnt + n) m) }"

text \<open>The loop over the list in application order.\<close>

partial_function (option) FSCK_list :: "ptr \<Rightarrow> ptr \<Rightarrow> u32 \<Rightarrow> 'b umem \<Rightarrow> u32 option option" where
  "FSCK_list thh prev n m =
     (case thh of
        None \<Rightarrow> Some (Some n)
      | Some a \<Rightarrow> do {
          e \<leftarrow> h_load (Some a) (elts m);
          if prev \<noteq> app_prev (hh e) then Some None
          else FSCK_list (app_next (hh e)) thh (n + 1) m })"

definition HASH_FSCK :: "ptr \<Rightarrow> 'b umem \<Rightarrow> bool option" where
  "HASH_FSCK head m =
     (if head = NULL then Some True
      else do {
        t \<leftarrow> the_tbl head m;
        if length (buckets t) < unat (num_buckets t) then None
        else do {
          r \<leftarrow> FSCK_buckets (take (unat (num_buckets t)) (buckets t)) 0 m;
          (case r of
             None \<Rightarrow> Some False
           | Some n \<Rightarrow>
               if n \<noteq> num_items t then Some False
               else do {
                 r \<leftarrow> FSCK_list head NULL 0 m;
                 (case r of
                    None \<Rightarrow> Some False
                  | Some n \<Rightarrow> Some (n = num_items t)) }) } })"

section \<open>What passes\<close>

definition live_dll :: "'b umem \<Rightarrow> (UT_hash_handle \<Rightarrow> ptr) \<Rightarrow> (UT_hash_handle \<Rightarrow> ptr) \<Rightarrow> ptr \<Rightarrow> addr list \<Rightarrow> bool" where
  "live_dll m nx pv p c \<longleftrightarrow> (\<forall>a \<in> set c. live m a) \<and> dll (\<lambda>a. nx (hnd m a)) (\<lambda>a. pv (hnd m a)) p c"

definition fsck_bucket :: "'b umem \<Rightarrow> UT_hash_bucket \<Rightarrow> addr list \<Rightarrow> bool" where
  "fsck_bucket m b c \<longleftrightarrow> hh_head b = hdp c \<and> count b = of_nat (length c) \<and> live_dll m hh_next hh_prev None c"

text \<open>
  Every bucket is the head of a well linked chain with as many items as it counts, the
  list from \<open>h\<close> is well linked, and both have as many items as the table
  counts, modulo \<open>2 ^ 32\<close>.
\<close>

definition fsck_spec :: "addr \<Rightarrow> 'b umem \<Rightarrow> bool" where
  "fsck_spec h m \<longleftrightarrow> (\<exists>t cs xs. the_tbl (Some h) m = Some t \<and> unat (num_buckets t) \<le> length (buckets t)
     \<and> list_all2 (fsck_bucket m) (take (unat (num_buckets t)) (buckets t)) cs
     \<and> num_items t = of_nat (length (concat cs))
     \<and> hdp xs = Some h \<and> live_dll m app_next app_prev None xs \<and> num_items t = of_nat (length xs))"

lemma live_dll_simps [simp]:
  "live_dll m nx pv p []"
  "live_dll m nx pv p (a # c) \<longleftrightarrow>
     live m a \<and> pv (hnd m a) = p \<and> nx (hnd m a) = hdp c \<and> live_dll m nx pv (Some a) c"
  by (auto simp: live_dll_def)

lemma FSCK_chain_sound:
  fixes m :: "'b umem"
  assumes "FSCK_chain thh p n m = Some (Some k)"
  shows "\<exists>c. thh = hdp c \<and> live_dll m hh_next hh_prev p c \<and> k = n + of_nat (length c)"
proof -
  define P where "P thh p n m r \<longleftrightarrow> (\<forall>k. r = Some k \<longrightarrow>
     (\<exists>c. thh = hdp c \<and> live_dll m hh_next hh_prev p c \<and> k = n + of_nat (length c)))"
    for thh p and n :: u32 and m :: "'b umem" and r
  have "P thh p n m (Some k)"
  proof (rule FSCK_chain.raw_induct [OF _ assms])
    fix f and thh p :: ptr and n :: u32 and m :: "'b umem" and r
    assume IH: "\<And>thh p n m r. f thh p n m = Some r \<Longrightarrow> P thh p n m r"
      and body: "(case thh of None \<Rightarrow> Some (Some n)
      | Some a \<Rightarrow> do {
          e \<leftarrow> h_load (Some a) (elts m);
          if p \<noteq> hh_prev (hh e) then Some None
          else f (hh_next (hh e)) thh (n + 1) m }) = Some r"
    show "P thh p n m r"
    proof (cases thh)
      case None
      with body show ?thesis by (auto simp: P_def intro: exI [of _ "[]"])
    next
      case (Some a)
      show ?thesis
        unfolding P_def
      proof (intro allI impI)
        fix k assume r: "r = Some k"
        with body Some have a: "live m a" "hh_prev (hnd m a) = p"
          and f: "f (hh_next (hnd m a)) (Some a) (n + 1) m = Some (Some k)"
          by (auto simp: load_elt_if simp del: h_load_simps(2) split: if_splits)
        from IH [OF f] obtain c where "hh_next (hnd m a) = hdp c"
          "live_dll m hh_next hh_prev (Some a) c" "k = n + 1 + of_nat (length c)"
          unfolding P_def by auto
        with a Some show "\<exists>c. thh = hdp c \<and> live_dll m hh_next hh_prev p c
            \<and> k = n + of_nat (length c)"
          by (intro exI [of _ "a # c"]) simp
      qed
    qed
  qed
  then show ?thesis by (simp add: P_def)
qed

lemma FSCK_list_sound:
  fixes m :: "'b umem"
  assumes "FSCK_list thh p n m = Some (Some k)"
  shows "\<exists>c. thh = hdp c \<and> live_dll m app_next app_prev p c \<and> k = n + of_nat (length c)"
proof -
  define P where "P thh p n m r \<longleftrightarrow> (\<forall>k. r = Some k \<longrightarrow>
     (\<exists>c. thh = hdp c \<and> live_dll m app_next app_prev p c \<and> k = n + of_nat (length c)))"
    for thh p and n :: u32 and m :: "'b umem" and r
  have "P thh p n m (Some k)"
  proof (rule FSCK_list.raw_induct [OF _ assms])
    fix f and thh p :: ptr and n :: u32 and m :: "'b umem" and r
    assume IH: "\<And>thh p n m r. f thh p n m = Some r \<Longrightarrow> P thh p n m r"
      and body: "(case thh of None \<Rightarrow> Some (Some n)
      | Some a \<Rightarrow> do {
          e \<leftarrow> h_load (Some a) (elts m);
          if p \<noteq> app_prev (hh e) then Some None
          else f (app_next (hh e)) thh (n + 1) m }) = Some r"
    show "P thh p n m r"
    proof (cases thh)
      case None
      with body show ?thesis by (auto simp: P_def intro: exI [of _ "[]"])
    next
      case (Some a)
      show ?thesis
        unfolding P_def
      proof (intro allI impI)
        fix k assume r: "r = Some k"
        with body Some have a: "live m a" "app_prev (hnd m a) = p"
          and f: "f (app_next (hnd m a)) (Some a) (n + 1) m = Some (Some k)"
          by (auto simp: load_elt_if simp del: h_load_simps(2) split: if_splits)
        from IH [OF f] obtain c where "app_next (hnd m a) = hdp c"
          "live_dll m app_next app_prev (Some a) c" "k = n + 1 + of_nat (length c)"
          unfolding P_def by auto
        with a Some show "\<exists>c. thh = hdp c \<and> live_dll m app_next app_prev p c
            \<and> k = n + of_nat (length c)"
          by (intro exI [of _ "a # c"]) simp
      qed
    qed
  qed
  then show ?thesis by (simp add: P_def)
qed

lemma FSCK_chain_complete:
  "live_dll m hh_next hh_prev p c \<Longrightarrow> FSCK_chain (hdp c) p n m = Some (Some (n + of_nat (length c)))"
proof (induction c arbitrary: p n)
  case Nil
  then show ?case by (simp add: FSCK_chain.simps)
next
  case (Cons a c)
  from Cons.prems Cons.IH [of "Some a" "n + 1"] show ?case
    by (subst FSCK_chain.simps) (simp add: load_elt add.assoc del: h_load_simps(2))
qed

lemma FSCK_list_complete:
  "live_dll m app_next app_prev p c \<Longrightarrow> FSCK_list (hdp c) p n m = Some (Some (n + of_nat (length c)))"
proof (induction c arbitrary: p n)
  case Nil
  then show ?case by (simp add: FSCK_list.simps)
next
  case (Cons a c)
  from Cons.prems Cons.IH [of "Some a" "n + 1"] show ?case
    by (subst FSCK_list.simps) (simp add: load_elt add.assoc del: h_load_simps(2))
qed

lemma FSCK_buckets_sound:
  "FSCK_buckets bs cnt m = Some (Some k) \<Longrightarrow>
     \<exists>cs. list_all2 (fsck_bucket m) bs cs \<and> k = cnt + of_nat (length (concat cs))"
proof (induction bs arbitrary: cnt)
  case Nil
  then show ?case by (intro exI [of _ "[]"]) simp
next
  case (Cons b bs)
  from Cons.prems obtain r where r: "FSCK_chain (hh_head b) NULL 0 m = Some r"
    by (cases "FSCK_chain (hh_head b) NULL 0 m") auto
  with Cons.prems obtain n where n: "r = Some n" "count b = n" "FSCK_buckets bs (cnt + n) m = Some (Some k)"
    by (cases r) (auto split: if_splits)
  from FSCK_chain_sound [OF r [unfolded n(1)]] obtain c where
    "hh_head b = hdp c" "live_dll m hh_next hh_prev NULL c" "n = of_nat (length c)" by auto
  moreover from Cons.IH [OF n(3)] obtain cs where
    "list_all2 (fsck_bucket m) bs cs" "k = cnt + n + of_nat (length (concat cs))" by blast
  ultimately show ?case using n(2)
    by (intro exI [of _ "c # cs"]) (simp add: fsck_bucket_def [of m b c])
qed

lemma FSCK_buckets_complete:
  "list_all2 (fsck_bucket m) bs cs \<Longrightarrow>
     FSCK_buckets bs cnt m = Some (Some (cnt + of_nat (length (concat cs))))"
proof (induction bs cs arbitrary: cnt rule: list_all2_induct)
  case (Cons b bs c cs)
  then have b: "hh_head b = hdp c" "count b = of_nat (length c)" "live_dll m hh_next hh_prev NULL c"
    by (simp_all add: fsck_bucket_def)
  with Cons.IH [of "cnt + of_nat (length c)"] FSCK_chain_complete [OF b(3), of 0] show ?case
    by (simp add: add.assoc)
qed simp

lemma fsck_iff_spec: "HASH_FSCK (Some h) m = Some True \<longleftrightarrow> fsck_spec h m"
proof
  assume chk: "HASH_FSCK (Some h) m = Some True"
  then obtain t where t: "the_tbl (Some h) m = Some t"
    by (cases "the_tbl (Some h) m") (auto simp: HASH_FSCK_def)
  let ?bs = "take (unat (num_buckets t)) (buckets t)"
  from chk t have len: "unat (num_buckets t) \<le> length (buckets t)"
    by (auto simp: HASH_FSCK_def split: if_splits)
  from chk t len obtain r where r: "FSCK_buckets ?bs 0 m = Some (Some r)" "r = num_items t"
    by (auto simp: HASH_FSCK_def bind_Some_iff not_less split: option.splits if_splits)
  from chk t len r obtain k where k: "FSCK_list (Some h) NULL 0 m = Some (Some k)" "k = num_items t"
    by (auto simp: HASH_FSCK_def bind_Some_iff not_less split: option.splits if_splits)
  from FSCK_buckets_sound [OF r(1)] obtain cs where
    "list_all2 (fsck_bucket m) ?bs cs" "r = of_nat (length (concat cs))" by auto
  then have cs: "list_all2 (fsck_bucket m) ?bs cs" "num_items t = of_nat (length (concat cs))"
    using r(2) by simp_all
  from FSCK_list_sound [OF k(1)] obtain xs where
    "Some h = hdp xs" "live_dll m app_next app_prev NULL xs" "k = of_nat (length xs)" by auto
  then have xs: "hdp xs = Some h" "live_dll m app_next app_prev NULL xs" "num_items t = of_nat (length xs)"
    using k(2) by simp_all
  show "fsck_spec h m"
    unfolding fsck_spec_def
    by (intro exI [of _ t] exI [of _ cs] exI [of _ xs] conjI t len cs xs)
next
  assume "fsck_spec h m"
  then obtain t cs xs where s: "the_tbl (Some h) m = Some t" "unat (num_buckets t) \<le> length (buckets t)"
    "list_all2 (fsck_bucket m) (take (unat (num_buckets t)) (buckets t)) cs"
    "num_items t = of_nat (length (concat cs))"
    "hdp xs = Some h" "live_dll m app_next app_prev None xs" "num_items t = of_nat (length xs)"
    unfolding fsck_spec_def by blast
  have "FSCK_list (Some h) NULL 0 m = Some (Some (num_items t))"
    using FSCK_list_complete [OF s(6), of 0] unfolding s(5,7) by simp
  moreover have "FSCK_buckets (take (unat (num_buckets t)) (buckets t)) 0 m = Some (Some (num_items t))"
    using FSCK_buckets_complete [OF s(3), of 0] unfolding s(4) by simp
  moreover have "\<not> length (buckets t) < unat (num_buckets t)" using s(2) by (rule leD)
  ultimately show "HASH_FSCK (Some h) m = Some True"
    unfolding HASH_FSCK_def s(1) by simp
qed

section \<open>The invariant passes\<close>

lemma sum_bucket_sizes:
  assumes cs: "chains_ok m n bs X cs" and fin: "finite X"
    and bound: "\<And>a. a \<in> X \<Longrightarrow> bidx n m a < length bs"
  shows "length (concat cs) = card X"
proof -
  have len: "length cs = length bs" using cs by (simp add: chains_ok_def)
  have c: "length (cs ! i) = card {a \<in> X. bidx n m a = i}" if "i < length bs" for i
  proof -
    have "distinct (cs ! i)" "set (cs ! i) = {a \<in> X. bidx n m a = i}"
      using cs that by (auto simp: chains_ok_def chain_ok_def)
    then show ?thesis using distinct_card [of "cs ! i"] by simp
  qed
  have "length (concat cs) = (\<Sum>i < length bs. length (cs ! i))"
    by (simp add: length_concat sum_list_sum_nth len atLeast0LessThan)
  also have "\<dots> = (\<Sum>i < length bs. card {a \<in> X. bidx n m a = i})" using c by simp
  also have "\<dots> = card (\<Union>i < length bs. {a \<in> X. bidx n m a = i})"
    using fin by (subst card_UN_disjoint) auto
  also have "(\<Union>i < length bs. {a \<in> X. bidx n m a = i}) = X" using bound by auto
  finally show ?thesis .
qed

lemma hash_ok_fsck:
  assumes ok: "hash_ok head m xs"
  shows "HASH_FSCK head m = Some True"
proof (cases xs)
  case Nil
  then show ?thesis using hash_okD(1) [OF ok] by (simp add: HASH_FSCK_def)
next
  case (Cons h ys)
  then have ne: "xs \<noteq> []" and h: "head = Some h" "h \<in> set xs" "hdp xs = Some h"
    using hash_okD(1) [OF ok] by auto
  obtain tp t cs where t: "tblf m tp = Some t" "\<And>a. a \<in> set xs \<Longrightarrow> handle_ok m tp a"
    "app_ok m xs" "table_geom t" "tail t = Some (last xs)" "num_items t = of_nat (length xs)"
    "chains_ok m (num_buckets t) (buckets t) (set xs) cs"
    using ok ne by (rule hash_ok_tblE) blast
  have "unat (num_buckets t) = length (buckets t)"
    using t(4) unat_two_power [of "unat (log2_num_buckets t)", where 'a = 32]
    by (simp add: table_geom_def)
  then have tk: "take (unat (num_buckets t)) (buckets t) = buckets t" by simp
  have "length (concat cs) = length xs"
    using sum_bucket_sizes [OF t(7)] bidx_less [OF t(4)] distinct_card [OF hash_okD(2) [OF ok]]
    by (simp add: bidx_def)
  moreover have "list_all2 (fsck_bucket m) (buckets t) cs"
    unfolding list_all2_conv_all_nth
    using t(7) hash_okD(6) [OF ok]
    by (auto simp: chains_ok_def chain_ok_def fsck_bucket_def live_dll_def)
  moreover have "live_dll m app_next app_prev None xs"
    using t(3) hash_okD(6) [OF ok] by (simp add: live_dll_def app_ok_def)
  moreover have "the_tbl (Some h) m = Some t"
    using t(1) t(2) [OF h(2)] by (simp add: handle_ok_def the_tbl_live)
  ultimately have "fsck_spec h m"
    unfolding fsck_spec_def
    using h(3) t(6) \<open>unat (num_buckets t) = length (buckets t)\<close> tk
    by (intro exI [of _ t] exI [of _ cs] exI [of _ xs]) simp
  then show ?thesis using fsck_iff_spec h(1) by blast
qed

end
