(* ===== verification/Merge_Runs.thy ===== *)
theory Merge_Runs
  imports Main "HOL-Library.Sorting_Algorithms"
begin

text \<open>
  Bottom-up mergesort on lists, the algorithm that \<open>HASH_SRT\<close> performs on the linked
  list of the hash: one round merges neighbouring runs of length \<open>k\<close>, the next one
  runs of twice that length.  A list whose runs are sorted has longer sorted runs
  after a round, and a round neither loses elements nor swaps equivalent ones, so
  the rounds end in the stable sort of the library.
\<close>

function merge_pass :: "'a comparator \<Rightarrow> nat \<Rightarrow> 'a list \<Rightarrow> 'a list" where
  "merge_pass C k xs =
     (if xs = [] \<or> k = 0 then []
      else Sorting_Algorithms.merge C (take k xs) (take k (drop k xs))
             @ merge_pass C k (drop (2 * k) xs))"
  by pat_completeness auto
termination
  by (relation "measure (\<lambda>(C, k, xs). length xs)") auto

declare merge_pass.simps [simp del]

lemma merge_pass_Nil [simp]: "merge_pass C k [] = []"
  by (simp add: merge_pass.simps)

lemma merge_pass_step:
  "xs \<noteq> [] \<Longrightarrow> 0 < k \<Longrightarrow> merge_pass C k xs =
     Sorting_Algorithms.merge C (take k xs) (take k (drop k xs)) @ merge_pass C k (drop (2 * k) xs)"
  by (subst merge_pass.simps) simp

function sorted_runs :: "'a comparator \<Rightarrow> nat \<Rightarrow> 'a list \<Rightarrow> bool" where
  "sorted_runs C k xs \<longleftrightarrow>
     (if xs = [] \<or> k = 0 then xs = []
      else sorted C (take k xs) \<and> sorted_runs C k (drop k xs))"
  by pat_completeness auto
termination
  by (relation "measure (\<lambda>(C, k, xs). length xs)") auto

declare sorted_runs.simps [simp del]

lemma sorted_runs_Nil [simp]: "sorted_runs C k []"
  by (simp add: sorted_runs.simps)

lemma sorted_runs_step:
  "xs \<noteq> [] \<Longrightarrow> 0 < k \<Longrightarrow>
     sorted_runs C k xs \<longleftrightarrow> sorted C (take k xs) \<and> sorted_runs C k (drop k xs)"
  by (subst sorted_runs.simps) simp

lemma sorted_runs_1: "sorted_runs C 1 xs"
proof (induction xs)
  case (Cons x xs)
  then show ?case by (subst sorted_runs_step) simp_all
qed simp

lemma sorted_runs_short:
  assumes "sorted_runs C k xs" and "length xs \<le> k"
  shows "sorted C xs"
proof (cases "xs = []")
  case False
  with assms(2) have "0 < k" by (cases k) auto
  with False assms show ?thesis by (simp add: sorted_runs_step)
qed simp

lemma sorted_runs_long:
  assumes "sorted C xs" and "length xs \<le> k"
  shows "sorted_runs C k xs"
proof (cases "xs = []")
  case False
  with assms(2) have "0 < k" by (cases k) auto
  with False assms show ?thesis by (subst sorted_runs_step) simp_all
qed simp

text \<open>The two runs that a round merges first.\<close>

lemma sorted_runs_two:
  assumes "sorted_runs C k xs" and "xs \<noteq> []" and "0 < k"
  shows "sorted C (take k xs)" "sorted C (take k (drop k xs))" "sorted_runs C k (drop (2 * k) xs)"
proof -
  from assms show "sorted C (take k xs)" by (simp add: sorted_runs_step)
  from assms have r: "sorted_runs C k (drop k xs)" by (simp add: sorted_runs_step)
  have "sorted C (take k (drop k xs)) \<and> sorted_runs C k (drop (k + k) xs)"
  proof (cases "drop k xs = []")
    case True
    then have "drop (k + k) xs = []" by simp
    with True show ?thesis by (simp del: drop_eq_Nil)
  next
    case False
    with r assms(3) show ?thesis by (simp add: sorted_runs_step)
  qed
  then show "sorted C (take k (drop k xs))" "sorted_runs C k (drop (2 * k) xs)"
    by (simp_all add: mult_2)
qed

lemma split_two:
  "take k xs @ take k (drop k xs) @ drop (2 * k) xs = xs"
  by (metis append_take_drop_id drop_drop mult_2)

lemma length_merge: "length (Sorting_Algorithms.merge C xs ys) = length xs + length ys"
  by (metis mset_merge size_mset size_union)

lemma mset_merge_pass: "0 < k \<Longrightarrow> mset (merge_pass C k xs) = mset xs"
proof (induction C k xs rule: merge_pass.induct)
  case (1 C k xs)
  show ?case
  proof (cases "xs = []")
    case False
    have "mset (merge_pass C k xs) =
        mset (take k xs) + mset (take k (drop k xs)) + mset (drop (2 * k) xs)"
      using 1 False by (simp add: merge_pass_step mset_merge)
    also have "\<dots> = mset (take k xs @ take k (drop k xs) @ drop (2 * k) xs)" by simp
    finally show ?thesis by (simp only: split_two)
  qed simp
qed

lemma length_merge_pass: "0 < k \<Longrightarrow> length (merge_pass C k xs) = length xs"
  by (metis mset_merge_pass size_mset)

lemma set_merge_pass: "0 < k \<Longrightarrow> set (merge_pass C k xs) = set xs"
  by (metis mset_merge_pass set_mset_mset)

lemma sorted_runs_merge_pass:
  "sorted_runs C k xs \<Longrightarrow> 0 < k \<Longrightarrow> sorted_runs C (2 * k) (merge_pass C k xs)"
proof (induction C k xs rule: merge_pass.induct)
  case (1 C k xs)
  show ?case
  proof (cases "xs = []")
    case False
    note two = sorted_runs_two [OF 1(2) False 1(3)]
    let ?m = "Sorting_Algorithms.merge C (take k xs) (take k (drop k xs))"
    have m: "sorted C ?m" using two by (simp add: sorted_merge)
    have eq: "merge_pass C k xs = ?m @ merge_pass C k (drop (2 * k) xs)"
      using False 1(3) by (rule merge_pass_step)
    show ?thesis
    proof (cases "2 * k \<le> length xs")
      case True
      then have len: "length ?m = 2 * k" by (simp add: length_merge)
      then have "?m \<noteq> []" using 1(3) by (metis length_0_conv mult_eq_0_iff not_gr0 zero_neq_numeral)
      then show ?thesis using 1 False m two len by (simp add: eq sorted_runs_step)
    next
      case False
      then have "merge_pass C k xs = ?m" by (simp add: eq)
      moreover have "length ?m \<le> 2 * k" by (simp add: length_merge)
      ultimately show ?thesis using m by (simp add: sorted_runs_long)
    qed
  qed simp
qed

lemma stable_merge_pass:
  "sorted_runs C k xs \<Longrightarrow> 0 < k \<Longrightarrow>
     stable_segment C l (merge_pass C k xs) = stable_segment C l xs"
proof (induction C k xs rule: merge_pass.induct)
  case (1 C k xs)
  show ?case
  proof (cases "xs = []")
    case False
    note two = sorted_runs_two [OF 1(2) False 1(3)]
    have "stable_segment C l (merge_pass C k xs) =
        stable_segment C l (take k xs) @ stable_segment C l (take k (drop k xs))
          @ stable_segment C l (drop (2 * k) xs)"
      using 1 False two by (simp add: merge_pass_step filter_merge merge_stable_segments)
    also have "\<dots> = stable_segment C l (take k xs @ take k (drop k xs) @ drop (2 * k) xs)" by simp
    finally show ?thesis by (simp only: split_two)
  qed simp
qed

text \<open>A list that is one sorted run, has the elements of \<open>xs\<close> and keeps their order is the sort of \<open>xs\<close>.\<close>

lemma one_run_is_sort:
  assumes "mset ys = mset xs" and "\<And>l. stable_segment C l ys = stable_segment C l xs"
    and "sorted_runs C k ys" and "length ys \<le> k"
  shows "ys = sort C xs"
  using assms by (intro sort_eqI [symmetric]) (auto intro: sorted_runs_short)

text \<open>The number of merges in a round.\<close>

definition merges :: "nat \<Rightarrow> nat \<Rightarrow> nat" where
  "merges k n = (n + 2 * k - 1) div (2 * k)"

lemma merges_0 [simp]: "0 < k \<Longrightarrow> merges k 0 = 0"
  by (simp add: merges_def)

lemma merges_step:
  assumes "0 < k" and "0 < n"
  shows "merges k n = Suc (merges k (n - 2 * k))"
proof -
  obtain j where j: "n = Suc j" using assms(2) by (cases n) auto
  then have n: "merges k n = Suc (j div (2 * k))"
    using assms(1) div_add_self2 [of "2 * k" j] by (simp add: merges_def)
  have "merges k (n - 2 * k) = j div (2 * k)"
  proof (cases "2 * k \<le> n")
    case True
    then show ?thesis by (simp add: merges_def j)
  next
    case False
    then show ?thesis using assms(1) by (simp add: j)
  qed
  with n show ?thesis by simp
qed

lemma merges_le_1: "0 < k \<Longrightarrow> merges k n \<le> 1 \<longleftrightarrow> n \<le> 2 * k"
proof
  assume k: "0 < k" and "merges k n \<le> 1"
  show "n \<le> 2 * k"
  proof (rule ccontr)
    assume "\<not> n \<le> 2 * k"
    then have "merges k n = Suc (Suc (merges k (n - 2 * k - 2 * k)))"
      using k by (simp add: merges_step)
    with \<open>merges k n \<le> 1\<close> show False by simp
  qed
next
  assume k: "0 < k" and "n \<le> 2 * k"
  then show "merges k n \<le> 1"
    by (cases "n = 0") (simp_all add: merges_step)
qed

lemma merges_le: "0 < k \<Longrightarrow> merges k n \<le> n"
proof (induction n rule: less_induct)
  case (less n)
  show ?case
  proof (cases "n = 0")
    case False
    then have "merges k n = Suc (merges k (n - 2 * k))" using less.prems by (simp add: merges_step)
    also have "merges k (n - 2 * k) \<le> n - 2 * k" using less False by simp
    finally show ?thesis using False less.prems by linarith
  qed (use less in simp)
qed

end
