(* ===== verification/Uthash_Sort.thy ===== *)
theory Uthash_Sort
  imports Merge_Runs Uthash_Inv
begin

text \<open>
  \<open>HASH_SRT\<close> (\<open>src/uthash.h\<close>), the bottom-up mergesort of the list in application
  order.  A round of the outer loop cuts the list into runs of \<open>insize\<close> elements and
  merges them pairwise by relinking \<open>next\<close> and \<open>prev\<close>; \<open>insize\<close> doubles until a round
  has made at most one merge.

  The comparison \<open>cmpfcn\<close> is the argument of the macro, a function of the two
  addresses; it does not look at the links, which are being changed.  The loops are
  \<open>partial_function\<close>s, so that not coming to an end is the value \<open>None\<close>; that they do,
  although \<open>insize\<close> is an \<open>unsigned\<close> that doubles, is part of the theorem
  about \<open>HASH_SRT\<close>, which also says that the list becomes its stable sort and that
  the hash stays intact.
\<close>

section \<open>The macro\<close>

text \<open>\<open>(p->next != NULL) ? HH_FROM_ELMT(p->next) : NULL\<close>.\<close>

definition srt_next :: "ptr \<Rightarrow> 'b umem \<Rightarrow> ptr option" where
  "srt_next p m = do { e \<leftarrow> h_load p (elts m); Some (app_next (hh e)) }"

text \<open>The \<open>for\<close> loop that finds the start \<open>q\<close> of the second run; \<open>n\<close> is \<open>insize - i\<close>.\<close>

fun srt_skip :: "nat \<Rightarrow> u32 \<Rightarrow> ptr \<Rightarrow> 'b umem \<Rightarrow> (u32 \<times> ptr) option" where
  "srt_skip 0 psize q m = Some (psize, q)"
| "srt_skip (Suc n) psize q m = do {
     q \<leftarrow> srt_next q m;
     if q = NULL then Some (psize + 1, q) else srt_skip n (psize + 1) q m }"

text \<open>The next element \<open>e\<close> of the merged run and what is left of both runs.\<close>

definition srt_take ::
  "(addr \<Rightarrow> addr \<Rightarrow> i32) \<Rightarrow> ptr \<Rightarrow> u32 \<Rightarrow> ptr \<Rightarrow> u32 \<Rightarrow> 'b umem
    \<Rightarrow> (ptr \<times> ptr \<times> u32 \<times> ptr \<times> u32) option" where
  "srt_take cmpfcn p psize q qsize m =
     (if psize = 0 then do { q' \<leftarrow> srt_next q m; Some (q, p, psize, q', qsize - 1) }
      else if qsize = 0 \<or> q = NULL then do {
        p' \<leftarrow> (if p = NULL then Some NULL else srt_next p m);
        Some (p, p', psize - 1, q, qsize) }
      else do {
        a \<leftarrow> p; b \<leftarrow> q;
        if sint (cmpfcn a b) \<le> 0
        then do { p' \<leftarrow> srt_next p m; Some (p, p', psize - 1, q, qsize) }
        else do { q' \<leftarrow> srt_next q m; Some (q, p, psize, q', qsize - 1) } })"

text \<open>Link \<open>e\<close> behind \<open>tlp\<close>, the end of the list that starts at \<open>l\<close>.\<close>

definition srt_link :: "ptr \<Rightarrow> ptr \<Rightarrow> ptr \<Rightarrow> 'b umem \<Rightarrow> (ptr \<times> 'b umem) option" where
  "srt_link e l tlp m = do {
     (l, m) \<leftarrow> (if tlp \<noteq> NULL
                then do { m \<leftarrow> elt_upd tlp (\<lambda>x. x\<lparr>app_next := e\<rparr>) m; Some (l, m) }
                else Some (e, m));
     m \<leftarrow> (if e \<noteq> NULL then elt_upd e (\<lambda>x. x\<lparr>app_prev := tlp\<rparr>) m else Some m);
     Some (l, m) }"

partial_function (option) srt_merge ::
  "(addr \<Rightarrow> addr \<Rightarrow> i32) \<Rightarrow> ptr \<Rightarrow> u32 \<Rightarrow> ptr \<Rightarrow> u32 \<Rightarrow> ptr \<Rightarrow> ptr \<Rightarrow> 'b umem
    \<Rightarrow> (ptr \<times> ptr \<times> ptr \<times> 'b umem) option" where
  "srt_merge cmpfcn p psize q qsize l tlp m =
     (if psize \<noteq> 0 \<or> (qsize \<noteq> 0 \<and> q \<noteq> NULL)
      then do {
        (e, p, psize, q, qsize) \<leftarrow> srt_take cmpfcn p psize q qsize m;
        (l, m) \<leftarrow> srt_link e l tlp m;
        srt_merge cmpfcn p psize q qsize l e m }
      else Some (q, l, tlp, m))"

text \<open>One round: \<open>while (_hs_p != NULL)\<close>.\<close>

partial_function (option) srt_pass ::
  "(addr \<Rightarrow> addr \<Rightarrow> i32) \<Rightarrow> u32 \<Rightarrow> ptr \<Rightarrow> ptr \<Rightarrow> ptr \<Rightarrow> u32 \<Rightarrow> 'b umem
    \<Rightarrow> (ptr \<times> ptr \<times> u32 \<times> 'b umem) option" where
  "srt_pass cmpfcn insize p l tlp nmerges m =
     (if p = NULL then Some (l, tlp, nmerges, m)
      else do {
        (psize, q) \<leftarrow> srt_skip (unat insize) 0 p m;
        (q, l, tlp, m) \<leftarrow> srt_merge cmpfcn p psize q insize l tlp m;
        srt_pass cmpfcn insize q l tlp (nmerges + 1) m })"

text \<open>The outer loop, from the list that starts at \<open>l\<close>; it ends with the new head.\<close>

partial_function (option) srt_loop ::
  "(addr \<Rightarrow> addr \<Rightarrow> i32) \<Rightarrow> u32 \<Rightarrow> ptr \<Rightarrow> ptr \<Rightarrow> 'b umem \<Rightarrow> (ptr \<times> 'b umem) option" where
  "srt_loop cmpfcn insize l head m = do {
     (l, tlp, nmerges, m) \<leftarrow> srt_pass cmpfcn insize l NULL NULL 0 m;
     m \<leftarrow> (if tlp \<noteq> NULL then elt_upd tlp (\<lambda>x. x\<lparr>app_next := NULL\<rparr>) m else Some m);
     if nmerges \<le> 1
     then do {
       tp \<leftarrow> tblp head m;
       m \<leftarrow> tbl_upd tp (\<lambda>t. t\<lparr>tail := tlp\<rparr>) m;
       Some (l, m) }
     else srt_loop cmpfcn (insize * 2) l head m }"

definition HASH_SRT :: "(addr \<Rightarrow> addr \<Rightarrow> i32) \<Rightarrow> ptr \<Rightarrow> 'b umem \<Rightarrow> (ptr \<times> 'b umem) option" where
  "HASH_SRT cmpfcn head m =
     (if head = NULL then Some (NULL, m) else srt_loop cmpfcn 1 head head m)"

section \<open>Memories that differ in the links of the list\<close>

definition unapp :: "UT_hash_handle \<Rightarrow> UT_hash_handle" where
  "unapp h = h\<lparr>app_prev := NULL, app_next := NULL\<rparr>"

definition relinked :: "'b umem \<Rightarrow> 'b umem \<Rightarrow> bool" where
  "relinked m m' \<longleftrightarrow> same_ids m m' \<and> tbls m' = tbls m \<and> (\<forall>a. unapp (hnd m' a) = unapp (hnd m a))"

lemma relinked_refl [simp]: "relinked m m"
  by (simp add: relinked_def)

lemma relinked_trans [trans]: "relinked m1 m2 \<Longrightarrow> relinked m2 m3 \<Longrightarrow> relinked m1 m3"
  unfolding relinked_def by (auto intro: same_ids_trans)

lemma relinked_app:
  assumes "live m' a"
  shows "relinked m (set_hh a ((hnd m' a)\<lparr>app_next := p\<rparr>) m') = relinked m m'"
    and "relinked m (set_hh a ((hnd m' a)\<lparr>app_prev := p\<rparr>) m') = relinked m m'"
  using assms by (auto simp: relinked_def unapp_def)

lemma relinkedD:
  assumes "relinked m m'"
  shows "live m' a = live m a" "cidf m' a = cidf m a" "tbls m' = tbls m"
    "tbl (hnd m' a) = tbl (hnd m a)" "key (hnd m' a) = key (hnd m a)"
    "keylen (hnd m' a) = keylen (hnd m a)" "hashv (hnd m' a) = hashv (hnd m a)"
    "hh_next (hnd m' a) = hh_next (hnd m a)" "hh_prev (hnd m' a) = hh_prev (hnd m a)"
proof -
  from assms have r: "same_ids m m'" "tbls m' = tbls m" "unapp (hnd m' a) = unapp (hnd m a)"
    by (simp_all add: relinked_def)
  then show "live m' a = live m a" "cidf m' a = cidf m a" "tbls m' = tbls m"
    by (simp_all add: same_idsD)
  from r(3) show "tbl (hnd m' a) = tbl (hnd m a)" "key (hnd m' a) = key (hnd m a)"
    "keylen (hnd m' a) = keylen (hnd m a)" "hashv (hnd m' a) = hashv (hnd m a)"
    "hh_next (hnd m' a) = hh_next (hnd m a)" "hh_prev (hnd m' a) = hh_prev (hnd m a)"
    by (cases "hnd m' a"; cases "hnd m a"; simp add: unapp_def)+
qed

section \<open>Lists while they are merged\<close>

abbreviation anx :: "'b umem \<Rightarrow> addr \<Rightarrow> ptr" where "anx m \<equiv> \<lambda>a. app_next (hnd m a)"
abbreviation apv :: "'b umem \<Rightarrow> addr \<Rightarrow> ptr" where "apv m \<equiv> \<lambda>a. app_prev (hnd m a)"

text \<open>
  \<open>runl nx xs r\<close>: the \<open>next\<close> links lead through \<open>xs\<close> and then to \<open>r\<close> (the input of a
  round).  \<open>olink nx pv p xs\<close>: both links of \<open>xs\<close> are right, but for the \<open>next\<close> of the last
  element, which is still the old one (the output of a round).
\<close>

fun runl :: "(addr \<Rightarrow> ptr) \<Rightarrow> addr list \<Rightarrow> ptr \<Rightarrow> bool" where
  "runl nx [] r = True"
| "runl nx (x # xs) r = (nx x = (if xs = [] then r else hdp xs) \<and> runl nx xs r)"

fun olink :: "(addr \<Rightarrow> ptr) \<Rightarrow> (addr \<Rightarrow> ptr) \<Rightarrow> ptr \<Rightarrow> addr list \<Rightarrow> bool" where
  "olink nx pv p [] = True"
| "olink nx pv p (x # xs) = (pv x = p \<and> (xs \<noteq> [] \<longrightarrow> nx x = hdp xs) \<and> olink nx pv (Some x) xs)"

lemma runl_cong:
  assumes "\<And>a. a \<in> set xs \<Longrightarrow> nx' a = nx a" and "runl nx xs r"
  shows "runl nx' xs r"
  using assms by (induction xs) auto

lemma runl_append:
  "runl nx (xs @ ys) r \<longleftrightarrow> runl nx xs (if ys = [] then r else hdp ys) \<and> runl nx ys r"
  by (induction xs) (auto simp: hdp_append)

lemma runl_take_drop:
  assumes "runl nx xs r"
  shows "runl nx (take k xs) (if drop k xs = [] then r else hdp (drop k xs))" "runl nx (drop k xs) r"
  using assms runl_append [of nx "take k xs" "drop k xs" r] by (simp_all del: drop_eq_Nil)

lemma dll_runl: "dll nx pv p xs \<Longrightarrow> runl nx xs None"
  by (induction xs arbitrary: p) auto

lemma olink_dll: "olink nx pv p xs \<Longrightarrow> (xs \<noteq> [] \<Longrightarrow> nx (last xs) = None) \<Longrightarrow> dll nx pv p xs"
  by (induction xs arbitrary: p) (auto split: if_splits)

lemma olink_cong:
  assumes "olink nx pv p xs" and "distinct xs"
    and "\<And>a. a \<in> set xs \<Longrightarrow> pv' a = pv a" and "\<And>a. a \<in> set xs \<Longrightarrow> a \<noteq> last xs \<Longrightarrow> nx' a = nx a"
  shows "olink nx' pv' p xs"
  using assms
proof (induction xs arbitrary: p)
  case (Cons x xs)
  have "olink nx' pv' (Some x) xs"
  proof (rule Cons.IH)
    show "nx' a = nx a" if "a \<in> set xs" "a \<noteq> last xs" for a
      using that Cons.prems(4) by (cases xs) auto
  qed (use Cons.prems in auto)
  moreover have "xs \<noteq> [] \<Longrightarrow> nx' x = nx x"
    using Cons.prems(2,4) by (metis distinct.simps(2) last_ConsR last_in_set list.set_intros(1))
  ultimately show ?case using Cons.prems by simp
qed simp

lemma olink_snoc:
  assumes "olink nx pv p xs" and "distinct xs" and "a \<notin> set xs" and "pv' a = lastp p xs"
    and "xs \<noteq> [] \<Longrightarrow> nx' (last xs) = Some a"
    and "\<And>b. b \<in> set xs \<Longrightarrow> pv' b = pv b" and "\<And>b. b \<in> set xs \<Longrightarrow> b \<noteq> last xs \<Longrightarrow> nx' b = nx b"
  shows "olink nx' pv' p (xs @ [a])"
  using assms
proof (induction xs arbitrary: p)
  case (Cons x xs)
  have "olink nx' pv' (Some x) (xs @ [a])"
  proof (rule Cons.IH)
    show "nx' b = nx b" if "b \<in> set xs" "b \<noteq> last xs" for b
      using that Cons.prems(7) by (cases xs) auto
  qed (use Cons.prems in auto)
  moreover have "nx' x = hdp (xs @ [a])"
  proof (cases "xs = []")
    case False
    then have "last xs \<in> set xs" by simp
    then have "x \<noteq> last xs" using Cons.prems(2) by auto
    then show ?thesis using Cons.prems False by (simp add: hdp_append)
  qed (use Cons.prems in simp)
  ultimately show ?case using Cons.prems by simp
qed simp

section \<open>The inner loops\<close>

lemma srt_next_live: "live m a \<Longrightarrow> srt_next (Some a) m = Some (app_next (hnd m a))"
  by (simp add: srt_next_def load_elt del: h_load_simps)

lemma srt_skip_ok:
  assumes "runl (anx m) xs None" and "xs \<noteq> []" and "\<forall>a \<in> set xs. live m a"
  shows "srt_skip n ps (hdp xs) m = Some (ps + of_nat (length (take n xs)), hdp (drop n xs))"
  using assms
proof (induction xs arbitrary: n ps)
  case (Cons x xs)
  show ?case
  proof (cases n)
    case (Suc k)
    have nx: "srt_next (Some x) m = Some (hdp xs)"
      using Cons.prems by (simp add: srt_next_live)
    show ?thesis
    proof (cases "xs = []")
      case False
      then have "srt_skip k (ps + 1) (hdp xs) m = Some (ps + 1 + of_nat (length (take k xs)), hdp (drop k xs))"
        using Cons.prems by (intro Cons.IH) auto
      then show ?thesis using nx Suc False by simp
    qed (use nx Suc in simp)
  qed simp
qed simp

lemma srt_link_ok:
  assumes e: "live m e" "e \<notin> set out" and out: "distinct out" "\<forall>a \<in> set out. live m a"
    and ol: "olink (anx m) (apv m) None out"
  shows "\<exists>m'. srt_link (Some e) (hdp out) (lastp None out) m = Some (hdp (out @ [e]), m')
     \<and> olink (anx m') (apv m') None (out @ [e]) \<and> relinked m m'
     \<and> (\<forall>a. a \<notin> set out \<longrightarrow> app_next (hnd m' a) = app_next (hnd m a))"
proof (cases "out = []")
  case True
  then show ?thesis using e
    by (simp add: srt_link_def elt_upd_live relinked_app)
next
  case False
  define z where "z = last out"
  have z: "z \<in> set out" "live m z" "z \<noteq> e" "lastp None out = Some z"
    using False e out by (auto simp: z_def lastp_def)
  define m1 where "m1 = set_hh z ((hnd m z)\<lparr>app_next := Some e\<rparr>) m"
  define m' where "m' = set_hh e ((hnd m1 e)\<lparr>app_prev := Some z\<rparr>) m1"
  have "live m1 e" using e by (simp add: m1_def)
  then have m': "hnd m' a = (if a = e then (hnd m e)\<lparr>app_prev := Some z\<rparr>
        else if a = z then (hnd m z)\<lparr>app_next := Some e\<rparr> else hnd m a)" for a
    using z by (simp add: m'_def m1_def)
  have "relinked m m'"
    using \<open>live m1 e\<close> z by (simp add: m'_def relinked_app) (simp add: m1_def relinked_app)
  moreover have "srt_link (Some e) (hdp out) (lastp None out) m = Some (hdp (out @ [e]), m')"
    using z e False \<open>live m1 e\<close> unfolding m'_def
    by (simp add: srt_link_def elt_upd_live m1_def hdp_append)
  moreover have "olink (anx m') (apv m') None (out @ [e])"
    using False z e by (intro olink_snoc [OF ol out(1) e(2)]) (auto simp: m' z_def)
  ultimately show ?thesis using z by (auto simp: m')
qed

text \<open>The state of the merge loop: \<open>P\<close> is left of the first run, \<open>take k Q\<close> of the second.\<close>

definition merge_state ::
  "'b umem \<Rightarrow> ptr \<Rightarrow> u32 \<Rightarrow> addr list \<Rightarrow> u32 \<Rightarrow> nat \<Rightarrow> addr list \<Rightarrow> bool" where
  "merge_state m p ps P qs k Q \<longleftrightarrow>
     ps = of_nat (length P) \<and> length P < 2 ^ 32 \<and> (P \<noteq> [] \<longrightarrow> p = hdp P) \<and> unat qs = k \<and>
     distinct (P @ Q) \<and> (\<forall>a \<in> set (P @ Q). live m a) \<and> (\<exists>r. runl (anx m) P r) \<and> runl (anx m) Q None"

lemma merge_state_psize: "merge_state m p ps P qs k Q \<Longrightarrow> ps = 0 \<longleftrightarrow> P = []"
  unfolding merge_state_def using unat_of_nat_lt [of "length P", where 'a = 32] by force

lemma merge_state_qsize: "merge_state m p ps P qs k Q \<Longrightarrow> qs = 0 \<longleftrightarrow> k = 0"
  by (auto simp: merge_state_def unat_eq_0)

lemma merge_state_first:
  assumes st: "merge_state m p ps (e # P) qs k Q"
  obtains p' where "srt_next p m = Some p'" "merge_state m p' (ps - 1) P qs k Q"
proof (rule that [of "app_next (hnd m e)"])
  show "srt_next p m = Some (app_next (hnd m e))"
    using st by (simp add: merge_state_def srt_next_live)
  show "merge_state m (app_next (hnd m e)) (ps - 1) P qs k Q"
    using st by (auto simp: merge_state_def)
qed

lemma merge_state_second:
  assumes st: "merge_state m p ps P qs (Suc k) (e # Q)"
  shows "srt_next (Some e) m = Some (hdp Q)" "merge_state m p ps P (qs - 1) k Q"
proof -
  show "srt_next (Some e) m = Some (hdp Q)"
    using st by (simp add: merge_state_def srt_next_live)
  have "unat qs = Suc k" using st by (simp add: merge_state_def)
  then have "unat (qs - 1) = k" using unat_minus_one [of qs] by force
  then show "merge_state m p ps P (qs - 1) k Q"
    using st by (auto simp: merge_state_def)
qed

lemma merge_Nil2: "Sorting_Algorithms.merge C xs [] = xs"
  by (cases xs) simp_all

lemma srt_take_ok:
  assumes C: "\<And>a b. sint (cmpfcn a b) \<le> 0 \<longleftrightarrow> compare C a b \<noteq> Greater"
    and st: "merge_state m p ps P qs k Q" and ne: "P \<noteq> [] \<or> take k Q \<noteq> []"
  obtains e p' ps' P' qs' k' Q' where
    "srt_take cmpfcn p ps (hdp Q) qs m = Some (Some e, p', ps', hdp Q', qs')"
    "merge_state m p' ps' P' qs' k' Q'"
    "Sorting_Algorithms.merge C P (take k Q) = e # Sorting_Algorithms.merge C P' (take k' Q')"
    "drop k' Q' = drop k Q"
    "P = e # P' \<and> Q' = Q \<and> k' = k \<or> P' = P \<and> Q = e # Q' \<and> k = Suc k'"
proof (cases P)
  case Nil
  with ne obtain e Q' k' where Q: "Q = e # Q'" "k = Suc k'" by (cases Q; cases k; simp)
  show thesis
    using merge_state_second [OF st [unfolded Q]] merge_state_psize [OF st] Nil Q
    by (intro that [of e p ps Q' "qs - 1" "[]" k']) (simp_all add: srt_take_def)
next
  case (Cons x P')
  have ps: "ps \<noteq> 0" using merge_state_psize [OF st] Cons by simp
  have p: "p = Some x" using st Cons by (simp add: merge_state_def)
  obtain p' where p': "srt_next (Some x) m = Some p'" "merge_state m p' (ps - 1) P' qs k Q"
    using merge_state_first [OF st [unfolded Cons]] p by metis
  show thesis
  proof (cases "take k Q")
    case Nil
    then have "qs = 0 \<or> hdp Q = NULL" using merge_state_qsize [OF st] by (cases k; cases Q; simp)
    then show thesis using p' ps p Cons Nil
      by (intro that [of x p' "ps - 1" Q qs P' k])
        (simp_all add: srt_take_def merge_Nil2 del: take_eq_Nil)
  next
    case second: (Cons y ys)
    then obtain Q' k' where Q: "Q = y # Q'" "k = Suc k'" by (cases Q; cases k; simp)
    have qs: "qs \<noteq> 0" using merge_state_qsize [OF st] Q by simp
    show thesis
    proof (cases "compare C x y = Greater")
      case True
      then have "\<not> sint (cmpfcn x y) \<le> 0" using C by simp
      then show thesis using merge_state_second [OF st [unfolded Q]] ps qs p Q Cons True
        by (intro that [of y p ps Q' "qs - 1" P k']) (simp_all add: srt_take_def)
    next
      case False
      then have "sint (cmpfcn x y) \<le> 0" using C by simp
      then show thesis using p' ps qs p Q Cons False
        by (intro that [of x p' "ps - 1" Q qs P' k]) (simp_all add: srt_take_def)
    qed
  qed
qed

lemma merge_state_relinked:
  assumes "merge_state m p ps P qs k Q" and "relinked m m'"
    and "\<And>a. a \<in> set (P @ Q) \<Longrightarrow> app_next (hnd m' a) = app_next (hnd m a)"
  shows "merge_state m' p ps P qs k Q"
proof -
  have "runl (anx m') P r" if "runl (anx m) P r" for r
    using that assms(3) by (intro runl_cong [of P "anx m'" "anx m"]) auto
  moreover have "runl (anx m') Q None" if "runl (anx m) Q None"
    using that assms(3) by (intro runl_cong [of Q "anx m'" "anx m"]) auto
  ultimately show ?thesis
    using assms(1) relinkedD(1) [OF assms(2)] unfolding merge_state_def by blast
qed

lemma srt_merge_ok:
  assumes C: "\<And>a b. sint (cmpfcn a b) \<le> 0 \<longleftrightarrow> compare C a b \<noteq> Greater"
    and "merge_state m p ps P qs k Q" and "distinct (out @ P @ Q)"
    and "\<forall>a \<in> set out. live m a" and "olink (anx m) (apv m) None out"
    and "out' = out @ Sorting_Algorithms.merge C P (take k Q)"
  shows "\<exists>m'. srt_merge cmpfcn p ps (hdp Q) qs (hdp out) (lastp None out) m
       = Some (hdp (drop k Q), hdp out', lastp None out', m')
     \<and> olink (anx m') (apv m') None out' \<and> relinked m m' \<and> runl (anx m') (drop k Q) None"
  using assms(2-)
proof (induction "length P + length (take k Q)" arbitrary: m p ps P qs k Q out)
  case 0
  from "0.hyps" have P: "P = []" and tk: "take k Q = []" by (metis add_is_0 length_0_conv)+
  from tk have "k = 0 \<or> Q = []" by (cases k; cases Q; simp)
  then have "drop k Q = Q" "qs = 0 \<or> hdp Q = NULL" "ps = 0" "out' = out"
    using merge_state_psize [OF "0.prems"(1)] merge_state_qsize [OF "0.prems"(1)] P tk "0.prems"(5)
    by auto
  then show ?case using 0 by (auto simp: srt_merge.simps merge_state_def)
next
  case (Suc n)
  have ne: "P \<noteq> [] \<or> take k Q \<noteq> []" using Suc.hyps(2) by auto
  then have cond: "ps \<noteq> 0 \<or> qs \<noteq> 0 \<and> hdp Q \<noteq> NULL"
    using merge_state_psize [OF Suc.prems(1)] merge_state_qsize [OF Suc.prems(1)] by auto
  obtain e p' ps' P' qs' k' Q' where tk:
    "srt_take cmpfcn p ps (hdp Q) qs m = Some (Some e, p', ps', hdp Q', qs')"
    "merge_state m p' ps' P' qs' k' Q'"
    "Sorting_Algorithms.merge C P (take k Q) = e # Sorting_Algorithms.merge C P' (take k' Q')"
    "drop k' Q' = drop k Q"
    "P = e # P' \<and> Q' = Q \<and> k' = k \<or> P' = P \<and> Q = e # Q' \<and> k = Suc k'"
    using srt_take_ok [OF C Suc.prems(1) ne] by metis
  have e: "live m e" "e \<notin> set out" "e \<notin> set (P' @ Q')"
    using tk(5) Suc.prems(1,2) by (auto simp: merge_state_def)
  obtain m1 where m1: "srt_link (Some e) (hdp out) (lastp None out) m = Some (hdp (out @ [e]), m1)"
    "olink (anx m1) (apv m1) None (out @ [e])" "relinked m m1"
    "\<forall>a. a \<notin> set out \<longrightarrow> app_next (hnd m1 a) = app_next (hnd m a)"
    using srt_link_ok [OF e(1,2) _ Suc.prems(3,4)] Suc.prems(2) by auto
  have rest: "set (P' @ Q') \<subseteq> set (P @ Q)" using tk(5) by auto
  have "merge_state m1 p' ps' P' qs' k' Q'"
    using m1(4) rest Suc.prems(2) by (intro merge_state_relinked [OF tk(2) m1(3)]) auto
  moreover have "n = length P' + length (take k' Q')" using tk(5) Suc.hyps(2) by auto
  moreover have "distinct ((out @ [e]) @ P' @ Q')" using Suc.prems(2) tk(5) by auto
  moreover have "\<forall>a \<in> set (out @ [e]). live m1 a"
    using Suc.prems(3) e(1) relinkedD(1) [OF m1(3)] by auto
  moreover have "out' = (out @ [e]) @ Sorting_Algorithms.merge C P' (take k' Q')"
    using Suc.prems(5) tk(3) by simp
  ultimately obtain m' where
    "srt_merge cmpfcn p' ps' (hdp Q') qs' (hdp (out @ [e])) (lastp None (out @ [e])) m1
       = Some (hdp (drop k' Q'), hdp out', lastp None out', m')"
    "olink (anx m') (apv m') None out'" "relinked m1 m'" "runl (anx m') (drop k' Q') None"
    using Suc.hyps(1) m1(2) by blast
  moreover have "lastp None (out @ [e]) = Some e" by (simp add: lastp_def)
  ultimately show ?case
    using cond tk(1,4) m1(1) relinked_trans [OF m1(3)] by (subst srt_merge.simps) auto
qed

section \<open>The rounds\<close>

lemma srt_pass_ok:
  assumes C: "\<And>a b. sint (cmpfcn a b) \<le> 0 \<longleftrightarrow> compare C a b \<noteq> Greater"
    and k: "unat insize = k" "0 < k"
    and "runl (anx m) R None" and "distinct (out @ R)" and "\<forall>a \<in> set (out @ R). live m a"
    and "length R < 2 ^ 32" and "olink (anx m) (apv m) None out" and "out' = out @ merge_pass C k R"
  shows "\<exists>m'. srt_pass cmpfcn insize (hdp R) (hdp out) (lastp None out) nm m
       = Some (hdp out', lastp None out', nm + of_nat (merges k (length R)), m')
     \<and> olink (anx m') (apv m') None out' \<and> relinked m m'"
  using assms(4-)
proof (induction "length R" arbitrary: R m out nm rule: less_induct)
  case less
  show ?case
  proof (cases "R = []")
    case True
    with less.prems k show ?thesis by (auto simp: srt_pass.simps intro!: exI [of _ m])
  next
    case False
    let ?P = "take k R" and ?Q = "drop k R"
    let ?out = "out @ Sorting_Algorithms.merge C ?P (take k ?Q)"
    have P: "?P \<noteq> []" "hdp R = hdp ?P" using False k(2) by (cases R; cases k; simp)+
    have len: "length ?P < 2 ^ 32" using less.prems(4) by simp
    have dist: "distinct (out @ ?P @ ?Q)" using less.prems(2) by simp
    have st: "merge_state m (hdp R) (of_nat (length ?P)) ?P insize k ?Q"
      using less.prems(2,3) runl_take_drop [OF less.prems(1), of k] P(2) len k(1)
      by (auto simp: merge_state_def set_drop_subset [THEN subsetD] dest: in_set_takeD in_set_dropD
          simp del: drop_eq_Nil)
    have skip: "srt_skip (unat insize) 0 (hdp R) m = Some (of_nat (length ?P), hdp ?Q)"
      using less.prems(1,3) False k(1) by (simp add: srt_skip_ok)
    have "\<forall>a \<in> set out. live m a" using less.prems(3) by simp
    then obtain m1 where m1: "srt_merge cmpfcn (hdp R) (of_nat (length ?P)) (hdp ?Q) insize (hdp out)
        (lastp None out) m = Some (hdp (drop k ?Q), hdp ?out, lastp None ?out, m1)"
      "olink (anx m1) (apv m1) None ?out" "relinked m m1" "runl (anx m1) (drop k ?Q) None"
      using srt_merge_ok [OF C st dist _ less.prems(5) refl] by blast
    have rest: "drop k ?Q = drop (2 * k) R" by (simp add: mult_2)
    have sets: "set (?out @ drop (2 * k) R) = set (out @ R)"
      and mset: "mset (?out @ drop (2 * k) R) = mset (out @ R)"
    proof -
      have "mset (?out @ drop (2 * k) R) = mset out + mset (?P @ take k ?Q @ drop (2 * k) R)"
        by (simp add: mset_merge)
      then show "mset (?out @ drop (2 * k) R) = mset (out @ R)" by (simp only: split_two mset_append)
      then show "set (?out @ drop (2 * k) R) = set (out @ R)" by (rule mset_eq_setD)
    qed
    have "distinct (?out @ drop (2 * k) R)"
      using less.prems(2) mset by (metis mset_eq_imp_distinct_iff)
    moreover have "\<forall>a \<in> set (?out @ drop (2 * k) R). live m1 a"
      using less.prems(3) relinkedD(1) [OF m1(3)] unfolding sets by blast
    moreover have "out' = ?out @ merge_pass C k (drop (2 * k) R)"
      using less.prems(6) False k(2) by (simp add: merge_pass_step)
    moreover have "length (drop (2 * k) R) < length R" using False k(2) by (cases R) auto
    ultimately obtain m' where m': "srt_pass cmpfcn insize (hdp (drop (2 * k) R)) (hdp ?out) (lastp None ?out)
        (nm + 1) m1 = Some (hdp out', lastp None out',
          nm + 1 + of_nat (merges k (length (drop (2 * k) R))), m')"
      "olink (anx m') (apv m') None out'" "relinked m1 m'"
      using less.hyps [of "drop (2 * k) R" m1 ?out "nm + 1"] m1(2,4) less.prems(4) rest by auto
    have "merges k (length R) = Suc (merges k (length (drop (2 * k) R)))"
      using False k(2) by (simp add: merges_step)
    moreover have "hdp R \<noteq> NULL" using False by simp
    ultimately show ?thesis
      using skip m1(1) m' relinked_trans [OF m1(3) m'(3)] rest
      by (subst srt_pass.simps) (auto simp: add.assoc)
  qed
qed

text \<open>
  The outer loop: after a round with at most one merge the list is one sorted run.
  Before that, \<open>2 * insize\<close> is below the length of the list, hence below \<open>2 ^ 32\<close>, and
  the doubling does not wrap around.
\<close>

lemma srt_loop_ok:
  assumes C: "\<And>a b. sint (cmpfcn a b) \<le> 0 \<longleftrightarrow> compare C a b \<noteq> Greater"
    and "0 < unat insize" and "app_ok m ys" and "distinct ys" and "\<forall>a \<in> set ys. live m a"
    and "ys \<noteq> []" and "length ys < 2 ^ 32" and "sorted_runs C (unat insize) ys" and "mset ys = mset xs"
    and "\<And>l. stable_segment C l ys = stable_segment C l xs"
    and "h \<in> set ys" and "tbl (hnd m h) = Some tp" and "tblf m tp = Some t"
  shows "\<exists>m1. srt_loop cmpfcn insize (hdp ys) (Some h) m =
       Some (hdp (sort C xs), set_tbl tp (t\<lparr>tail := lastp None (sort C xs)\<rparr>) m1)
     \<and> app_ok m1 (sort C xs) \<and> relinked m m1"
  using assms(2-)
proof (induction "length ys - unat insize" arbitrary: insize m ys rule: less_induct)
  case less
  let ?k = "unat insize"
  let ?zs = "merge_pass C ?k ys"
  note k = less.prems(1)
  have "runl (anx m) ys None" using less.prems(2) by (auto simp: app_ok_def intro: dll_runl)
  then obtain m1 where m1: "srt_pass cmpfcn insize (hdp ys) NULL NULL 0 m
      = Some (hdp ?zs, lastp None ?zs, of_nat (merges ?k (length ys)), m1)"
    "olink (anx m1) (apv m1) None ?zs" "relinked m m1"
    using srt_pass_ok [OF C refl k, where m = m and R = ys and out = "[]" and nm = 0]
      less.prems(3,4,6) by auto
  have set: "set ?zs = set ys" and mset: "mset ?zs = mset ys" and len: "length ?zs = length ys"
    using k by (simp_all add: set_merge_pass mset_merge_pass length_merge_pass)
  have dist: "distinct ?zs" using mset less.prems(3) by (metis mset_eq_imp_distinct_iff)
  have ne: "?zs \<noteq> []" using len less.prems(5) by (metis length_0_conv)
  define z where "z = last ?zs"
  have z: "lastp None ?zs = Some z" "z \<in> set ?zs" using ne by (auto simp: lastp_def z_def)
  have lv: "live m1 a" if "a \<in> set ?zs" for a
    using that set less.prems(4) relinkedD(1) [OF m1(3)] by auto
  define m2 where "m2 = set_hh z ((hnd m1 z)\<lparr>app_next := NULL\<rparr>) m1"
  have m2: "relinked m m2" using m1(3) lv [OF z(2)] by (simp add: m2_def relinked_app)
  have hn: "hnd m2 a = (if a = z then (hnd m1 z)\<lparr>app_next := NULL\<rparr> else hnd m1 a)" for a
    using lv [OF z(2)] by (simp add: m2_def)
  have "olink (anx m2) (apv m2) None ?zs"
    using m1(2) dist by (rule olink_cong) (auto simp: hn z_def)
  then have app: "app_ok m2 ?zs"
    unfolding app_ok_def by (rule olink_dll) (simp add: hn z_def)
  have upd: "elt_upd (Some z) (\<lambda>x. x\<lparr>app_next := NULL\<rparr>) m1 = Some m2"
    using lv [OF z(2)] by (simp add: m2_def elt_upd_live)
  have sruns: "sorted_runs C (2 * ?k) ?zs" using less.prems(7) k by (rule sorted_runs_merge_pass)
  have stable: "stable_segment C l ?zs = stable_segment C l xs" for l
    using less.prems(9) stable_merge_pass [OF less.prems(7) k] by simp
  have mxs: "mset ?zs = mset xs" using mset less.prems(8) by simp
  have h: "live m2 h" "tbl (hnd m2 h) = Some tp" "tblf m2 tp = Some t"
    using less.prems(4,10-12) relinkedD [OF m2] by auto
  have mle: "merges ?k (length ys) < 2 ^ 32"
    using merges_le [OF k] less.prems(6) by (metis le_less_trans)
  have one: "(of_nat (merges ?k (length ys)) :: u32) \<le> 1 \<longleftrightarrow> length ys \<le> 2 * ?k"
    using mle merges_le_1 [OF k, of "length ys"] by (simp add: word_le_nat_alt unat_of_nat_lt)
  show ?case
  proof (cases "length ys \<le> 2 * ?k")
    case True
    then have "?zs = sort C xs"
      using mxs stable sruns len by (intro one_run_is_sort) auto
    moreover have "srt_loop cmpfcn insize (hdp ys) (Some h) m =
        Some (hdp ?zs, set_tbl tp (t\<lparr>tail := lastp None ?zs\<rparr>) m2)"
      using m1(1) z(1) upd True one h by (subst srt_loop.simps) (simp add: mem_simps del: h_load_simps)
    ultimately show ?thesis using app m2 by auto
  next
    case False
    then have "2 * ?k < 2 ^ 32" using less.prems(6) by simp
    then have k2: "unat (insize * 2) = 2 * ?k" by (simp add: unat_word_ariths)
    have "\<exists>m3. srt_loop cmpfcn (insize * 2) (hdp ?zs) (Some h) m2 =
         Some (hdp (sort C xs), set_tbl tp (t\<lparr>tail := lastp None (sort C xs)\<rparr>) m3)
       \<and> app_ok m3 (sort C xs) \<and> relinked m2 m3"
    proof (rule less.hyps)
      show "length ?zs - unat (insize * 2) < length ys - ?k" using k2 len k False by simp
      show "0 < unat (insize * 2)" using k2 k by simp
      show "\<forall>a \<in> set ?zs. live m2 a" using lv by (simp add: m2_def)
      show "sorted_runs C (unat (insize * 2)) ?zs" using sruns k2 by simp
      show "h \<in> set ?zs" using set less.prems(10) by simp
      show "length ?zs < 2 ^ 32" using len less.prems(6) by simp
    qed (use app dist ne mxs stable h in simp_all)
    then obtain m3 where m3: "srt_loop cmpfcn (insize * 2) (hdp ?zs) (Some h) m2 =
         Some (hdp (sort C xs), set_tbl tp (t\<lparr>tail := lastp None (sort C xs)\<rparr>) m3)"
      "app_ok m3 (sort C xs)" "relinked m2 m3" by blast
    moreover have "srt_loop cmpfcn insize (hdp ys) (Some h) m
        = srt_loop cmpfcn (insize * 2) (hdp ?zs) (Some h) m2"
      using m1(1) z(1) upd False one by (subst srt_loop.simps) simp
    ultimately show ?thesis using relinked_trans [OF m2 m3(3)] by auto
  qed
qed

section \<open>The hash after the sort\<close>

lemma chains_ok_relinked:
  assumes "relinked m m'" and "chains_ok m n bs X cs"
  shows "chains_ok m' n bs X cs"
proof -
  have "chain_ok m' b c = chain_ok m b c" for b c
    using relinkedD [OF assms(1)] by (intro chain_ok_cong) auto
  moreover have "bidx n m' a = bidx n m a" for a
    using relinkedD [OF assms(1)] by (simp add: bidx_def)
  ultimately show ?thesis using assms(2) by (simp add: chains_ok_def)
qed

text \<open>
  A hash whose list has been relinked into the order \<open>ys\<close>, a permutation of the old one,
  and whose \<open>tail\<close> has been set accordingly.
\<close>

lemma hash_ok_reordered:
  assumes ok: "hash_ok head m xs" and t: "tblf m tp = Some t"
    and tp: "h \<in> set xs" "tbl (hnd m h) = Some tp"
    and ys: "mset ys = mset xs" and app: "app_ok m1 ys" and re: "relinked m m1"
  shows "hash_ok (hdp ys) (set_tbl tp (t\<lparr>tail := lastp None ys\<rparr>) m1) ys"
proof -
  let ?t = "t\<lparr>tail := lastp None ys\<rparr>"
  let ?m = "set_tbl tp ?t m1"
  have ne: "xs \<noteq> []" and set: "set ys = set xs" and len: "length ys = length xs"
    and dist: "distinct ys"
    using tp(1) ys hash_okD(2) [OF ok]
    by (auto dest: mset_eq_setD mset_eq_length mset_eq_imp_distinct_iff)
  obtain tp' t' cs where t': "tblf m tp' = Some t'" "\<And>a. a \<in> set xs \<Longrightarrow> handle_ok m tp' a"
    "app_ok m xs" "table_geom t'" "tail t' = Some (last xs)" "num_items t' = of_nat (length xs)"
    "chains_ok m (num_buckets t') (buckets t') (set xs) cs"
    using ok ne by (rule hash_ok_tblE) blast
  have [simp]: "tp' = tp" "t' = t"
    using t'(1) t'(2) [of h] tp t by (auto simp: handle_ok_def)
  note rd = relinkedD [OF re]
  show ?thesis
  proof (rule hash_okI [of _ _ _ tp ?t])
    show "inj_on (cidf ?m) (set ys)" using hash_okD(3) [OF ok] rd(2) by (simp add: set inj_on_def)
    show "heap_wf (tbls ?m)"
      using hash_okD(5) [OF ok] t rd(3) by (auto simp: heap_wf_def set_tbl_def)
    show "handle_ok ?m tp a" if "a \<in> set ys" for a
      using t'(2) [of a] that rd by (simp add: set handle_ok_def)
    show "app_ok ?m ys" using app by (simp add: app_ok_def)
    have "chains_ok m1 (num_buckets t) (buckets t) (set xs) cs"
      using t'(7) by (intro chains_ok_relinked [OF re]) simp
    then have "chains_ok ?m (num_buckets t) (buckets t) (set ys) cs"
      by (simp add: chains_ok_def chain_ok_def bidx_def set)
    then show "table_ok ?m ys ?t" using t'(4,6) len by (auto simp: table_ok_def table_geom_def)
  qed (use hash_okD(4) [OF ok] len dist in simp_all)
qed

lemma HASH_SRT_ok:
  assumes C: "\<And>a b. sint (cmpfcn a b) \<le> 0 \<longleftrightarrow> compare C a b \<noteq> Greater"
    and ok: "hash_ok head m xs"
  shows "\<exists>m'. HASH_SRT cmpfcn head m = Some (hdp (sort C xs), m')
     \<and> hash_ok (hdp (sort C xs)) m' (sort C xs) \<and> same_ids m m'"
proof (cases xs)
  case Nil
  then show ?thesis using ok hash_okD(1) [OF ok] by (auto simp: HASH_SRT_def)
next
  case (Cons h ys)
  then have ne: "xs \<noteq> []" and h: "h \<in> set xs" and head: "head = Some h" "hdp xs = Some h"
    using hash_okD(1) [OF ok] by auto
  obtain tp t cs where t: "tblf m tp = Some t" "\<And>a. a \<in> set xs \<Longrightarrow> handle_ok m tp a"
    "app_ok m xs" "table_geom t" "tail t = Some (last xs)" "num_items t = of_nat (length xs)"
    "chains_ok m (num_buckets t) (buckets t) (set xs) cs"
    using ok ne by (rule hash_ok_tblE) blast
  have tp: "tbl (hnd m h) = Some tp" using t(2) [OF h] by (simp add: handle_ok_def)
  have "\<exists>m1. srt_loop cmpfcn 1 (hdp xs) (Some h) m =
       Some (hdp (sort C xs), set_tbl tp (t\<lparr>tail := lastp None (sort C xs)\<rparr>) m1)
     \<and> app_ok m1 (sort C xs) \<and> relinked m m1"
    using hash_okD [OF ok] t(1,3) ne h tp sorted_runs_1 [of C xs]
    by (intro srt_loop_ok [OF C]) simp_all
  then obtain m1 where m1: "srt_loop cmpfcn 1 (hdp xs) (Some h) m =
       Some (hdp (sort C xs), set_tbl tp (t\<lparr>tail := lastp None (sort C xs)\<rparr>) m1)"
    "app_ok m1 (sort C xs)" "relinked m m1" by blast
  have "same_ids m m1" using m1(3) by (simp add: relinked_def)
  with m1(1) hash_ok_reordered [OF ok t(1) h tp mset_sort m1(2,3)] show ?thesis
    using head by (simp add: HASH_SRT_def)
qed

end
