(* ===== verification/Uthash_Inorder.thy ===== *)
theory Uthash_Inorder
  imports Uthash_Sort Uthash_Table
begin

text \<open>
  The macros of \<open>src/uthash.h\<close> built on insertion and deletion: insertion at the place
  a comparison function gives (\<open>HASH_ADD_INORDER\<close>), replacement (\<open>HASH_REPLACE\<close>,
  \<open>HASH_REPLACE_INORDER\<close>), \<open>HASH_CLEAR\<close>, \<open>HASH_CNT\<close> and \<open>HASH_OVERHEAD\<close>.
\<close>

section \<open>The macros\<close>

text \<open>
  \<open>do { if (cmpfcn(_hs_iter, add) > 0) break; } while ((_hs_iter = _hs_iter->next))\<close>.
\<close>

partial_function (option) HASH_AKBI_INNER_LOOP ::
  "(addr \<Rightarrow> addr \<Rightarrow> i32) \<Rightarrow> ptr \<Rightarrow> ptr \<Rightarrow> 'b umem \<Rightarrow> ptr option" where
  "HASH_AKBI_INNER_LOOP cmpfcn it add m = do {
     a \<leftarrow> it; b \<leftarrow> add;
     if 0 < sint (cmpfcn a b) then Some it
     else do {
       nx \<leftarrow> srt_next it m;
       if nx = NULL then Some NULL else HASH_AKBI_INNER_LOOP cmpfcn nx add m } }"

definition HASH_ADD_KEYPTR_BYHASHVALUE_INORDER ::
  "(addr \<Rightarrow> addr \<Rightarrow> i32) \<Rightarrow> ptr \<Rightarrow> ptr \<Rightarrow> u32 \<Rightarrow> u32 \<Rightarrow> ptr \<Rightarrow> 'b umem \<Rightarrow> (ptr \<times> 'b umem) option" where
  "HASH_ADD_KEYPTR_BYHASHVALUE_INORDER cmpfcn head keyptr klen hv add m = do {
     m \<leftarrow> elt_upd add (\<lambda>x. x\<lparr>hashv := hv, key := keyptr, keylen := klen\<rparr>) m;
     (head, m) \<leftarrow>
       (if head = NULL
        then do {
          m \<leftarrow> elt_upd add (\<lambda>x. x\<lparr>app_next := NULL, app_prev := NULL\<rparr>) m;
          m \<leftarrow> HASH_MAKE_TABLE add m;
          Some (add, m) }
        else do {
          tp \<leftarrow> tblp head m;
          m \<leftarrow> elt_upd add (\<lambda>x. x\<lparr>tbl := tp\<rparr>) m;
          it \<leftarrow> HASH_AKBI_INNER_LOOP cmpfcn head add m;
          if it \<noteq> NULL
          then do {
            m \<leftarrow> elt_upd add (\<lambda>x. x\<lparr>app_next := it\<rparr>) m;
            e \<leftarrow> h_load it (elts m);
            m \<leftarrow> elt_upd add (\<lambda>x. x\<lparr>app_prev := app_prev (hh e)\<rparr>) m;
            (head, m) \<leftarrow>
              (if app_prev (hh e) \<noteq> NULL
               then do {
                 m \<leftarrow> elt_upd (app_prev (hh e)) (\<lambda>x. x\<lparr>app_next := add\<rparr>) m;
                 Some (head, m) }
               else Some (add, m));
            m \<leftarrow> elt_upd it (\<lambda>x. x\<lparr>app_prev := add\<rparr>) m;
            Some (head, m) }
          else do {
            m \<leftarrow> HASH_APPEND_LIST head add m;
            Some (head, m) } });
     m \<leftarrow> HASH_ADD_TO_TABLE head hv add m;
     Some (head, m) }"

text \<open>\<open>HASH_ADD_INORDER(hh, head, id, klen, add, cmpfcn)\<close>.\<close>

definition HASH_ADD_INORDER ::
  "(addr \<Rightarrow> addr \<Rightarrow> i32) \<Rightarrow> ptr \<Rightarrow> u32 \<Rightarrow> ptr \<Rightarrow> 'b umem \<Rightarrow> (ptr \<times> 'b umem) option" where
  "HASH_ADD_INORDER cmpfcn head klen add m = do {
     e \<leftarrow> h_load add (elts m);
     if unat klen \<le> 16
     then HASH_ADD_KEYPTR_BYHASHVALUE_INORDER cmpfcn head add klen
            (HASH_VALUE (take (unat klen) (uuid_bytes (cid e)))) add m
     else None }"

text \<open>The results are the head, the struct replaced and the memory.\<close>

definition HASH_REPLACE_BYHASHVALUE ::
  "ptr \<Rightarrow> u32 \<Rightarrow> u32 \<Rightarrow> ptr \<Rightarrow> 'b umem \<Rightarrow> (ptr \<times> ptr \<times> 'b umem) option" where
  "HASH_REPLACE_BYHASHVALUE head klen hv add m = do {
     e \<leftarrow> h_load add (elts m);
     replaced \<leftarrow> HASH_FIND_BYHASHVALUE head (uuid_bytes (cid e)) klen hv m;
     (head, m) \<leftarrow> (if replaced \<noteq> NULL then HASH_DEL head replaced m else Some (head, m));
     (head, m) \<leftarrow> HASH_ADD_KEYPTR_BYHASHVALUE head add klen hv add m;
     Some (head, replaced, m) }"

definition HASH_REPLACE :: "ptr \<Rightarrow> u32 \<Rightarrow> ptr \<Rightarrow> 'b umem \<Rightarrow> (ptr \<times> ptr \<times> 'b umem) option" where
  "HASH_REPLACE head klen add m = do {
     e \<leftarrow> h_load add (elts m);
     if unat klen \<le> 16
     then HASH_REPLACE_BYHASHVALUE head klen
            (HASH_VALUE (take (unat klen) (uuid_bytes (cid e)))) add m
     else None }"

definition HASH_REPLACE_BYHASHVALUE_INORDER ::
  "(addr \<Rightarrow> addr \<Rightarrow> i32) \<Rightarrow> ptr \<Rightarrow> u32 \<Rightarrow> u32 \<Rightarrow> ptr \<Rightarrow> 'b umem \<Rightarrow> (ptr \<times> ptr \<times> 'b umem) option" where
  "HASH_REPLACE_BYHASHVALUE_INORDER cmpfcn head klen hv add m = do {
     e \<leftarrow> h_load add (elts m);
     replaced \<leftarrow> HASH_FIND_BYHASHVALUE head (uuid_bytes (cid e)) klen hv m;
     (head, m) \<leftarrow> (if replaced \<noteq> NULL then HASH_DEL head replaced m else Some (head, m));
     (head, m) \<leftarrow> HASH_ADD_KEYPTR_BYHASHVALUE_INORDER cmpfcn head add klen hv add m;
     Some (head, replaced, m) }"

definition HASH_REPLACE_INORDER ::
  "(addr \<Rightarrow> addr \<Rightarrow> i32) \<Rightarrow> ptr \<Rightarrow> u32 \<Rightarrow> ptr \<Rightarrow> 'b umem \<Rightarrow> (ptr \<times> ptr \<times> 'b umem) option" where
  "HASH_REPLACE_INORDER cmpfcn head klen add m = do {
     e \<leftarrow> h_load add (elts m);
     if unat klen \<le> 16
     then HASH_REPLACE_BYHASHVALUE_INORDER cmpfcn head klen
            (HASH_VALUE (take (unat klen) (uuid_bytes (cid e)))) add m
     else None }"

definition HASH_CLEAR :: "ptr \<Rightarrow> 'b umem \<Rightarrow> (ptr \<times> 'b umem) option" where
  "HASH_CLEAR head m =
     (if head = NULL then Some (head, m)
      else do {
        tp \<leftarrow> tblp head m;
        t \<leftarrow> h_load tp (tbls m);
        ts \<leftarrow> h_free tp (tbls m);
        Some (NULL, m\<lparr>tbls := ts\<rparr>) })"

definition HASH_CNT :: "ptr \<Rightarrow> 'b umem \<Rightarrow> u32 option" where
  "HASH_CNT head m =
     (if head = NULL then Some 0 else do { t \<leftarrow> the_tbl head m; Some (num_items t) })"

text \<open>
  The sizes of the three structs on a 64-bit target: a handle is six pointers and two
  \<open>unsigned\<close>, a bucket a pointer and two \<open>unsigned\<close>, a table three words of eight bytes
  and eight of four, each group padded to a multiple of eight.
\<close>

definition HASH_OVERHEAD :: "ptr \<Rightarrow> 'b umem \<Rightarrow> u64 option" where
  "HASH_OVERHEAD head m =
     (if head = NULL then Some 0
      else do {
        t \<leftarrow> the_tbl head m;
        Some (ucast (num_items t) * 56 + ucast (num_buckets t) * 16 + 64) })"

section \<open>Insertion at a place\<close>

lemma dll_insert:
  assumes "dll nx pv p (as @ bs)" and "distinct (as @ a # bs)"
    and "nx' a = hdp bs" and "pv' a = lastp p as"
    and "\<And>b. b \<in> set as \<union> set bs \<Longrightarrow> nx' b = (if as \<noteq> [] \<and> b = last as then Some a else nx b)"
    and "\<And>b. b \<in> set as \<union> set bs \<Longrightarrow> pv' b = (if Some b = hdp bs then Some a else pv b)"
  shows "dll nx' pv' p (as @ a # bs)"
  using assms
proof (induction as arbitrary: p)
  case Nil
  show ?case
  proof (cases bs)
    case (Cons y ys)
    have "dll nx pv (Some y) ys = dll nx' pv' (Some y) ys"
      using Cons Nil.prems by (intro dll_cong) auto
    then show ?thesis using Cons Nil.prems by simp
  qed (use Nil.prems in simp)
next
  case (Cons x xs)
  have "dll nx' pv' (Some x) (xs @ a # bs)"
    using Cons.prems by (intro Cons.IH) (auto split: if_splits)
  moreover have "nx' x = hdp (xs @ a # bs)"
    using Cons.prems by (cases xs) auto
  moreover have "pv' x = p"
    using Cons.prems hdp_SomeD [of bs x] by auto
  ultimately show ?case by simp
qed

lemma akbi_loop_ok:
  assumes "runl (anx m) xs None" and "xs \<noteq> []" and "\<forall>x \<in> set xs. live m x"
  shows "HASH_AKBI_INNER_LOOP cmpfcn (hdp xs) (Some a) m
       = Some (hdp (dropWhile (\<lambda>x. sint (cmpfcn x a) \<le> 0) xs))"
  using assms
proof (induction xs)
  case (Cons x xs)
  have "srt_next (Some x) m = Some (hdp xs)"
    using Cons.prems by (simp add: srt_next_live)
  with Cons show ?case
    by (subst HASH_AKBI_INNER_LOOP.simps) auto
qed simp

text \<open>Where the new element goes: behind every element up to the first greater one.\<close>

definition before :: "(addr \<Rightarrow> addr \<Rightarrow> i32) \<Rightarrow> addr \<Rightarrow> addr list \<Rightarrow> addr list" where
  "before cmpfcn a xs = takeWhile (\<lambda>x. sint (cmpfcn x a) \<le> 0) xs"

definition behind :: "(addr \<Rightarrow> addr \<Rightarrow> i32) \<Rightarrow> addr \<Rightarrow> addr list \<Rightarrow> addr list" where
  "behind cmpfcn a xs = dropWhile (\<lambda>x. sint (cmpfcn x a) \<le> 0) xs"

lemma before_behind [simp]: "before cmpfcn a xs @ behind cmpfcn a xs = xs"
  by (simp add: before_def behind_def)

lemma HASH_ADD_INORDER_NULL: "HASH_ADD_INORDER cmpfcn NULL klen add m = HASH_ADD NULL klen add m"
  by (simp add: HASH_ADD_INORDER_def HASH_ADD_def HASH_ADD_KEYPTR_BYHASHVALUE_INORDER_def
      HASH_ADD_KEYPTR_BYHASHVALUE_def cong: if_cong)

text \<open>The list of a hash whose element \<open>a\<close>, not in the list, is being filled in.\<close>

lemma akbi_ok:
  assumes ok: "hash_ok head m xs" and ne: "xs \<noteq> []" and a: "live m a" "a \<notin> set xs"
  shows "HASH_AKBI_INNER_LOOP cmpfcn head (Some a) (set_hh a ha m) = Some (hdp (behind cmpfcn a xs))"
proof -
  have "app_ok m xs" using hash_ok_tblE [OF ok ne] by auto
  then have "runl (anx m) xs None" by (auto simp: app_ok_def intro: dll_runl)
  then have "runl (anx (set_hh a ha m)) xs None"
    using a by (auto intro: runl_cong [rotated])
  then show ?thesis
    using hash_okD(1,6) [OF ok] ne by (simp add: akbi_loop_ok behind_def)
qed

lemma HASH_ADD_INORDER_last:
  assumes ok: "hash_ok head m xs" and ne: "xs \<noteq> []" and a: "live m a" "a \<notin> set xs"
    and b: "behind cmpfcn a xs = []"
  shows "HASH_ADD_INORDER cmpfcn head 16 (Some a) m = HASH_ADD head 16 (Some a) m"
proof -
  obtain h where h: "head = Some h" "live m h" "h \<noteq> a"
    using hash_okD(1,6) [OF ok] ne a(2) by (cases xs) auto
  show ?thesis
    using a(1) h akbi_ok [OF ok ne a, of cmpfcn, unfolded h(1)]
    by (simp add: HASH_ADD_INORDER_def HASH_ADD_def HASH_ADD_KEYPTR_BYHASHVALUE_INORDER_def
        HASH_ADD_KEYPTR_BYHASHVALUE_def mem_simps b Let_def del: h_load_simps(2))
qed

lemma HASH_ADD_INORDER_before:
  assumes ok: "hash_ok head m (as @ y # ys)" and a: "live m a" "a \<notin> set (as @ y # ys)"
    and k: "cidf m a \<notin> cidf m ` set (as @ y # ys)" and len: "length (as @ y # ys) + 1 < 2 ^ 32"
    and l: "log2_of head m < 31" and g: "no_oom (tbls m)"
    and b: "behind cmpfcn a (as @ y # ys) = y # ys" and p: "p = hdp (as @ a # y # ys)"
  shows "\<exists>m'. HASH_ADD_INORDER cmpfcn head 16 (Some a) m = Some (p, m')
     \<and> hash_ok p m' (as @ a # y # ys) \<and> same_ids m m' \<and> no_oom (tbls m')
     \<and> log2_of p m' \<le> Suc (log2_of head m)"
proof -
  let ?xs = "as @ y # ys"
  have ne: "?xs \<noteq> []" by simp
  from ok ne obtain tp t cs where t: "tblf m tp = Some t" "\<And>a. a \<in> set ?xs \<Longrightarrow> handle_ok m tp a"
    "app_ok m ?xs" "table_geom t" "tail t = Some (last ?xs)" "num_items t = of_nat (length ?xs)"
    "chains_ok m (num_buckets t) (buckets t) (set ?xs) cs" by (rule hash_ok_tblE) blast
  obtain h where h: "head = Some h" "h \<in> set ?xs" "h \<noteq> a" "h = (if as = [] then y else hd as)"
    using hash_okD(1) [OF ok] a(2) by (cases as) auto
  have lv: "live m x" "tbl (hnd m x) = Some tp" if "x \<in> set ?xs" for x
    using t(2) [OF that] by (simp_all add: handle_ok_def)
  have d: "distinct ?xs" by (rule hash_okD(2) [OF ok])
  have ya: "y \<noteq> a" "live m y" using a(2) lv(1) [of y] by auto
  have pv: "app_prev (hnd m y) = lastp None as"
    using dll_next_prev(1) [OF t(3) [unfolded app_ok_def]] .
  let ?hv = "HASH_VALUE (uuid_bytes (cidf m a))"
  let ?ha = "(hnd m a)\<lparr>hashv := ?hv, key := Some a, keylen := 16, tbl := Some tp,
              app_next := Some y, app_prev := lastp None as\<rparr>"
  define z where "z = last as"
  have z: "z \<noteq> a" "z \<noteq> y" "live m z" "lastp None as = Some z" if "as \<noteq> []"
    using that a(2) lv(1) [of z] d last_in_set [OF that] by (auto simp: z_def lastp_def)
  define m0 where "m0 = (if as = [] then set_hh a ?ha m
      else set_hh z ((hnd m z)\<lparr>app_next := Some a\<rparr>) (set_hh a ?ha m))"
  define m1 where "m1 = set_hh y ((hnd m y)\<lparr>app_prev := Some a\<rparr>) m0"
  have run: "HASH_ADD_INORDER cmpfcn head 16 (Some a) m =
      (do { m' \<leftarrow> HASH_ADD_TO_TABLE p ?hv (Some a) m1; Some (p, m') })"
  proof -
    have lp: "HASH_AKBI_INNER_LOOP cmpfcn (Some h) (Some a) (set_hh a ha m) = Some (Some y)" for ha
      using akbi_ok [OF ok ne a, of cmpfcn ha] b h(1) by simp
    have tph: "tbl (hnd m h) = Some tp" "live m h" using lv h(2) by auto
    show ?thesis
    proof (cases as)
      case Nil
      then show ?thesis
        using a(1) h(1,3) ya pv lp tph p
        by (simp add: HASH_ADD_INORDER_def HASH_ADD_KEYPTR_BYHASHVALUE_INORDER_def mem_simps
            m1_def m0_def Let_def del: h_load_simps(2))
    next
      case (Cons x xs)
      then have "p = Some h" using p h(4) by simp
      with Cons show ?thesis
        using a(1) h(1,3) ya pv lp tph z
        by (simp add: HASH_ADD_INORDER_def HASH_ADD_KEYPTR_BYHASHVALUE_INORDER_def mem_simps
            m1_def m0_def Let_def del: h_load_simps(2) lastp_simps(2))
    qed
  qed
  have lv0: "live m0 x = live m x" for x by (simp add: m0_def)
  have h0: "hnd m0 x = (if as \<noteq> [] \<and> x = z then (hnd m z)\<lparr>app_next := Some a\<rparr>
      else if x = a then ?ha else hnd m x)" for x
    using a(1) z by (simp add: m0_def)
  have hn: "hnd m1 x = (if x = y then (hnd m y)\<lparr>app_prev := Some a\<rparr> else hnd m0 x)" for x
    using ya lv0 by (simp add: m1_def)
  have m1: "tbls m1 = tbls m" "same_ids m m1" by (simp_all add: m1_def m0_def)
  have id: "live m1 x = live m x" "cidf m1 x = cidf m x" for x
    using same_idsD [OF m1(2)] by auto
  have lg: "unat (log2_num_buckets t) = log2_of head m"
    using h(1,2) lv t(1) by (simp add: log2_of_def the_tbl_live)
  have "\<exists>m'. HASH_ADD_TO_TABLE p (hashv (hnd m1 a)) (Some a) m1 = Some m'
     \<and> hash_ok p m' (as @ a # y # ys) \<and> same_ids m1 m' \<and> no_oom (tbls m')
     \<and> log2_of p m' \<le> Suc (unat (log2_num_buckets t))"
  proof (rule add_linked_at)
    show "chains_ok m1 (num_buckets t) (buckets t) (set as \<union> set (y # ys)) cs"
      using a(2) t(7) by (intro chains_ok_cong [OF _ _ _ t(7) [unfolded set_append]]) (auto simp: hn h0)
    show "handle_ok m1 tp x" if "x \<in> set (as @ a # y # ys)" for x
      using that a t(2) z ya by (auto simp: handle_ok_def hn h0 id)
    show "app_ok m1 (as @ a # y # ys)"
      unfolding app_ok_def
      by (rule dll_insert [OF t(3) [unfolded app_ok_def]])
        (use d a(2) z ya in \<open>auto simp: hn h0 z_def\<close>)
    show "distinct (as @ a # y # ys)" using d a(2) by auto
    have "cidf m1 = cidf m" by (rule ext) (rule id)
    then show "inj_on (cidf m1) (set (as @ a # y # ys))"
      using hash_okD(3) [OF ok] a(2) k by (simp add: inj_on_insert insert_commute)
  qed (use t len l lg g p m1 hash_okD(5) [OF ok] in simp_all)
  moreover have "hashv (hnd m1 a) = ?hv" using z ya by (auto simp: hn h0)
  ultimately show ?thesis using run m1(2) unfolding lg by (auto intro: same_ids_trans)
qed

lemma HASH_ADD_INORDER_ok:
  assumes ok: "hash_ok head m xs" and a: "live m a" "a \<notin> set xs"
    and k: "cidf m a \<notin> cidf m ` set xs" and room: "ut_room head m xs"
    and ys: "ys = before cmpfcn a xs @ a # behind cmpfcn a xs"
  shows "\<exists>m'. HASH_ADD_INORDER cmpfcn head 16 (Some a) m = Some (hdp ys, m')
     \<and> hash_ok (hdp ys) m' ys \<and> same_ids m m'"
proof -
  have r: "length xs + 1 < 2 ^ 32" "log2_of head m < 31" "no_oom (tbls m)"
    using room by (simp_all add: ut_room_def)
  note add = HASH_ADD_ok [OF ok a k r]
  show ?thesis
  proof (cases "behind cmpfcn a xs")
    case Nil
    then have y: "ys = xs @ [a]" using ys before_behind [of cmpfcn a xs] by simp
    have "HASH_ADD_INORDER cmpfcn head 16 (Some a) m = HASH_ADD head 16 (Some a) m"
      using hash_okD(1) [OF ok] HASH_ADD_INORDER_last [OF ok _ a Nil] HASH_ADD_INORDER_NULL
      by (cases "xs = []") auto
    then show ?thesis using add y by auto
  next
    case (Cons z zs)
    let ?b = "before cmpfcn a xs"
    have x: "?b @ z # zs = xs" using before_behind [of cmpfcn a xs] Cons by simp
    have y: "ys = ?b @ a # z # zs" using ys Cons by simp
    show ?thesis
      using HASH_ADD_INORDER_before [of head m ?b z zs a cmpfcn "hdp ys"] ok a k r Cons
      unfolding x y by auto
  qed
qed

text \<open>
  In a sorted hash the new element goes behind the ones that are not greater, so that
  the list stays sorted and equivalent elements stay in the order of insertion.
\<close>

lemma inorder_is_sort:
  assumes C: "\<And>a b. sint (cmpfcn a b) \<le> 0 \<longleftrightarrow> compare C a b \<noteq> Greater"
    and xs: "sorted C xs"
  shows "before cmpfcn a xs @ a # behind cmpfcn a xs = sort C (xs @ [a])"
proof (rule sort_eqI [symmetric])
  let ?bf = "before cmpfcn a xs" and ?bh = "behind cmpfcn a xs"
  have "mset xs = mset ?bf + mset ?bh" by (metis before_behind mset_append)
  then show "mset (xs @ [a]) = mset (?bf @ a # ?bh)" by simp
  have bf: "compare C x a \<noteq> Greater" if "x \<in> set ?bf" for x
    using that C by (auto simp: before_def dest: set_takeWhileD)
  have "sorted C (?bf @ ?bh)" using xs by simp
  then have ss: "sorted C ?bf" "sorted C ?bh" "\<forall>x \<in> set ?bf. \<forall>y \<in> set ?bh. compare C x y \<noteq> Greater"
    unfolding sorted_append_iff by auto
  have bh: "compare C x a = Greater" if "x \<in> set ?bh" for x
  proof (cases ?bh)
    case (Cons y ys)
    then have y: "compare C y a = Greater"
      using C hd_dropWhile [of "\<lambda>x. sint (cmpfcn x a) \<le> 0" xs] by (auto simp: behind_def)
    have "sorted C (y # ys)" using ss(2) Cons by simp
    then have "x = y \<or> compare C y x \<noteq> Greater"
      using that Cons sorted_Cons_imp_not_less by fastforce
    then show ?thesis
      using y by (metis compare.greater_iff_sym_less compare.trans_not_greater)
  qed (use that in simp)
  have a_bh: "sorted C (a # ?bh)"
  proof (rule sorted_ConsI)
    show "sorted C ?bh" by (rule ss)
    show "compare C a y \<noteq> Greater" if "?bh = y # ys" for y ys
      using bh [of y] that compare.asym_greater [of C y a] by auto
  qed
  have "compare C x y \<noteq> Greater" if "x \<in> set ?bf" "y \<in> set (a # ?bh)" for x y
    using that bf ss(3) by auto
  then show "sorted C (?bf @ a # ?bh)"
    using ss(1) a_bh unfolding sorted_append_iff by blast
  fix y
  have "stable_segment C y ?bh = []" if "compare C y a = Equiv"
    using bh that by (auto simp: filter_empty_conv)
      (metis bh comp.distinct(5) compare.trans_equiv_greater compare.sym compare.trans_equiv)
  then have "stable_segment C y (?bf @ a # ?bh) = stable_segment C y (?bf @ ?bh) @ stable_segment C y [a]"
    by (cases "compare C y a = Equiv") (simp_all del: before_behind)
  then show "stable_segment C y (xs @ [a]) = stable_segment C y (?bf @ a # ?bh)" by simp
qed

section \<open>Replacement\<close>

text \<open>The list without the element that has the key of \<open>a\<close>.\<close>

definition unkeyed :: "cachercise_cache_id_t \<Rightarrow> 'b umem \<Rightarrow> addr list \<Rightarrow> addr list" where
  "unkeyed k m xs = filter (\<lambda>b. cidf m b \<noteq> k) xs"

lemma unkeyed_find:
  assumes "distinct xs" and "inj_on (cidf m) (set xs)"
  shows "unkeyed k m xs = (case List.find (\<lambda>b. cidf m b = k) xs of None \<Rightarrow> xs | Some b \<Rightarrow> remove1 b xs)"
proof (cases "List.find (\<lambda>b. cidf m b = k) xs")
  case None
  then have "unkeyed k m xs = xs" by (auto simp: unkeyed_def find_None_iff intro!: filter_True)
  with None show ?thesis by simp
next
  case (Some b)
  then have b: "b \<in> set xs" "cidf m b = k" by (auto simp: find_Some_iff)
  have "filter (\<lambda>c. cidf m c \<noteq> k) xs = filter (\<lambda>c. c \<noteq> b) xs"
    using assms(2) b by (auto simp: inj_on_def intro: filter_cong)
  also have "\<dots> = remove1 b xs"
    using assms(1) by (induction xs) (auto intro!: filter_True)
  finally show ?thesis using Some by (simp add: unkeyed_def)
qed

lemma HASH_FIND_BYHASHVALUE_ok:
  assumes "hash_ok head m xs"
  shows "HASH_FIND_BYHASHVALUE head (uuid_bytes k) 16 (HASH_VALUE (uuid_bytes k)) m
       = Some (List.find (\<lambda>b. cidf m b = k) xs)"
proof -
  have "HASH_FIND_BYHASHVALUE head (uuid_bytes k) 16 (HASH_VALUE (uuid_bytes k)) m
      = HASH_FIND head (uuid_bytes k) 16 m"
    by (simp add: HASH_FIND_def HASH_FIND_BYHASHVALUE_def)
  then show ?thesis using HASH_FIND_ok [OF assms] by (simp add: map_of_entries)
qed

lemma replaced_out:
  assumes ok: "hash_ok head m xs" and a: "live m a" "a \<notin> set xs" and room: "ut_room head m xs"
    and old: "old = List.find (\<lambda>b. cidf m b = cidf m a) xs" and ys: "ys = unkeyed (cidf m a) m xs"
  obtains m1 where "(if old \<noteq> NULL then HASH_DEL head old m else Some (head, m)) = Some (hdp ys, m1)"
    "hash_ok (hdp ys) m1 ys" "same_ids m m1" "ut_room (hdp ys) m1 ys" "live m1 a" "a \<notin> set ys"
    "cidf m1 a \<notin> cidf m1 ` set ys"
proof -
  have "\<exists>m1. (if old \<noteq> NULL then HASH_DEL head old m else Some (head, m)) = Some (hdp ys, m1)
    \<and> hash_ok (hdp ys) m1 ys \<and> same_ids m m1 \<and> ut_room (hdp ys) m1 ys"
  proof (cases old)
    case None
    then have "ys = xs"
      using ys old unkeyed_find [OF hash_okD(2,3) [OF ok], of "cidf m a"] by simp
    then show ?thesis using None ok room hash_okD(1) [OF ok] by auto
  next
    case (Some b)
    then have b: "b \<in> set xs" using old by (auto simp: find_Some_iff)
    have y: "ys = remove1 b xs"
      using Some ys old unkeyed_find [OF hash_okD(2,3) [OF ok], of "cidf m a"] by simp
    then have "length ys \<le> length xs" by (simp add: length_remove1)
    then show ?thesis
      using HASH_DEL_ok [OF ok b] room Some y by (auto simp: ut_room_def no_oom_def)
  qed
  then obtain m1 where m1: "(if old \<noteq> NULL then HASH_DEL head old m else Some (head, m)) = Some (hdp ys, m1)"
    "hash_ok (hdp ys) m1 ys" "same_ids m m1" "ut_room (hdp ys) m1 ys" by blast
  have "cidf m1 a \<notin> cidf m1 ` set ys" "a \<notin> set ys"
    using a(2) ys same_idsD(2) [OF m1(3)] by (auto simp: unkeyed_def image_iff)
  then show thesis using that m1 a(1) same_idsD(1) [OF m1(3)] by simp
qed

lemma HASH_ADD_byhash:
  assumes "live m a"
  shows "HASH_ADD_KEYPTR_BYHASHVALUE head (Some a) 16 (HASH_VALUE (uuid_bytes (cidf m a))) (Some a) m
       = HASH_ADD head 16 (Some a) m"
    and "HASH_ADD_KEYPTR_BYHASHVALUE_INORDER cmpfcn head (Some a) 16
           (HASH_VALUE (uuid_bytes (cidf m a))) (Some a) m = HASH_ADD_INORDER cmpfcn head 16 (Some a) m"
  using assms by (simp_all add: HASH_ADD_def HASH_ADD_INORDER_def load_elt del: h_load_simps)

lemma HASH_REPLACE_ok:
  assumes ok: "hash_ok head m xs" and a: "live m a" "a \<notin> set xs" and room: "ut_room head m xs"
    and ys: "ys = unkeyed (cidf m a) m xs @ [a]"
  shows "\<exists>m'. HASH_REPLACE head 16 (Some a) m =
       Some (hdp ys, List.find (\<lambda>b. cidf m b = cidf m a) xs, m') \<and> hash_ok (hdp ys) m' ys \<and> same_ids m m'"
proof -
  let ?old = "List.find (\<lambda>b. cidf m b = cidf m a) xs"
  let ?zs = "unkeyed (cidf m a) m xs"
  obtain m1 where m1: "(if ?old \<noteq> NULL then HASH_DEL head ?old m else Some (head, m)) = Some (hdp ?zs, m1)"
    "hash_ok (hdp ?zs) m1 ?zs" "same_ids m m1" "ut_room (hdp ?zs) m1 ?zs" "live m1 a" "a \<notin> set ?zs"
    "cidf m1 a \<notin> cidf m1 ` set ?zs"
    using replaced_out [OF ok a room refl refl] by blast
  obtain m' where m': "HASH_ADD (hdp ?zs) 16 (Some a) m1 = Some (hdp ys, m')"
    "hash_ok (hdp ys) m' ys" "same_ids m1 m'"
    using HASH_ADD_ok [OF m1(2,5,6,7)] m1(4) ys by (auto simp: ut_room_def)
  have k: "cidf m1 a = cidf m a" using same_idsD(2) [OF m1(3)] by simp
  have "HASH_REPLACE head 16 (Some a) m = Some (hdp ys, ?old, m')"
    using a(1) HASH_FIND_BYHASHVALUE_ok [OF ok, of "cidf m a"] m1(1) m'(1)
      HASH_ADD_byhash(1) [OF m1(5), unfolded k]
    by (cases ?old) (simp_all add: HASH_REPLACE_def HASH_REPLACE_BYHASHVALUE_def load_elt
        del: h_load_simps)
  then show ?thesis using m'(2) same_ids_trans [OF m1(3) m'(3)] by auto
qed

lemma HASH_REPLACE_INORDER_ok:
  assumes ok: "hash_ok head m xs" and a: "live m a" "a \<notin> set xs" and room: "ut_room head m xs"
    and zs: "zs = unkeyed (cidf m a) m xs"
    and ys: "ys = before cmpfcn a zs @ a # behind cmpfcn a zs"
  shows "\<exists>m'. HASH_REPLACE_INORDER cmpfcn head 16 (Some a) m =
       Some (hdp ys, List.find (\<lambda>b. cidf m b = cidf m a) xs, m') \<and> hash_ok (hdp ys) m' ys \<and> same_ids m m'"
proof -
  let ?old = "List.find (\<lambda>b. cidf m b = cidf m a) xs"
  obtain m1 where m1: "(if ?old \<noteq> NULL then HASH_DEL head ?old m else Some (head, m)) = Some (hdp zs, m1)"
    "hash_ok (hdp zs) m1 zs" "same_ids m m1" "ut_room (hdp zs) m1 zs" "live m1 a" "a \<notin> set zs"
    "cidf m1 a \<notin> cidf m1 ` set zs"
    using replaced_out [OF ok a room refl zs] by blast
  obtain m' where m': "HASH_ADD_INORDER cmpfcn (hdp zs) 16 (Some a) m1 = Some (hdp ys, m')"
    "hash_ok (hdp ys) m' ys" "same_ids m1 m'"
    using HASH_ADD_INORDER_ok [OF m1(2,5,6,7,4) ys] by blast
  have k: "cidf m1 a = cidf m a" using same_idsD(2) [OF m1(3)] by simp
  have "HASH_REPLACE_INORDER cmpfcn head 16 (Some a) m = Some (hdp ys, ?old, m')"
    using a(1) HASH_FIND_BYHASHVALUE_ok [OF ok, of "cidf m a"] m1(1) m'(1)
      HASH_ADD_byhash(2) [OF m1(5), unfolded k]
    by (cases ?old) (simp_all add: HASH_REPLACE_INORDER_def HASH_REPLACE_BYHASHVALUE_INORDER_def load_elt
        del: h_load_simps)
  then show ?thesis using m'(2) same_ids_trans [OF m1(3) m'(3)] by auto
qed

section \<open>Clearing and counting\<close>

lemma HASH_CLEAR_ok:
  assumes ok: "hash_ok head m xs"
  shows "\<exists>m'. HASH_CLEAR head m = Some (NULL, m') \<and> hash_ok NULL m' [] \<and> elts m' = elts m
     \<and> (\<forall>tp. tblf m' tp \<noteq> None \<longrightarrow> tblf m' tp = tblf m tp \<and> (\<forall>a \<in> set xs. tbl (hnd m a) \<noteq> Some tp))"
proof (cases "xs = []")
  case True
  then show ?thesis using ok by (auto simp: HASH_CLEAR_def hash_ok_def)
next
  case False
  obtain tp t cs where t: "tblf m tp = Some t" "\<And>a. a \<in> set xs \<Longrightarrow> handle_ok m tp a"
    using ok False by (rule hash_ok_tblE) blast
  obtain h where h: "head = Some h" "h \<in> set xs"
    using hash_okD(1) [OF ok] False by (cases xs) auto
  let ?m = "m\<lparr>tbls := (tbls m)\<lparr>cells := (tblf m)(tp := None)\<rparr>\<rparr>"
  have tb: "tbl (hnd m a) = Some tp" if "a \<in> set xs" for a
    using t(2) [OF that] by (simp add: handle_ok_def)
  then have "HASH_CLEAR head m = Some (NULL, ?m)"
    using h t(1) hash_okD(6) [OF ok] by (simp add: HASH_CLEAR_def mem_simps del: h_load_simps(2))
  moreover have "hash_ok NULL ?m []"
    using hash_okD(5) [OF ok] by (auto simp: heap_wf_def intro!: hash_ok_empty)
  ultimately show ?thesis using tb by auto
qed

lemma HASH_CNT_ok:
  assumes ok: "hash_ok head m xs"
  shows "\<exists>n. HASH_CNT head m = Some n \<and> unat n = length xs"
proof (cases "xs = []")
  case True
  then show ?thesis using hash_okD(1) [OF ok] by (auto simp: HASH_CNT_def)
next
  case False
  obtain tp t cs where t: "tblf m tp = Some t" "\<And>a. a \<in> set xs \<Longrightarrow> handle_ok m tp a"
    "num_items t = of_nat (length xs)"
    using ok False by (rule hash_ok_tblE) blast
  obtain h where h: "head = Some h" "h \<in> set xs"
    using hash_okD(1) [OF ok] False by (cases xs) auto
  then have "HASH_CNT head m = Some (num_items t)"
    using t(1) t(2) [OF h(2)] by (simp add: HASH_CNT_def the_tbl_live handle_ok_def)
  then show ?thesis using t(3) hash_okD(4) [OF ok] by (simp add: unat_of_nat_lt)
qed

end
