(* ===== verification/Uthash_Functions.thy ===== *)
theory Uthash_Functions
  imports Uthash
begin

text \<open>
  The hash functions of \<open>src/uthash.h\<close> that \<open>HASH_FUNCTION\<close> may select instead of
  Jenkins': Bernstein's, shift-add-xor, FNV-1a, one-at-a-time and Hsieh's.  The key is
  the list of its bytes, \<open>keylen\<close> its length, and \<open>hashv\<close> is \<open>unsigned\<close>, so all
  arithmetic is modulo \<open>2 ^ 32\<close>.
\<close>

section \<open>The macros\<close>

definition HASH_BER :: "u8 list \<Rightarrow> u32" where
  "HASH_BER bs = fold (\<lambda>b h. (push_bit 5 h + h) + ucast b) bs 0"

definition HASH_SAX :: "u8 list \<Rightarrow> u32" where
  "HASH_SAX bs = fold (\<lambda>b h. h XOR (push_bit 5 h + drop_bit 2 h + ucast b)) bs 0"

definition HASH_FNV :: "u8 list \<Rightarrow> u32" where
  "HASH_FNV bs = fold (\<lambda>b h. (h XOR ucast b) * 16777619) bs 2166136261"

definition oat_step :: "u8 \<Rightarrow> u32 \<Rightarrow> u32" where
  "oat_step b h =
     (let h = h + ucast b;
          h = h + push_bit 10 h;
          h = h XOR drop_bit 6 h
      in h)"

definition HASH_OAT :: "u8 list \<Rightarrow> u32" where
  "HASH_OAT bs =
     (let h = fold oat_step bs 0;
          h = h + push_bit 3 h;
          h = h XOR drop_bit 11 h;
          h = h + push_bit 15 h
      in h)"

definition get16bits :: "u8 \<Rightarrow> u8 \<Rightarrow> u32" where
  "get16bits d0 d1 = push_bit 8 (ucast d1) + ucast d0"

text \<open>The main loop, four bytes at a time, and the up to three bytes it leaves.\<close>

fun sfh_loop :: "u32 \<Rightarrow> u8 list \<Rightarrow> u32 \<times> u8 list" where
  "sfh_loop h (a # b # c # d # bs) =
     (let h = h + get16bits a b;
          tmp = push_bit 11 (get16bits c d) XOR h;
          h = push_bit 16 h XOR tmp;
          h = h + drop_bit 11 h
      in sfh_loop h bs)"
| "sfh_loop h bs = (h, bs)"

definition sfh_rest :: "u32 \<Rightarrow> u8 list \<Rightarrow> u32" where
  "sfh_rest h r = (case r of
      [a, b, c] \<Rightarrow>
        (let h = h + get16bits a b;
             h = h XOR push_bit 16 h;
             h = h XOR push_bit 18 (ucast c)
         in h + drop_bit 11 h)
    | [a, b] \<Rightarrow>
        (let h = h + get16bits a b;
             h = h XOR push_bit 11 h
         in h + drop_bit 17 h)
    | [a] \<Rightarrow>
        (let h = h + ucast a;
             h = h XOR push_bit 10 h
         in h + drop_bit 1 h)
    | _ \<Rightarrow> h)"

definition HASH_SFH :: "u8 list \<Rightarrow> u32" where
  "HASH_SFH bs =
     (let (h, r) = sfh_loop 0xcafebabe bs;
          h = sfh_rest h r;
          h = h XOR push_bit 3 h;
          h = h + drop_bit 5 h;
          h = h XOR push_bit 4 h;
          h = h + drop_bit 17 h;
          h = h XOR push_bit 25 h;
          h = h + drop_bit 6 h
      in h)"

section \<open>Keys that differ in one byte\<close>

text \<open>
  A step of Bernstein's and of the FNV hash can be undone, since 33 and 16777619 are
  odd, and adds the byte injectively.  So neither maps two keys to the same value that
  differ in one byte only, as ids counted up would.
\<close>

lemma ucast_inj: "(ucast b :: u32) = ucast c \<longleftrightarrow> b = (c :: u8)"
proof
  assume "(ucast b :: u32) = ucast c"
  then have "bit b n = bit c n" if "n < 8" for n
    using that unfolding bit_eq_iff by (auto simp: bit_simps)
  then show "b = c" by (intro bit_word_eqI) simp
qed simp

lemma xor_cancel:
  fixes x :: u32
  shows "x XOR y = x XOR z \<longleftrightarrow> y = z" "y XOR x = z XOR x \<longleftrightarrow> y = z"
  unfolding bit_eq_iff by (auto simp: bit_simps)

lemma odd_mult_cancel:
  fixes x y k j :: u32
  assumes "x * k = y * k" and "k * j = 1"
  shows "x = y"
proof -
  have "x = (x * k) * j" using assms(2) by (simp add: mult.assoc)
  also have "\<dots> = y" using assms by (simp add: mult.assoc)
  finally show ?thesis .
qed

lemma fold_inj_suffix:
  assumes "fold f bs g = fold f bs h" and "\<And>b g h. f b g = f b h \<Longrightarrow> g = h"
  shows "g = h"
  using assms(1) by (induction bs arbitrary: g h) (auto dest: assms(2))

lemma fold_one_byte:
  assumes inj: "\<And>b g h. f b g = f b h \<Longrightarrow> g = h" and byte: "\<And>b c h. f b h = f c h \<Longrightarrow> b = c"
    and "b \<noteq> c"
  shows "fold f (xs @ b # ys) s \<noteq> fold f (xs @ c # ys) s"
proof
  assume "fold f (xs @ b # ys) s = fold f (xs @ c # ys) s"
  then have "fold f ys (f b (fold f xs s)) = fold f ys (f c (fold f xs s))" by simp
  then have "f b (fold f xs s) = f c (fold f xs s)" by (rule fold_inj_suffix) (rule inj)
  with byte assms(3) show False by blast
qed

lemma ber_step: "push_bit 5 h + h = h * (33 :: u32)"
  by (simp add: push_bit_eq_mult)

lemma HASH_BER_one_byte:
  assumes "b \<noteq> c"
  shows "HASH_BER (xs @ b # ys) \<noteq> HASH_BER (xs @ c # ys)"
  unfolding HASH_BER_def ber_step
proof (rule fold_one_byte [OF _ _ assms])
  show "g = h" if "g * 33 + ucast b = h * (33 :: u32) + ucast b" for b :: u8 and g h
    using that odd_mult_cancel [of g 33 h 1041204193] by simp
  show "b = c" if "h * 33 + ucast b = h * (33 :: u32) + ucast c" for b c :: u8 and h
    using that by (simp add: ucast_inj)
qed

lemma HASH_FNV_one_byte:
  assumes "b \<noteq> c"
  shows "HASH_FNV (xs @ b # ys) \<noteq> HASH_FNV (xs @ c # ys)"
  unfolding HASH_FNV_def
proof (rule fold_one_byte [OF _ _ assms])
  have undo: "x = y" if "x * 16777619 = y * (16777619 :: u32)" for x y
    using that odd_mult_cancel [of x 16777619 y 899433627] by simp
  show "g = h" if "(g XOR ucast b) * 16777619 = (h XOR ucast b) * (16777619 :: u32)" for b :: u8 and g h
    using undo [OF that] by (simp add: xor_cancel)
  show "b = c" if "(h XOR ucast b) * 16777619 = (h XOR ucast c) * (16777619 :: u32)" for b c :: u8 and h
    using undo [OF that] by (simp add: xor_cancel ucast_inj)
qed

end
