(* ===== verification/Hash_Properties.thy ===== *)
theory Hash_Properties
  imports Uthash_Fsck Uthash_Inorder Uthash_Functions Instance
begin

text \<open>
  The properties of the macros of uthash that work on a whole hash: sorting, insertion
  in order with replacement, and the consistency check.  Their instances are a hash of two
  structs and a third struct that is in no hash.
\<close>

section \<open>A hash of two structs\<close>

definition mem_three :: "open_ctx umem" where
  "mem_three = \<lparr>elts = plenty\<lparr>cells := [0 \<mapsto> \<lparr>body = (NULL, NULL), cid = 7, hh = zero_handle\<rparr>,
       1 \<mapsto> \<lparr>body = (NULL, NULL), cid = 8, hh = zero_handle\<rparr>,
       2 \<mapsto> \<lparr>body = (NULL, NULL), cid = 7, hh = zero_handle\<rparr>], brk := 3\<rparr>, tbls = plenty\<rparr>"

lemma mem_three:
  "hash_ok None mem_three []" "live mem_three 0" "live mem_three 1" "live mem_three 2"
  "cidf mem_three 0 = 7" "cidf mem_three 1 = 8" "cidf mem_three 2 = 7" "log2_of None mem_three = 5"
  "no_oom (tbls mem_three)"
  by (simp_all add: mem_three_def hash_ok_empty live_def cidf_def log2_of_def the_tbl_def tblp_def)

lemma mem_two:
  assumes "a \<in> {0, 1}" and "b \<in> {0, 1}" and "a \<noteq> b"
  obtains m where "hash_ok (Some a) m [a, b]" "same_ids mem_three m" "ut_room (Some a) m [a, b]"
proof -
  have ab: "live mem_three a" "live mem_three b" "cidf mem_three a \<noteq> cidf mem_three b"
    using assms mem_three by auto
  have "\<exists>m. HASH_ADD NULL 16 (Some a) mem_three = Some (Some a, m) \<and> hash_ok (Some a) m [a]
      \<and> same_ids mem_three m \<and> no_oom (tbls m) \<and> log2_of (Some a) m \<le> 6"
    using HASH_ADD_ok [OF mem_three(1) ab(1)] mem_three by fastforce
  then obtain m1 where m1: "hash_ok (Some a) m1 [a]" "same_ids mem_three m1" "no_oom (tbls m1)"
    "log2_of (Some a) m1 \<le> 6" by blast
  have "live m1 b" "cidf m1 b \<notin> cidf m1 ` set [a]"
    using same_idsD [OF m1(2)] ab by simp_all
  then have "\<exists>m. HASH_ADD (Some a) 16 (Some b) m1 = Some (Some a, m) \<and> hash_ok (Some a) m [a, b]
      \<and> same_ids m1 m \<and> no_oom (tbls m) \<and> log2_of (Some a) m \<le> 7"
    using HASH_ADD_ok [OF m1(1), of b] m1(3,4) assms(3) by fastforce
  then obtain m where "hash_ok (Some a) m [a, b]" "same_ids m1 m" "no_oom (tbls m)" "log2_of (Some a) m \<le> 7"
    by blast
  with same_ids_trans [OF m1(2)] that [of m] show thesis by (simp add: ut_room_def)
qed

text \<open>A comparison function that puts the higher address first.\<close>

definition down :: "addr \<Rightarrow> addr \<Rightarrow> i32" where
  "down a b = (if a < b then 1 else if b < a then - 1 else 0)"

lemma down: "sint (down a b) \<le> 0 \<longleftrightarrow> compare (reversed default) a b \<noteq> Greater"
  by (simp add: down_def)

lemma sort_down: "sort (reversed default) [0, 1 :: addr] = [1, 0]"
  by (simp add: compare.greater_iff_sym_less)

section \<open>Sorting\<close>

text \<open>
  C35: \<open>HASH_SRT\<close> comes to an end, and the order of the hash becomes the one the stable sort of the
  library gives: equivalent elements keep their order.  The table stays well formed
  and no struct or key changes.
\<close>

theorem hash_sort_correct:
  assumes "\<And>a b. sint (cmpfcn a b) \<le> 0 \<longleftrightarrow> compare C a b \<noteq> Greater" and "hash_ok head m xs"
  shows "\<exists>m'. HASH_SRT cmpfcn head m = Some (hdp (sort C xs), m')
     \<and> hash_ok (hdp (sort C xs)) m' (sort C xs) \<and> same_ids m m'"
  using assms by (rule HASH_SRT_ok)

lemma hash_sort_correct_witness:
  "\<exists>(m :: open_ctx umem) m'. hash_ok (Some 0) m [0, 1] \<and> HASH_SRT down (Some 0) m = Some (Some 1, m')
    \<and> hash_ok (Some 1) m' [1, 0]"
proof (rule mem_two [of 0 1])
  fix m :: "open_ctx umem" assume m: "hash_ok (Some 0) m [0, 1 :: addr]"
  from hash_sort_correct [OF down m, unfolded sort_down] m show ?thesis
    by (simp only: hdp_simps) blast
qed simp_all

section \<open>Insertion in order\<close>

lemma sorted_filter: "sorted C xs \<Longrightarrow> sorted C (filter P xs)"
  by (metis filter_sort sort_eqI sorted_sort)

text \<open>
  C36: in a sorted hash \<open>HASH_REPLACE_INORDER\<close> takes out the struct with the key of the
  new one, if there is one, and returns it; the new struct goes where the stable sort would
  put it, so that the hash is sorted again.
\<close>

theorem hash_replace_inorder_correct:
  assumes "\<And>a b. sint (cmpfcn a b) \<le> 0 \<longleftrightarrow> compare C a b \<noteq> Greater"
    and "hash_ok head m xs" and "sorted C xs" and "live m a" and "a \<notin> set xs" and "ut_room head m xs"
    and "ys = sort C (filter (\<lambda>b. cidf m b \<noteq> cidf m a) xs @ [a])"
  shows "\<exists>m'. HASH_REPLACE_INORDER cmpfcn head 16 (Some a) m
       = Some (hdp ys, List.find (\<lambda>b. cidf m b = cidf m a) xs, m')
     \<and> hash_ok (hdp ys) m' ys \<and> same_ids m m'"
proof -
  let ?zs = "unkeyed (cidf m a) m xs"
  have "sorted C ?zs" using assms(3) unfolding unkeyed_def by (rule sorted_filter)
  with assms(1) have "before cmpfcn a ?zs @ a # behind cmpfcn a ?zs = sort C (?zs @ [a])"
    by (rule inorder_is_sort)
  then have "ys = before cmpfcn a ?zs @ a # behind cmpfcn a ?zs"
    using assms(7) by (simp add: unkeyed_def)
  with assms(2,4-6) show ?thesis by (intro HASH_REPLACE_INORDER_ok [OF _ _ _ _ refl])
qed

lemma hash_replace_inorder_correct_witness:
  "\<exists>(m :: open_ctx umem) m'. hash_ok (Some 1) m [1, 0] \<and> HASH_REPLACE_INORDER down (Some 1) 16 (Some 2) m = Some (Some 2, Some 0, m')
    \<and> hash_ok (Some 2) m' [2, 1]"
proof (rule mem_two [of 1 0])
  fix m :: "open_ctx umem" assume m: "hash_ok (Some 1) m [1, 0 :: addr]" "same_ids mem_three m" "ut_room (Some 1) m [1, 0]"
  have "sorted (reversed default) [1, 0 :: addr]"
    by (auto intro!: sorted_ConsI simp: compare.greater_iff_sym_less)
  moreover have "[2, 1] = sort (reversed default) (filter (\<lambda>b. cidf m b \<noteq> cidf m 2) [1, 0] @ [2 :: addr])"
    using same_idsD(2) [OF m(2)] mem_three by (simp add: compare.greater_iff_sym_less)
  ultimately have "\<exists>m'. HASH_REPLACE_INORDER down (Some 1) 16 (Some 2) m =
      Some (hdp [2, 1], List.find (\<lambda>b. cidf m b = cidf m 2) [1, 0], m') \<and> hash_ok (hdp [2, 1]) m' [2, 1]
      \<and> same_ids m m'"
    using hash_replace_inorder_correct [OF down m(1), of 2] same_idsD(1) [OF m(2)] mem_three m(3) by simp
  moreover have "List.find (\<lambda>b. cidf m b = cidf m 2) [1, 0 :: addr] = Some 0"
    using same_idsD(2) [OF m(2)] mem_three by simp
  ultimately have "\<exists>m'. HASH_REPLACE_INORDER down (Some 1) 16 (Some 2) m = Some (Some 2, Some 0, m')
      \<and> hash_ok (Some 2) m' [2, 1]"
    by (simp only: hdp_simps) blast
  with m(1) show ?thesis by blast
qed simp_all

section \<open>The consistency check\<close>

text \<open>
  C37: \<open>HASH_FSCK\<close> accepts exactly the memories in which every bucket heads a well linked
  chain with as many items as it counts, the list in application order is well
  linked, and both have as many items as the table counts, modulo \<open>2 ^ 32\<close>.  No
  shape of the memory is presupposed.
\<close>

theorem hash_fsck_correct:
  "HASH_FSCK (Some h) m = Some True \<longleftrightarrow>
     (\<exists>t cs xs. the_tbl (Some h) m = Some t \<and> unat (num_buckets t) \<le> length (buckets t)
     \<and> list_all2 (fsck_bucket m) (take (unat (num_buckets t)) (buckets t)) cs
     \<and> num_items t = of_nat (length (concat cs))
     \<and> hdp xs = Some h \<and> live_dll m app_next app_prev None xs \<and> num_items t = of_nat (length xs))"
  by (simp only: fsck_iff_spec fsck_spec_def)

end
