(* ===== verification/Spec2Isabelle.thy ===== *)
theory Spec2Isabelle
  imports Component_Properties Client_Properties Program_Properties Ult_Properties Hash_Properties Abstract_Server
begin

text \<open>
  A verification library for cachercise, a Mochi microservice that keeps caches of
  64-bit integers behind RPCs.

  \<^bold>\<open>The program.\<close>  A provider (\<open>src/provider.c\<close>) keeps a hash table of caches, made
  with the macros of \<open>src/uthash.h\<close>.  Each cache is an id, a context and the table of
  functions of its backend (\<open>include/cachercise/cachercise-backend.h\<close>).  The one
  backend of the repository, the dummy backend (\<open>src/dummy/dummy-backend.c\<close>), keeps
  per context a hoard, a growing vector of \<open>int64_t\<close> (\<open>src/hoard.hpp\<close>,
  \<open>src/hoard.cc\<close>).  Administrators (\<open>src/admin.c\<close>) and clients (\<open>src/client.c\<close>) reach
  the provider through margo; the structures on the wire and their procs are in
  \<open>src/types.h\<close>.  \<open>src/bedrock-module.c\<close> starts and stops all of them for the Bedrock
  daemon.  \<open>examples/client.c\<close>, \<open>admin.c\<close> and \<open>server.c\<close> are programs over the libraries,
  \<open>examples/cachebench.c\<close> is a benchmark that runs as an MPI job.

  \<^bold>\<open>The model.\<close>  Every C function is a function on explicit state.  A result \<open>None\<close>
  says that execution leaves the defined behaviour of C or does not get past this
  point: a \<open>NULL\<close> or dangling pointer, an index outside of an object, signed overflow,
  an uncaught exception, uthash's \<open>exit\<close> when \<open>malloc\<close> fails.  Error codes are ordinary
  results.  Integers are words of their C width.

    \<^item> \<open>Prelude\<close>, \<open>CHeap\<close>, \<open>Bytes\<close>: integer types, arrays, typed heaps with an allocator
      that may refuse any request, objects as bytes and \<open>memcpy\<close>.
    \<^item> \<open>Common\<close>, \<open>Types\<close>: return codes, cache ids (16 bytes, one 128-bit word), the
      argument and result structures of the RPCs.
    \<^item> \<open>Uthash\<close>: the macros at the level of pointers: buckets, chains, the list in order
      of insertion, expansion, the Jenkins hash.
      \<open>Dll\<close>, \<open>Uthash_Mem\<close>, \<open>Uthash_Inv\<close> hold
      the invariant \<open>hash_ok\<close>; \<open>Uthash_Jenkins\<close>, \<open>Uthash_Expand\<close>, \<open>Uthash_Add\<close>,
      \<open>Uthash_Del\<close> show that the macros keep it and what they do to the set of keys;
      \<open>Uthash_Table\<close> states it as the interface \<open>ordered_table\<close>.
      \<open>Uthash_Fsck\<close> has uthash's own integrity check; \<open>Merge_Runs\<close> and \<open>Uthash_Sort\<close> its
      mergesort, shown to be the stable sort of the library; \<open>Uthash_Inorder\<close> insertion in
      order, \<open>HASH_REPLACE\<close> and \<open>HASH_CLEAR\<close>; \<open>Uthash_Functions\<close> the other hash functions.
    \<^item> \<open>Hoard\<close>: the vector and its C interface, growth and wrap-around included.
    \<^item> \<open>Backend\<close>: the table of functions and the contract \<open>backends\<close>; \<open>Dummy_Backend\<close>
      meets it.
    \<^item> \<open>Provider\<close>: the state of a provider, the eight handlers, lookup, insertion and
      removal of caches.  \<open>Provider_Hash\<close> relates the table to the list of caches,
      \<open>Provider_Ops\<close> has the behaviour of each handler under the contract,
      \<open>Registration\<close> the life of a provider at margo.
    \<^item> \<open>System\<close>: the server as a state machine (\<open>serve\<close>, \<open>step\<close>, \<open>reachable\<close>);
      \<open>Dummy_System\<close> is the server with the dummy backend, \<open>Abstract_Server\<close> its
      abstract specification.
    \<^item> \<open>Wire\<close>: the procs of all structures over those of Mercury's basic types.
    \<^item> \<open>Net\<close>: margo as the client side uses it; \<open>Client\<close>, \<open>Client_Handles\<close>, \<open>Admin\<close>: the
      two libraries; \<open>Bedrock\<close>: the module.
    \<^item> \<open>Loopback\<close>, \<open>Remote\<close>: an instance of \<open>Net\<close> that carries calls to the server, and
      the libraries joined to it; \<open>Bench\<close>: the loops of the benchmark.
    \<^item> \<open>Examples\<close>, \<open>Cachebench\<close>: the programs, from their arguments to their exit status, and
      their runs against the server.
      \<open>Cleanup\<close>: what a failing set-up of the benchmark gives back.
    \<^item> \<open>Ults\<close>: the I/O function of the dummy backend in small steps, for ULTs that
      interleave at every access to the mutex and the vector.
    \<^item> \<open>Instance\<close>, \<open>Remote_Instance\<close>: concrete libraries, states and messages at which
      the theorems are evaluated.

  \<^bold>\<open>Interfaces.\<close>  Each is a locale: \<open>ordered_table\<close> (a table as the provider sees uthash),
  \<open>flat_store\<close> (a store as the backend sees the hoard), \<open>backends\<close> (what the provider
  expects of a backend), \<open>codec\<close> (a proc), \<open>margo_net\<close> (margo for
  callers).  They are interpreted at the models of the code that provides them, the
  last at \<open>loopback\<close>.

  \<^bold>\<open>Properties.\<close>  This theory has the properties of the server: the invariant of every
  reachable state, what each request does, which requests are refused, the
  refinement of the abstract server.  \<open>Component_Properties\<close> and \<open>Hash_Properties\<close> have
  those of single components, \<open>Client_Properties\<close> those of the wire, the client side and
  the joined system, \<open>Program_Properties\<close> those of the programs, \<open>Ult_Properties\<close> those of
  concurrent requests.  Several show what the code does where it fails: leaked contexts, mutexes and
  RPC handles, reads past the end of an object, an uninitialised variable, a data race.

  \<^bold>\<open>Parameters and bounds.\<close>  json-c, Argobots, libuuid, Mercury, margo, Bedrock, MPI and SSG are
  not in the repository.  They are arguments of the definitions: records of functions
  with the laws \<open>ext_ok\<close>, \<open>json_ok\<close>, \<open>json_owns\<close>, \<open>alone\<close>, \<open>tracks\<close>, \<open>margo_ok\<close>, \<open>procs_ok\<close> and \<open>net_ok\<close>, which state what their
  documentation promises; each is met by a concrete instance.  Where memory matters a
  hypothesis says so: \<open>table_room\<close>, \<open>dummy_room\<close>, \<open>hoard_fits\<close>.  The number of elements
  of a table is below \<open>2 ^ 32\<close>, as its counters are \<open>unsigned\<close>.  No loop
  has fuel: the outer loop of \<open>HASH_SRT\<close>, which is not structural, is a partial function
  whose end is part of what is proved of it.

  \<^bold>\<open>Where the code is undefined.\<close>  Some claims stop at such a place, and say so.
  \<open>cachercise_provider_register\<close> asks \<open>realloc\<close> for one byte and stores a pointer there, so
  that no registration has a defined result; the servers that the other claims study are
  in a state a registration means to leave.  A request of an administrator that cannot be
  decoded makes the handler free an uninitialised input.  An operation on a cache that was
  opened, and not created, goes through a \<open>NULL\<close> hoard.

  \<^bold>\<open>Not modelled.\<close>  Logging and timings; the optional parts of uthash that the default
  configuration compiles away (Bloom filter, key emission, non-fatal allocation
  failure) and \<open>HASH_SELECT\<close>, which needs a second hash handle in the structure;
  \<open>Hoard::show\<close>; the macros of \<open>examples/json-macros.h\<close> that no program uses; the tests.
  A client function is one step of the server: the handlers run one after the other.  Inside
  of them only the I/O function of the backend is refined to ULTs that interleave; the table
  of the provider has no lock at all.
\<close>

section \<open>The server as a whole\<close>

text \<open>
  C2: every state the server can reach from a consistent one by serving requests,
  whatever they are, is consistent: the uthash table is well formed, \<open>num_caches\<close>
  is the number of its elements, their ids differ, and each cache has a context of
  its own that is open at the backend.
\<close>

theorem reachable_server_ok:
  assumes "reachable dummy_room sv0 sv" and "dummy_server e jl ml D sv0 xs0 C0"
  shows "\<exists>xs C. dummy_server e jl ml D sv xs C"
  using assms unfolding dummy_server_def by (rule dm.reachable_inv)

lemma reachable_server_ok_witness:
  "\<exists>xs C. ref_server server1 xs C"
proof (rule reachable_server_ok [OF _ server0_ok])
  have "step dummy_room server0 (ReqCreate (Some create_in) create_out 7)
      (RespCreate \<lparr>cc_ret = 0, cc_id = 7\<rparr>) server1"
    using server0_room by (intro step_serve) (simp_all add: server1_ok(4))
  then show "reachable dummy_room server0 server1" by (rule reach_step [OF reach_init])
qed

text \<open>
  C1: the server refines its specification.  Whatever requests it answers, in whatever
  order, the answers are ones the abstract server gives: a list of caches by id, each
  an unbounded array of integers that starts out as zeros, or no array at all if it was
  opened.  One kind of request is excluded (\<open>sized\<close>): a write of less than one element, that is
  of less than 8 bytes, at an offset of \<open>2 ^ 62\<close> or more.  Such a write may cut a cache, as
  \<open>hoard_empty_put_cuts\<close> shows, and refines nothing.
\<close>

theorem server_refines_spec:
  assumes "srun dummy_room sv tr sv'" and "dummy_server e jl ml D sv xs C"
    and "\<forall>q \<in> fst ` set tr. sized q"
  shows "\<exists>ys C'. dummy_server e jl ml D sv' ys C' \<and> arun (abs_server sv xs) tr (abs_server sv' ys)"
  using assms by (rule run_simulated)

lemma server_refines_spec_witness:
  "\<exists>ys C. ref_server server1 ys C
    \<and> arun \<lparr>spec_token = Some ''ABCDEFGH'', spec_caches = []\<rparr>
        [(ReqCreate (Some create_in) create_out 7, RespCreate \<lparr>cc_ret = 0, cc_id = 7\<rparr>)]
        (abs_server server1 ys)"
proof -
  have "step dummy_room server0 (ReqCreate (Some create_in) create_out 7)
      (RespCreate \<lparr>cc_ret = 0, cc_id = 7\<rparr>) server1"
    using server0_room by (intro step_serve) (simp_all add: server1_ok(4))
  then have "srun dummy_room server0
      [(ReqCreate (Some create_in) create_out 7, RespCreate \<lparr>cc_ret = 0, cc_id = 7\<rparr>)] server1"
    by (rule sr_cons) (rule sr_nil)
  from server_refines_spec [OF this server0_ok] show ?thesis
    by (simp add: abs_server_def server0_simps)
qed

text \<open>
  C3: a request other than a sum or an I/O request is answered if its input decodes and its
  strings are there: no handler dereferences a bad pointer, whatever ids and names the
  request holds.  An admin request that does not decode is not answered in this sense: its
  handler frees strings that it never got (\<open>serve_undecoded\<close> in \<open>System\<close>).
\<close>

theorem serve_answers:
  assumes "dummy_server e jl ml D sv xs C" and "well_formed req sv" and "has_room dummy_room req sv"
    and "\<And>i o0. req \<noteq> ReqSum (Some i) o0" and "\<And>i o0. req \<noteq> ReqIo (Some i) o0"
  shows "serve req sv \<noteq> None"
  using assms unfolding dummy_server_def by (rule dm.serve_progress)

lemma serve_answers_witness:
  "serve (ReqClose (Some \<lparr>cl_token = Some ''ABCDEFGH'', cl_id = 7\<rparr>) \<lparr>cl_ret = 99\<rparr>) server1 \<noteq> None"
  by (rule serve_answers [OF server1_addr(1)]) (simp_all add: token_given_def)

text \<open>
  C4: an admin request with a token other than the provider's is answered with
  \<open>CACHERCISE_ERR_INVALID_TOKEN\<close> and leaves the server as it was.
\<close>

theorem wrong_token_refused:
  assumes "token (prov sv) = Some t" and "request_token req = Some (Some s)" and "s \<noteq> t"
  shows "\<exists>resp. serve req sv = Some (resp, sv)
    \<and> response_code resp = Some (scast (ret_code CACHERCISE_ERR_INVALID_TOKEN))"
  using assms by (rule serve_unauthorised)

lemma wrong_token_refused_witness:
  "\<exists>resp. serve (ReqClose (Some \<lparr>cl_token = Some ''guess'', cl_id = 7\<rparr>) \<lparr>cl_ret = 99\<rparr>) server1
      = Some (resp, server1)
    \<and> response_code resp = Some (scast (ret_code CACHERCISE_ERR_INVALID_TOKEN))"
  by (rule wrong_token_refused [OF server1_ok(3), where s = "''guess''"]) simp_all

text \<open>
  C5: creating a cache.  The reply carries the code of the backend; on success it
  carries the new id, the context is open at the backend and, when the id is not
  taken, the cache is appended to the list of the provider.  On failure nothing
  changes but the state of the backend's libraries.
\<close>

theorem create_cache_functional:
  assumes "dummy_server e jl ml D sv xs C" and "check_token (prov sv) (cc_token inp) = Some True"
    and "cc_type inp = Some nm" and "backend_named sv nm = D" and "D \<noteq> NULL"
    and "table_room sv" and "dummy_room (world sv)" and "cache_map sv xs uid = None"
  shows "\<exists>ret c w out sv'. dummy_create_cache e (self sv) (cc_config inp) NULL (world sv) = Some (ret, c, w)
     \<and> cachercise_create_cache_ult (Some inp) out0 uid sv = Some (out, sv')
     \<and> world sv' = w \<and> cc_ret out = ret_code ret
     \<and> (if ret = CACHERCISE_SUCCESS
        then cc_id out = uid \<and> (D, c) \<notin> C
          \<and> (\<exists>ys. dummy_server e jl ml D sv' ys (insert (D, c) C)
               \<and> cache_list sv' ys = cache_list sv xs @ [(uid, (D, c))])
        else cc_id out = cc_id out0 \<and> dummy_server e jl ml D sv' xs C
          \<and> cache_list sv' xs = cache_list sv xs)"
proof -
  let ?ok = "server_ok (dummy_W e jl ml D) (\<lambda>f b. f = D \<and> b = dummy_backend e)"
  have be: "backend_named sv nm \<noteq> NULL" using assms(4,5) by simp
  from dm.create_ult_ok [OF assms(1) [unfolded dummy_server_def] assms(2,3) be assms(6,7), of out0 uid,
      unfolded assms(4)]
  obtain b ret c w out sv' where b: "D = D \<and> b = dummy_backend e"
    and r: "create_cache b (self sv) (cc_config inp) NULL (world sv) = Some (ret, c, w)"
      "cachercise_create_cache_ult (Some inp) out0 uid sv = Some (out, sv')"
      "world sv' = w" "cc_ret out = ret_code ret"
    and i: "if ret = CACHERCISE_SUCCESS
        then cc_id out = uid \<and> (D, c) \<notin> C
          \<and> (\<exists>ys. ?ok sv' ys (insert (D, c) C) \<and> attached sv xs uid (D, c) sv' ys)
        else cc_id out = cc_id out0 \<and> ?ok sv' xs C \<and> cache_list sv' xs = cache_list sv xs
          \<and> token (prov sv') = token (prov sv)"
    by (elim exE conjE) (rule that; (assumption | simp))
  have d: "dummy_create_cache e (self sv) (cc_config inp) NULL (world sv) = Some (ret, c, w)"
    using b r(1) by (simp add: dummy_backend_def)
  show ?thesis
    using d r(2-4) i assms(8) unfolding dummy_server_def attached_def
    by (intro exI [of _ ret] exI [of _ c] exI [of _ w] exI [of _ out] exI [of _ sv']) auto
qed

lemma create_cache_functional_witness:
  "\<exists>out sv' ys. cachercise_create_cache_ult (Some create_in) create_out 7 server0 = Some (out, sv')
     \<and> cc_ret out = 0 \<and> cc_id out = 7 \<and> cache_list sv' ys = [(7, (Some 0, Some 0))]"
  using create_cache_functional [OF server0_ok, of create_in "''dummy''" 7 create_out]
    server0_token server0_backend server0_room
  by (auto simp: create_in_def server0_simps create_world0)

text \<open>
  Opening a cache behaves like creating one at the provider; the context it
  opens has neither a hoard nor a mutex.
\<close>

theorem open_cache_functional:
  assumes "dummy_server e jl ml D sv xs C" and "check_token (prov sv) (oc_token inp) = Some True"
    and "oc_type inp = Some nm" and "backend_named sv nm = D" and "D \<noteq> NULL"
    and "table_room sv" and "dummy_room (world sv)" and "cache_map sv xs uid = None"
  shows "\<exists>ret c w out sv'. dummy_open_cache e (self sv) (oc_config inp) NULL (world sv) = Some (ret, c, w)
     \<and> cachercise_open_cache_ult (Some inp) out0 uid sv = Some (out, sv')
     \<and> world sv' = w \<and> oc_ret out = ret_code ret
     \<and> (if ret = CACHERCISE_SUCCESS
        then oc_id out = uid \<and> cache_hoard w c = NULL
          \<and> (\<exists>ys. dummy_server e jl ml D sv' ys (insert (D, c) C)
               \<and> cache_list sv' ys = cache_list sv xs @ [(uid, (D, c))])
        else oc_id out = oc_id out0 \<and> dummy_server e jl ml D sv' xs C
          \<and> cache_list sv' xs = cache_list sv xs)"
proof -
  let ?ok = "server_ok (dummy_W e jl ml D) (\<lambda>f b. f = D \<and> b = dummy_backend e)"
  have be: "backend_named sv nm \<noteq> NULL" using assms(4,5) by simp
  from dm.open_ult_ok [OF assms(1) [unfolded dummy_server_def] assms(2,3) be assms(6,7), of out0 uid,
      unfolded assms(4)]
  obtain b ret c w out sv' where b: "D = D \<and> b = dummy_backend e"
    and r: "open_cache b (self sv) (oc_config inp) NULL (world sv) = Some (ret, c, w)"
      "cachercise_open_cache_ult (Some inp) out0 uid sv = Some (out, sv')"
      "world sv' = w" "oc_ret out = ret_code ret"
    and i: "if ret = CACHERCISE_SUCCESS
        then oc_id out = uid \<and> (D, c) \<notin> C
          \<and> (\<exists>ys. ?ok sv' ys (insert (D, c) C) \<and> attached sv xs uid (D, c) sv' ys)
        else oc_id out = oc_id out0 \<and> ?ok sv' xs C \<and> cache_list sv' xs = cache_list sv xs
          \<and> token (prov sv') = token (prov sv)"
    by (elim exE conjE) (rule that; (assumption | simp))
  have d: "dummy_open_cache e (self sv) (oc_config inp) NULL (world sv) = Some (ret, c, w)"
    using b r(1) by (simp add: dummy_backend_def)
  have "cache_hoard w c = NULL" if "ret = CACHERCISE_SUCCESS"
    using dummy_open_ok [OF dummy_serverD(2) [OF assms(1)] d] that by (auto simp: cache_hoard_def)
  then show ?thesis
    using d r(2-4) i assms(8) unfolding dummy_server_def attached_def
    by (intro exI [of _ ret] exI [of _ c] exI [of _ w] exI [of _ out] exI [of _ sv']) auto
qed

lemma open_cache_functional_witness:
  "\<exists>out sv' ys. cachercise_open_cache_ult (Some open_in) open_out 8 server1 = Some (out, sv')
     \<and> oc_ret out = 0 \<and> cache_list sv' ys = [(7, (Some 0, Some 0)), (8, (Some 0, Some 1))]"
proof -
  obtain w where "dummy_open_cache ref_ext (Some 0) (Some ''{}'') NULL world1 = Some (CACHERCISE_SUCCESS, Some 1, w)"
    using open_world1 by blast
  with open_cache_functional [OF server1_addr(1), of open_in "''dummy''" 8 open_out] server1_token
    server1_ok(2,5,6) server1_room server1_addr(2,4)
  show ?thesis by (auto simp: open_in_def)
qed

text \<open>
  C6: a creation whose id is already taken is answered with success, although the
  provider keeps its list: the new context stays open at the backend, where no
  request can reach or close it.
\<close>

theorem create_duplicate_leaks:
  assumes "dummy_server e jl ml D sv xs C" and "check_token (prov sv) (cc_token inp) = Some True"
    and "cc_type inp = Some nm" and "backend_named sv nm = D" and "D \<noteq> NULL"
    and "table_room sv" and "dummy_room (world sv)" and "cache_map sv xs uid \<noteq> None"
    and "dummy_create_cache e (self sv) (cc_config inp) NULL (world sv) = Some (CACHERCISE_SUCCESS, c, w)"
  shows "\<exists>out sv' ys. cachercise_create_cache_ult (Some inp) out0 uid sv = Some (out, sv')
     \<and> cc_ret out = ret_code CACHERCISE_SUCCESS \<and> cache_list sv' ys = cache_list sv xs
     \<and> dummy_server e jl ml D sv' ys (insert (D, c) C)
     \<and> (D, c) \<notin> C \<and> (D, c) \<notin> snd ` set (cache_list sv' ys)"
proof -
  let ?ok = "server_ok (dummy_W e jl ml D) (\<lambda>f b. f = D \<and> b = dummy_backend e)"
  have be: "backend_named sv nm \<noteq> NULL" using assms(4,5) by simp
  from dm.create_ult_ok [OF assms(1) [unfolded dummy_server_def] assms(2,3) be assms(6,7), of out0 uid,
      unfolded assms(4)]
  obtain b ret c' w' out sv' where b: "D = D \<and> b = dummy_backend e"
    and r: "create_cache b (self sv) (cc_config inp) NULL (world sv) = Some (ret, c', w')"
      "cachercise_create_cache_ult (Some inp) out0 uid sv = Some (out, sv')"
      "world sv' = w'" "cc_ret out = ret_code ret"
    and i: "if ret = CACHERCISE_SUCCESS
        then cc_id out = uid \<and> (D, c') \<notin> C
          \<and> (\<exists>ys. ?ok sv' ys (insert (D, c') C) \<and> attached sv xs uid (D, c') sv' ys)
        else cc_id out = cc_id out0 \<and> ?ok sv' xs C \<and> cache_list sv' xs = cache_list sv xs
          \<and> token (prov sv') = token (prov sv)"
    by (elim exE conjE) (rule that; (assumption | simp))
  have e: "ret = CACHERCISE_SUCCESS" "c' = c"
    using b r(1) assms(9) by (simp_all add: dummy_backend_def)
  then obtain ys where ys: "?ok sv' ys (insert (D, c) C)" "cache_list sv' ys = cache_list sv xs" "(D, c) \<notin> C"
    using i assms(8) by (auto simp: attached_def)
  moreover have "snd ` set (cache_list sv xs) \<subseteq> C"
    using assms(1) by (simp add: dummy_server_def server_ok_def)
  ultimately have "(D, c) \<notin> snd ` set (cache_list sv' ys)" by auto
  with ys e(1) r(2,4) show ?thesis
    unfolding dummy_server_def by (intro exI [of _ out] exI [of _ sv'] exI [of _ ys]) simp
qed

lemma create_duplicate_leaks_witness:
  "\<exists>out sv' ys. cachercise_create_cache_ult (Some create_in) create_out 7 server1 = Some (out, sv')
     \<and> cc_ret out = 0 \<and> cache_list sv' ys = [(7, (Some 0, Some 0))]
     \<and> (Some 0, Some 1) \<notin> snd ` set (cache_list sv' ys)"
proof -
  obtain w where "dummy_create_cache ref_ext (Some 0) (Some ''{}'') NULL world1 = Some (CACHERCISE_SUCCESS, Some 1, w)"
    using create_world1 by blast
  with create_duplicate_leaks [OF server1_addr(1), of create_in "''dummy''" 7 "Some 1" w create_out] server1_token
    server1_ok(2,5,6) server1_room server1_addr(2,3)
  show ?thesis by (auto simp: create_in_def)
qed

text \<open>
  C7: closing a cache the provider knows succeeds with the backend's code; exactly
  that cache leaves the list, the others keep their order, and exactly its context
  is closed.
\<close>

theorem close_cache_functional:
  assumes "dummy_server e jl ml D sv xs C" and "check_token (prov sv) (cl_token inp) = Some True"
    and "cache_map sv xs (cl_id inp) = Some bd"
  shows "\<exists>ret sv' ys. dummy_close_cache e (snd bd) (world sv) = Some (ret, world sv')
     \<and> cachercise_close_cache_ult (Some inp) out0 sv = Some (out0\<lparr>cl_ret := ret_code ret\<rparr>, sv')
     \<and> dummy_server e jl ml D sv' ys (C - {bd})
     \<and> cache_list sv' ys = filter (\<lambda>p. fst p \<noteq> cl_id inp) (cache_list sv xs)"
  using dm.close_ult_ok [OF assms(1) [unfolded dummy_server_def] assms(2,3), of out0]
  unfolding dummy_server_def by (fastforce simp: dummy_backend_def)

lemma close_cache_functional_witness:
  "\<exists>ret sv'. cachercise_close_cache_ult (Some \<lparr>cl_token = Some ''ABCDEFGH'', cl_id = 7\<rparr>) \<lparr>cl_ret = 99\<rparr> server1
      = Some (\<lparr>cl_ret = ret_code ret\<rparr>, sv') \<and> (\<exists>ys. ref_server sv' ys {} \<and> cache_list sv' ys = [])"
  using close_cache_functional [OF server1_addr(1), of "\<lparr>cl_token = Some ''ABCDEFGH'', cl_id = 7\<rparr>"
      "(Some 0, Some 0)" "\<lparr>cl_ret = 99\<rparr>"] server1_token server1_addr
  by auto

text \<open>
  Destroying a cache the provider knows succeeds; exactly that cache leaves the
  list and exactly its context is gone.
\<close>

theorem destroy_cache_functional:
  assumes "dummy_server e jl ml D sv xs C" and "check_token (prov sv) (ds_token inp) = Some True"
    and "cache_map sv xs (ds_id inp) = Some bd"
  shows "\<exists>r sv' ys. dummy_destroy_cache e (snd bd) (world sv) = Some (r, world sv')
     \<and> cachercise_destroy_cache_ult (Some inp) out0 sv
        = Some (out0\<lparr>ds_ret := ret_code CACHERCISE_SUCCESS\<rparr>, sv')
     \<and> dummy_server e jl ml D sv' ys (C - {bd})
     \<and> cache_list sv' ys = filter (\<lambda>p. fst p \<noteq> ds_id inp) (cache_list sv xs)"
  using dm.destroy_ult_ok [OF assms(1) [unfolded dummy_server_def] assms(2,3), of out0]
  unfolding dummy_server_def by (fastforce simp: dummy_backend_def)

lemma destroy_cache_functional_witness:
  "\<exists>sv'. cachercise_destroy_cache_ult (Some \<lparr>ds_token = Some ''ABCDEFGH'', ds_id = 7\<rparr>) \<lparr>ds_ret = 99\<rparr> server1
      = Some (\<lparr>ds_ret = 0\<rparr>, sv') \<and> (\<exists>ys. ref_server sv' ys {} \<and> cache_list sv' ys = [])"
  using destroy_cache_functional [OF server1_addr(1), of "\<lparr>ds_token = Some ''ABCDEFGH'', ds_id = 7\<rparr>"
      "(Some 0, Some 0)" "\<lparr>ds_ret = 99\<rparr>"] server1_token server1_addr
  by auto

text \<open>
  C8: a listing returns the ids of all caches in the order of their creation; the
  count is the smaller of their number and \<open>max_ids\<close>.
\<close>

theorem list_caches_functional:
  assumes "table_inv sv xs" and "check_token (prov sv) (li_token inp) = Some True"
  shows "cachercise_list_caches_ult (Some inp) out0 True sv
    = Some (\<lparr>lo_ret = 0, lo_count = of_nat (min (length xs) (unat (li_max_ids inp))),
        lo_ids = Some (map fst (cache_list sv xs))\<rparr>, sv)"
  using assms by (rule list_ult_ok)

lemma list_caches_functional_witness:
  "cachercise_list_caches_ult (Some \<lparr>li_token = Some ''ABCDEFGH'', li_max_ids = 10\<rparr>)
      \<lparr>lo_ret = 99, lo_count = 99, lo_ids = None\<rparr> True server1
    = Some (\<lparr>lo_ret = 0, lo_count = 1, lo_ids = Some [7]\<rparr>, server1)"
  using list_caches_functional [OF dummy_serverD(1) [OF server1_addr(1)],
      of "\<lparr>li_token = Some ''ABCDEFGH'', li_max_ids = 10\<rparr>" "\<lparr>lo_ret = 99, lo_count = 99, lo_ids = None\<rparr>"]
    server1_token server1_addr(2)
  by simp

section \<open>I/O\<close>

text \<open>
  C11: a write of one element followed by a read of it, both through the RPC handler,
  returns the value written.
\<close>

theorem io_read_after_write:
  assumes "dummy_server e jl ml D sv xs C" and "cache_map sv xs (io_cache_id i) = Some (f, c)"
    and "cache_hoard (world sv) c \<noteq> NULL" and "ucast (io_kind i) = CACHERCISE_WRITE"
    and "unat (io_count i) div 8 = 1"
    and "hoard_fits (cache_hoard (world sv) c) (hoards (world sv)) 1 (unat (io_offset i))"
    and "io_cache_id j = io_cache_id i" and "io_offset j = io_offset i" and "unat (io_count j) div 8 = 1"
    and "ucast (io_kind j) \<noteq> CACHERCISE_WRITE"
  shows "\<exists>sv'. cachercise_io_ult (Some i) out0 sv
      = Some (\<lparr>out_bytes = 8, out_scratch = io_scratch i, out_result = 1, out_ret = 0\<rparr>, sv')
    \<and> dummy_server e jl ml D sv' xs C
    \<and> cachercise_io_ult (Some j) out1 sv'
      = Some (\<lparr>out_bytes = 8, out_scratch = io_scratch i, out_result = 1, out_ret = 0\<rparr>, sv')"
  using assms by (rule io_write_then_read)

lemma io_read_after_write_witness:
  "\<exists>sv'. cachercise_io_ult (Some \<lparr>io_cache_id = 7, io_count = 8, io_offset = 3, io_scratch = 55, io_kind = 0\<rparr>) io_out0 server1
      = Some (\<lparr>out_bytes = 8, out_scratch = 55, out_result = 1, out_ret = 0\<rparr>, sv')
    \<and> cachercise_io_ult (Some \<lparr>io_cache_id = 7, io_count = 8, io_offset = 3, io_scratch = 0, io_kind = 1\<rparr>) io_out0 sv'
      = Some (\<lparr>out_bytes = 8, out_scratch = 55, out_result = 1, out_ret = 0\<rparr>, sv')"
proof -
  let ?i = "\<lparr>io_cache_id = 7, io_count = 8, io_offset = 3, io_scratch = 55, io_kind = 0\<rparr>"
  let ?j = "\<lparr>io_cache_id = 7, io_count = 8, io_offset = 3, io_scratch = 0, io_kind = 1\<rparr>"
  have h: "cache_hoard (world server1) (Some 0) = Some 0" by (simp add: server1_ok(2) world1_def cache_hoard_def)
  have f: "hoard_fits (Some 0) (hoards (world server1)) 1 3"
    by (simp add: server1_ok(2) world1_def hoard_fits_def hoard_size_def vector_max_size_def)
  have "\<exists>sv'. cachercise_io_ult (Some ?i) io_out0 server1
      = Some (\<lparr>out_bytes = 8, out_scratch = io_scratch ?i, out_result = 1, out_ret = 0\<rparr>, sv')
    \<and> ref_server sv' [addr1] {(Some 0, Some 0)}
    \<and> cachercise_io_ult (Some ?j) io_out0 sv'
      = Some (\<lparr>out_bytes = 8, out_scratch = io_scratch ?i, out_result = 1, out_ret = 0\<rparr>, sv')"
    by (rule io_read_after_write [OF server1_addr(1), of ?i "Some 0" "Some 0" ?j])
      (use h f server1_addr(3) in \<open>simp_all add: CACHERCISE_WRITE_def\<close>)
  then show ?thesis by auto
qed

text \<open>
  C13: when an I/O request of at least one element that names a cache of the provider is
  answered, it asked for one element only, the cache has a hoard, and the element lies
  inside the vector: for a read inside the vector the request found, for a write inside
  the vector it left, grown where that was needed.  The handler has a buffer of one
  \<open>int64_t\<close>, and every other request runs past it.
\<close>

theorem io_answered_in_bounds:
  assumes "dummy_server e jl ml D sv xs C" and "cache_map sv xs (io_cache_id i) = Some (f, c)"
    and "cachercise_io_ult (Some i) out0 sv = Some (out, sv')" and "8 \<le> unat (io_count i)"
  shows "unat (io_count i) < 16 \<and> cache_hoard (world sv) c \<noteq> NULL
    \<and> unat (io_offset i) < vector_max_size
    \<and> (if ucast (io_kind i) = CACHERCISE_WRITE then unat (io_offset i) < cache_size (world sv') c
       else unat (io_offset i) < cache_size (world sv) c)"
proof -
  have r: "cachercise_io_ult (Some i) out0 sv \<noteq> None" using assms(3) by simp
  show ?thesis
    using io_ult_bounds [OF assms(1,2) r assms(4)] io_ult_written [OF assms] by simp
qed

lemma io_answered_in_bounds_witness:
  "\<exists>out sv'. cachercise_io_ult (Some \<lparr>io_cache_id = 7, io_count = 8, io_offset = 3, io_scratch = 55, io_kind = 0\<rparr>) io_out0 server1
      = Some (out, sv') \<and> 3 < cache_size (world sv') (Some 0)
    \<and> cachercise_io_ult (Some \<lparr>io_cache_id = 7, io_count = 16, io_offset = 3, io_scratch = 55, io_kind = 0\<rparr>) io_out0 server1 = None"
proof -
  let ?i = "\<lambda>n. \<lparr>io_cache_id = 7, io_count = n, io_offset = 3, io_scratch = 55, io_kind = 0\<rparr>"
  have h: "cache_hoard (world server1) (Some 0) = Some 0" by (simp add: server1_ok(2) world1_def cache_hoard_def)
  have "hoard_fits (Some 0) (hoards (world server1)) 1 3"
    by (simp add: server1_ok(2) world1_def hoard_fits_def hoard_size_def vector_max_size_def)
  then have "\<exists>sv'. cachercise_io_ult (Some (?i 8)) io_out0 server1
      = Some (\<lparr>out_bytes = 8, out_scratch = io_scratch (?i 8), out_result = 1, out_ret = 0\<rparr>, sv')"
    using io_write_then_read [OF server1_addr(1), of "?i 8" "Some 0" "Some 0" "(?i 8)\<lparr>io_kind := 1\<rparr>" io_out0 io_out0]
      h server1_addr(3) by (auto simp: CACHERCISE_WRITE_def)
  then obtain out sv' where a: "cachercise_io_ult (Some (?i 8)) io_out0 server1 = Some (out, sv')" by blast
  have "cachercise_io_ult (Some (?i 16)) io_out0 server1 = None"
  proof (cases "cachercise_io_ult (Some (?i 16)) io_out0 server1")
    case (Some r)
    obtain out2 sv2 where "r = (out2, sv2)" by (cases r)
    with io_answered_in_bounds [OF server1_addr(1), of "?i 16" "Some 0" "Some 0" io_out0] Some server1_addr(3)
    show ?thesis by simp
  qed
  with a io_answered_in_bounds [OF server1_addr(1), of "?i 8" "Some 0" "Some 0" io_out0 out sv'] server1_addr(3)
  show ?thesis by (simp add: CACHERCISE_WRITE_def)
qed

text \<open>
  C16: opening a cache sets up no hoard: after an opening the provider has answered with
  success under a fresh id, the cache is in the list, and every I/O request that names it
  dereferences \<open>NULL\<close>, whatever its kind, count and offset.
\<close>

theorem opened_cache_io_undefined:
  assumes "dummy_server e jl ml D sv xs C" and "cache_map sv xs (io_cache_id i) = None"
    and "table_room sv" and "dummy_room (world sv)"
    and "cachercise_open_cache_ult inp out0 (io_cache_id i) sv = Some (out, sv')" and "oc_ret out = 0"
  shows "\<exists>c ys C'. dummy_server e jl ml D sv' ys C'
    \<and> cache_list sv' ys = cache_list sv xs @ [(io_cache_id i, (D, c))]
    \<and> cachercise_io_ult (Some i) out1 sv' = None"
proof -
  from open_ult_opened [OF assms(1,3-6,2)] obtain c ys C' where
    o: "dummy_server e jl ml D sv' ys C'" "cache_list sv' ys = cache_list sv xs @ [(io_cache_id i, (D, c))]"
      "cache_hoard (world sv') c = NULL" by blast
  have "cache_map sv' ys (io_cache_id i) = Some (D, c)"
    using o(2) assms(2) by (simp add: cache_map_def map_add_def)
  from io_ult_no_hoard [OF o(1) this o(3)] o(1,2) show ?thesis by blast
qed

lemma opened_cache_io_undefined_witness:
  "\<exists>out sv'. cachercise_open_cache_ult (Some open_in) open_out 8 server1 = Some (out, sv') \<and> oc_ret out = 0
    \<and> cachercise_io_ult (Some \<lparr>io_cache_id = 8, io_count = 8, io_offset = 0, io_scratch = 1, io_kind = 0\<rparr>) io_out0 sv' = None"
proof -
  let ?i = "\<lparr>io_cache_id = 8, io_count = 8, io_offset = 0, io_scratch = 1, io_kind = 0\<rparr>"
  obtain out sv' where o: "cachercise_open_cache_ult (Some open_in) open_out 8 server1 = Some (out, sv')" "oc_ret out = 0"
    using server2_ok(3) by blast
  have "cachercise_io_ult (Some ?i) io_out0 sv' = None"
    using opened_cache_io_undefined [OF server1_addr(1), of ?i "Some open_in" open_out out sv' io_out0] o
      server1_room server1_addr(4) by auto
  with o show ?thesis by blast
qed

section \<open>Requests that are refused\<close>

text \<open>
  C31: a request that names a cache the provider does not know is answered with
  \<open>CACHERCISE_ERR_INVALID_CACHE\<close> (\<open>hello\<close> has no answer) and changes nothing.
\<close>

theorem unknown_cache_refused:
  assumes "table_inv sv xs" and "request_cache req = Some k" and "cache_map sv xs k = None"
    and "admitted req sv"
  shows "\<exists>resp. serve req sv = Some (resp, sv)
    \<and> (response_code resp = None \<or> response_code resp = Some (scast (ret_code CACHERCISE_ERR_INVALID_CACHE)))"
  using assms by (rule serve_unknown_cache)

lemma unknown_cache_refused_witness:
  "\<exists>resp. serve (ReqClose (Some \<lparr>cl_token = Some ''ABCDEFGH'', cl_id = 9\<rparr>) \<lparr>cl_ret = 99\<rparr>) server1 = Some (resp, server1)
    \<and> (response_code resp = None \<or> response_code resp = Some (scast (ret_code CACHERCISE_ERR_INVALID_CACHE)))"
  by (rule unknown_cache_refused [OF dummy_serverD(1) [OF server1_addr(1)], where k = 9])
    (use server1_token server1_addr(4) in \<open>simp_all add: admitted_def\<close>)

section \<open>The end of a provider\<close>

text \<open>
  C9: destroying the provider deregisters its eight RPCs and closes the context of
  every cache of its list; only contexts outside the list stay open.
\<close>

theorem provider_destroy_functional:
  assumes "dummy_server e jl ml D sv xs C" and "margo_ok mg regs rid"
  shows "\<exists>sv' g'. cachercise_provider_destroy mg sv g = Some (CACHERCISE_SUCCESS, sv', g')
    \<and> dummy_server e jl ml D sv' [] (C - snd ` set (cache_list sv xs))
    \<and> regs g' = (\<lambda>i. if i \<in> set (rpc_ids (prov sv)) then None else regs g i) \<and> self sv' = NULL"
  using assms by (rule provider_destroy_run)

lemma provider_destroy_functional_witness:
  "\<exists>sv' g'. cachercise_provider_destroy ref_margo server1 Map.empty = Some (CACHERCISE_SUCCESS, sv', g')
    \<and> ref_server sv' [] {}"
  using provider_destroy_functional [OF server1_addr(1) ref_margo_ok, of Map.empty] server1_addr(2)
  by auto

end
